(* ===== verification/Prelude.thy ===== *)
theory Prelude
  imports Main "HOL-Library.Word" "HOL-Library.Sublist"
begin

unbundle bit_operations_syntax

text \<open>
  Shared vocabulary of the development: machine integers, bytes and characters, the
  operations of \<^verbatim>\<open>std::string\<close> / \<^verbatim>\<open>std::string_view\<close> and of \<^verbatim>\<open><cctype>\<close> (C locale) that the
  components use, decimal printing as \<^verbatim>\<open>std::to_string\<close> does it, and the generic facts
  about them. A C++ string is a list of 8-bit characters, a byte buffer a list of 8-bit
  words; \<open>byte_of\<close> and \<open>chr\<close> are the two \<^verbatim>\<open>reinterpret_cast\<close>s between them.
\<close>

named_theorems byte_simps \<open>facts about bytes, characters and the casts between them\<close>
named_theorems str_simps \<open>facts about the string operations\<close>

type_synonym u8 = "8 word"
type_synonym u16 = "16 word"
type_synonym u32 = "32 word"
type_synonym u64 = "64 word"
type_synonym bytes = "u8 list"

subsection \<open>Bytes and characters\<close>

abbreviation ord :: "char \<Rightarrow> nat" where
  "ord c \<equiv> of_char c"

definition byte_of :: "char \<Rightarrow> u8" where
  "byte_of c = word_of_nat (ord c)"

definition chr :: "u8 \<Rightarrow> char" where
  "chr b = char_of (unat b)"

definition as_bytes :: "string \<Rightarrow> bytes" where
  "as_bytes s = map byte_of s"

definition as_view :: "bytes \<Rightarrow> string" where
  "as_view b = map chr b"

lemma ord_less_256: "ord c < 256"
proof -
  have "ord c mod 256 < 256" by simp
  then show ?thesis by (simp only: of_char_mod_256)
qed

lemma chr_byte_of [simp, byte_simps]: "chr (byte_of c) = c"
  by (simp add: chr_def byte_of_def unat_of_nat)

lemma byte_of_chr [simp, byte_simps]: "byte_of (chr b) = b"
proof -
  have "unat b < 256" using unsigned_less [of b] by simp
  then show ?thesis by (simp add: chr_def byte_of_def)
qed

lemma as_view_as_bytes [simp, byte_simps]: "as_view (as_bytes s) = s"
  by (simp add: as_view_def as_bytes_def comp_def)

lemma as_bytes_as_view [simp, byte_simps]: "as_bytes (as_view b) = b"
  by (simp add: as_view_def as_bytes_def comp_def)

lemma length_as_bytes [simp, byte_simps]: "length (as_bytes s) = length s"
  by (simp add: as_bytes_def)

lemma length_as_view [simp, byte_simps]: "length (as_view b) = length b"
  by (simp add: as_view_def)

lemma as_bytes_append [simp, byte_simps]: "as_bytes (s @ t) = as_bytes s @ as_bytes t"
  by (simp add: as_bytes_def)

lemma as_view_append [simp, byte_simps]: "as_view (s @ t) = as_view s @ as_view t"
  by (simp add: as_view_def)

lemma as_bytes_Nil [simp, byte_simps]: "as_bytes [] = []"
  by (simp add: as_bytes_def)

lemma as_view_Nil [simp, byte_simps]: "as_view [] = []"
  by (simp add: as_view_def)

lemma as_bytes_eq_Nil [simp, byte_simps]: "as_bytes s = [] \<longleftrightarrow> s = []"
  by (simp add: as_bytes_def)

lemma as_view_eq_Nil [simp, byte_simps]: "as_view s = [] \<longleftrightarrow> s = []"
  by (simp add: as_view_def)

subsection \<open>Character classes of the C locale\<close>

definition in_range :: "char \<Rightarrow> char \<Rightarrow> char \<Rightarrow> bool" where
  "in_range lo hi c \<longleftrightarrow> ord lo \<le> ord c \<and> ord c \<le> ord hi"

definition is_digit :: "char \<Rightarrow> bool" where
  "is_digit c \<longleftrightarrow> in_range CHR ''0'' CHR ''9'' c"

definition is_upper :: "char \<Rightarrow> bool" where
  "is_upper c \<longleftrightarrow> in_range CHR ''A'' CHR ''Z'' c"

definition is_lower :: "char \<Rightarrow> bool" where
  "is_lower c \<longleftrightarrow> in_range CHR ''a'' CHR ''z'' c"

definition is_space :: "char \<Rightarrow> bool" where
  "is_space c \<longleftrightarrow> c = CHR '' '' \<or> (9 \<le> ord c \<and> ord c \<le> 13)"

definition is_xdigit :: "char \<Rightarrow> bool" where
  "is_xdigit c \<longleftrightarrow> is_digit c \<or> in_range CHR ''a'' CHR ''f'' c \<or> in_range CHR ''A'' CHR ''F'' c"

definition to_lower :: "char \<Rightarrow> char" where
  "to_lower c = (if is_upper c then char_of (ord c + 32) else c)"

lemma ord_to_lower: "ord (to_lower c) = (if is_upper c then ord c + 32 else ord c)"
proof -
  have "is_upper c \<Longrightarrow> ord c + 32 < 256"
    by (simp add: is_upper_def in_range_def)
  then show ?thesis by (simp add: to_lower_def)
qed

lemma to_lower_idem [simp]: "to_lower (to_lower c) = to_lower c"
proof -
  have "\<not> is_upper (to_lower c)"
    using ord_to_lower [of c] by (auto simp: is_upper_def in_range_def split: if_splits)
  then show ?thesis by (simp add: to_lower_def)
qed

lemma to_lower_not_upper: "\<not> is_upper c \<Longrightarrow> to_lower c = c"
  by (simp add: to_lower_def)

subsection \<open>Case-insensitive comparison\<close>

text \<open>
  The repository repeats this helper (\<^verbatim>\<open>iequals\<close>, \<^verbatim>\<open>istarts_with\<close>, \<^verbatim>\<open>starts_with_ci\<close>,
  \<^verbatim>\<open>iends_with\<close>) in several translation units, with the same body each time.
\<close>

definition iequals :: "string \<Rightarrow> string \<Rightarrow> bool" where
  "iequals a b \<longleftrightarrow>
     (if length a \<noteq> length b then False
      else list_all2 (\<lambda>x y. to_lower x = to_lower y) a b)"

definition istarts_with :: "string \<Rightarrow> string \<Rightarrow> bool" where
  "istarts_with s pre \<longleftrightarrow>
     (if length s < length pre then False
      else list_all2 (\<lambda>x y. to_lower x = to_lower y) (take (length pre) s) pre)"

lemma list_all2_to_lower:
  "list_all2 (\<lambda>x y. to_lower x = to_lower y) a b \<longleftrightarrow> map to_lower a = map to_lower b"
  by (simp add: list_all2_conv_all_nth list_eq_iff_nth_eq) auto

lemma iequals_iff: "iequals a b \<longleftrightarrow> map to_lower a = map to_lower b"
  by (auto simp: iequals_def list_all2_to_lower dest: map_eq_imp_length_eq)

lemma iequals_refl [simp, str_simps]: "iequals a a"
  by (simp add: iequals_iff)

lemma iequals_sym: "iequals a b \<longleftrightarrow> iequals b a"
  by (auto simp: iequals_iff)

lemma iequals_trans: "iequals a b \<Longrightarrow> iequals b c \<Longrightarrow> iequals a c"
  by (simp add: iequals_iff)

lemma istarts_with_iff:
  "istarts_with s pre \<longleftrightarrow> prefix (map to_lower pre) (map to_lower s)"
proof
  assume "istarts_with s pre"
  then have "map to_lower (take (length pre) s) = map to_lower pre"
    by (simp add: istarts_with_def list_all2_to_lower split: if_splits)
  then show "prefix (map to_lower pre) (map to_lower s)"
    by (metis take_is_prefix take_map)
next
  assume "prefix (map to_lower pre) (map to_lower s)"
  then obtain r where r: "map to_lower s = map to_lower pre @ r" by (auto elim: prefixE)
  then have len: "length pre \<le> length s"
    by (metis le_add1 length_append length_map)
  have "map to_lower (take (length pre) s) = take (length pre) (map to_lower s)"
    by (simp add: take_map)
  also have "\<dots> = map to_lower pre" using r by simp
  finally show "istarts_with s pre" using len
    by (simp add: istarts_with_def list_all2_to_lower)
qed

lemma istarts_with_append [simp, str_simps]: "istarts_with (p @ s) p"
  by (simp add: istarts_with_iff)

subsection \<open>Searching\<close>

text \<open>
  \<^verbatim>\<open>find\<close> of a substring: the offset of its first occurrence, \<^const>\<open>None\<close> for \<^verbatim>\<open>npos\<close>.
\<close>

fun find_sub :: "'a list \<Rightarrow> 'a list \<Rightarrow> nat option" where
  "find_sub needle [] = (if needle = [] then Some 0 else None)"
| "find_sub needle (x # xs) =
     (if prefix needle (x # xs) then Some 0 else map_option Suc (find_sub needle xs))"

fun find_char :: "'a \<Rightarrow> 'a list \<Rightarrow> nat option" where
  "find_char c [] = None"
| "find_char c (x # xs) = (if x = c then Some 0 else map_option Suc (find_char c xs))"

lemma find_char_None [str_simps]: "find_char c xs = None \<longleftrightarrow> c \<notin> set xs"
  by (induction xs) auto

lemma find_char_Some:
  "find_char c xs = Some i \<longleftrightarrow> i < length xs \<and> xs ! i = c \<and> c \<notin> set (take i xs)"
proof (induction xs arbitrary: i)
  case (Cons x xs)
  show ?case
  proof (cases i)
    case (Suc j)
    then show ?thesis using Cons.IH [of j] by auto
  qed auto
qed simp

lemma find_char_append [simp, str_simps]:
  "c \<notin> set a \<Longrightarrow> find_char c (a @ c # b) = Some (length a)"
  by (induction a) auto

lemma find_sub_Some:
  "find_sub n xs = Some i \<Longrightarrow> i \<le> length xs \<and> prefix n (drop i xs)"
  by (induction xs arbitrary: i) (auto split: if_splits)

lemma find_sub_Some_le: "find_sub n xs = Some i \<Longrightarrow> i + length n \<le> length xs"
  by (drule find_sub_Some) (auto dest: prefix_length_le)

lemma find_sub_None:
  "find_sub n xs = None \<longleftrightarrow> \<not> sublist n xs"
  by (induction xs) (auto simp: sublist_Cons_right)

lemma find_sub_first:
  "find_sub n xs = Some i \<Longrightarrow> j < i \<Longrightarrow> \<not> prefix n (drop j xs)"
proof (induction xs arbitrary: i j)
  case (Cons x xs)
  then show ?case by (cases j) (auto split: if_splits)
qed (simp split: if_splits)

lemma find_sub_skip:
  "\<lbrakk>n \<noteq> []; hd n \<notin> set a\<rbrakk> \<Longrightarrow> find_sub n (a @ b) = map_option ((+) (length a)) (find_sub n b)"
proof (induction a)
  case Nil
  then show ?case by (cases "find_sub n b") auto
next
  case (Cons x a)
  then have "\<not> prefix n (x # a @ b)" by (cases n) auto
  with Cons show ?case by (cases "find_sub n b") auto
qed

lemma find_sub_here: "n \<noteq> [] \<Longrightarrow> find_sub n (n @ b) = Some 0"
  by (cases n) auto

end
