(* ===== verification/Codec.thy ===== *)
theory Codec
  imports Prelude
begin

text \<open>
  The contract of an encoding: decoding what was encoded gives the value back. The base64,
  percent and JSON codecs of the repository are models of it; encodings are stacked when the
  code applies one to the output of another.
\<close>

locale codec =
  fixes enc :: "'a \<Rightarrow> 'b"
    and dec :: "'b \<Rightarrow> 'a option"
    and ok :: "'a \<Rightarrow> bool"
  assumes dec_enc: "ok x \<Longrightarrow> dec (enc x) = Some x"
begin

lemma enc_inj: "ok x \<Longrightarrow> ok y \<Longrightarrow> enc x = enc y \<longleftrightarrow> x = y"
  by (metis dec_enc option.inject)

lemma dec_of_enc: "ok x \<Longrightarrow> enc x = y \<Longrightarrow> dec y = Some x"
  using dec_enc by blast

end

locale codec_stack =
  inner: codec enc1 dec1 ok1 + outer: codec enc2 dec2 ok2
  for enc1 :: "'a \<Rightarrow> 'b" and dec1 :: "'b \<Rightarrow> 'a option" and ok1 :: "'a \<Rightarrow> bool"
    and enc2 :: "'b \<Rightarrow> 'c" and dec2 :: "'c \<Rightarrow> 'b option" and ok2 :: "'b \<Rightarrow> bool" +
  assumes fits: "ok1 x \<Longrightarrow> ok2 (enc1 x)"

sublocale codec_stack \<subseteq> stacked: codec "\<lambda>x. enc2 (enc1 x)" "\<lambda>y. Option.bind (dec2 y) dec1" ok1
  by unfold_locales (simp add: outer.dec_enc inner.dec_enc fits)

end
