(* ===== verification/Common.thy ===== *)
theory Common
  imports Prelude
begin

text \<open>
  \<^verbatim>\<open>core/include/vc/vc_common.h\<close> and \<^verbatim>\<open>core/src/vc_common.cpp\<close>: the error vocabulary
  (\<^verbatim>\<open>ErrorCode\<close>, \<^verbatim>\<open>Error\<close>, \<^verbatim>\<open>Result\<close>, \<^verbatim>\<open>error_str\<close>, \<^verbatim>\<open>error_detail\<close>) and the strict unsigned
  parser \<^verbatim>\<open>parse_uint\<close> over the standard library's \<^verbatim>\<open>std::from_chars\<close>, with decimal
  printing (\<^verbatim>\<open>std::to_string\<close>). \<^verbatim>\<open>Result<T>\<close> is a sum, \<^const>\<open>Inl\<close> the error. The text of an
  OS error code comes from the C library, so it is the parameter \<open>os_text\<close>.
\<close>

subsection \<open>Errors\<close>

datatype error_code =
  Fail | NoMem | InvalidArg | NotFound | Io | Timeout | Closed | Protocol | Tls | Exists
| Unsupported

definition error_code_int :: "error_code \<Rightarrow> int" where
  "error_code_int c =
     (case c of Fail \<Rightarrow> -1 | NoMem \<Rightarrow> -2 | InvalidArg \<Rightarrow> -3 | NotFound \<Rightarrow> -4 | Io \<Rightarrow> -5
      | Timeout \<Rightarrow> -6 | Closed \<Rightarrow> -7 | Protocol \<Rightarrow> -8 | Tls \<Rightarrow> -9 | Exists \<Rightarrow> -10
      | Unsupported \<Rightarrow> -11)"

record error =
  code :: error_code
  os_code :: u32

type_synonym 'a result = "error + 'a"
type_synonym status = "unit result"

definition mk_error :: "error_code \<Rightarrow> error" where
  "mk_error c = \<lparr>code = c, os_code = 0\<rparr>"

abbreviation Err :: "error_code \<Rightarrow> 'a result" where
  "Err c \<equiv> Inl (mk_error c)"

definition error_is :: "error \<Rightarrow> error_code \<Rightarrow> bool" where
  "error_is a b \<longleftrightarrow> code a = b"

lemma error_is_mk_error [simp]: "error_is (mk_error c) d \<longleftrightarrow> c = d"
  by (simp add: error_is_def mk_error_def)

lemma code_mk_error [simp]: "code (mk_error c) = c"
  by (simp add: mk_error_def)

lemma mk_error_eq [simp]: "mk_error c = mk_error d \<longleftrightarrow> c = d"
  by (auto simp: mk_error_def)

definition error_str :: "error \<Rightarrow> string" where
  "error_str e =
     (case code e of
        Fail \<Rightarrow> ''failure''
      | NoMem \<Rightarrow> ''out of memory''
      | InvalidArg \<Rightarrow> ''invalid argument''
      | NotFound \<Rightarrow> ''not found''
      | Io \<Rightarrow> ''I/O error''
      | Timeout \<Rightarrow> ''timeout''
      | Closed \<Rightarrow> ''closed''
      | Protocol \<Rightarrow> ''protocol error''
      | Tls \<Rightarrow> ''TLS error''
      | Exists \<Rightarrow> ''already exists''
      | Unsupported \<Rightarrow> ''unsupported'')"

definition error_detail :: "(u32 \<Rightarrow> string) \<Rightarrow> error \<Rightarrow> string" where
  "error_detail os_text e =
     (let out = error_str e
      in if os_code e = 0 then out
         else (let os = os_text (os_code e)
               in if os = [] then out else out @ '' ('' @ os @ '')''))"

lemma error_code_int_neg: "error_code_int c < 0"
  by (cases c) (simp_all add: error_code_int_def)

lemma error_code_int_inj: "error_code_int c = error_code_int d \<longleftrightarrow> c = d"
  by (cases c; cases d) (simp_all add: error_code_int_def)

lemma error_str_inj: "error_str a = error_str b \<longleftrightarrow> code a = code b"
  by (cases "code a"; cases "code b") (simp_all add: error_str_def)

lemma error_detail_prefix: "prefix (error_str e) (error_detail f e)"
  by (simp add: error_detail_def Let_def)

subsection \<open>Decimal printing\<close>

definition digit_char :: "nat \<Rightarrow> char" where
  "digit_char d = char_of (48 + d)"

fun to_string :: "nat \<Rightarrow> string" where
  "to_string n = (if n < 10 then [digit_char n]
                  else to_string (n div 10) @ [digit_char (n mod 10)])"

declare to_string.simps [simp del]

definition int_to_string :: "int \<Rightarrow> string" where
  "int_to_string i = (if i < 0 then ''-'' @ to_string (nat (- i)) else to_string (nat i))"

subsection \<open>Parsing unsigned integers\<close>

definition digit_val :: "nat \<Rightarrow> char \<Rightarrow> nat option" where
  "digit_val base c =
     (let d = (if is_digit c then ord c - 48
               else if is_lower c then ord c - 87
               else if is_upper c then ord c - 55
               else 36)
      in if d < base then Some d else None)"

definition digit_in :: "nat \<Rightarrow> char \<Rightarrow> bool" where
  "digit_in base c \<longleftrightarrow> digit_val base c \<noteq> None"

definition num_of :: "nat \<Rightarrow> string \<Rightarrow> nat" where
  "num_of base s = foldl (\<lambda>v c. v * base + the (digit_val base c)) 0 s"

text \<open>
  \<^verbatim>\<open>std::from_chars\<close> for \<^verbatim>\<open>std::uint64_t\<close>: it takes the longest run of digits of the base;
  no digit is \<^verbatim>\<open>invalid_argument\<close>, a value above 64 bits \<^verbatim>\<open>result_out_of_range\<close>; the rest of
  the input is what \<^verbatim>\<open>r.ptr\<close> points at.
\<close>

datatype from_chars_result = InvalidArgument | ResultOutOfRange | Parsed nat string

definition from_chars :: "nat \<Rightarrow> string \<Rightarrow> from_chars_result" where
  "from_chars base s =
     (let ds = takeWhile (digit_in base) s;
          v = num_of base ds
      in if ds = [] then InvalidArgument
         else if v < 2 ^ 64 then Parsed v (drop (length ds) s)
         else ResultOutOfRange)"

definition parse_uint :: "string \<Rightarrow> nat \<Rightarrow> nat \<Rightarrow> nat option" where
  "parse_uint text mx base =
     (if text = [] then None
      else if hd text = CHR ''-'' \<or> hd text = CHR ''+'' then None
      else case from_chars base text of
             InvalidArgument \<Rightarrow> None
           | ResultOutOfRange \<Rightarrow> None
           | Parsed v rest \<Rightarrow>
               if rest \<noteq> [] then None
               else if v > mx then None
               else Some v)"

lemma num_of_Nil [simp]: "num_of base [] = 0"
  by (simp add: num_of_def)

lemma num_of_snoc [simp]:
  "num_of base (s @ [c]) = num_of base s * base + the (digit_val base c)"
  by (simp add: num_of_def)

lemma sign_no_digit [simp]:
  "digit_val base CHR ''-'' = Some d \<longleftrightarrow> 36 < base \<and> d = 36"
  "digit_val base CHR ''+'' = Some d \<longleftrightarrow> 36 < base \<and> d = 36"
  by (auto simp: digit_val_def is_digit_def is_lower_def is_upper_def in_range_def)

lemma takeWhile_all_length:
  "drop (length (takeWhile P s)) s = [] \<longleftrightarrow> (\<forall>c \<in> set s. P c)"
  by (induction s) auto

lemma parse_uint_iff:
  assumes "base \<le> 36"
  shows "parse_uint s mx base = Some v \<longleftrightarrow>
     s \<noteq> [] \<and> (\<forall>c \<in> set s. digit_in base c) \<and> v = num_of base s \<and> v \<le> mx
     \<and> v < 2 ^ 64"
proof (cases "\<forall>c \<in> set s. digit_in base c")
  case True
  then have tw: "takeWhile (digit_in base) s = s"
    by (simp add: takeWhile_eq_all_conv)
  have sign: "hd s \<noteq> CHR ''-'' \<and> hd s \<noteq> CHR ''+''" if "s \<noteq> []"
  proof -
    have "digit_in base (hd s)" using True that by auto
    then show ?thesis using assms by (auto simp: digit_in_def)
  qed
  show ?thesis
    using True sign by (auto simp: parse_uint_def from_chars_def tw Let_def)
next
  case False
  then have "drop (length (takeWhile (digit_in base) s)) s \<noteq> []"
    using takeWhile_all_length [of "digit_in base" s] by blast
  then have "parse_uint s mx base = None"
    by (auto simp: parse_uint_def from_chars_def Let_def)
  with False show ?thesis by auto
qed

lemma parse_uint_le: "parse_uint s mx base = Some v \<Longrightarrow> v \<le> mx"
  by (auto simp: parse_uint_def split: if_splits from_chars_result.splits)

lemma ord_digit_char: "d < 10 \<Longrightarrow> ord (digit_char d) = 48 + d"
  by (simp add: digit_char_def)

lemma digit_val_digit_char [simp]: "d < 10 \<Longrightarrow> digit_val 10 (digit_char d) = Some d"
  using ord_digit_char [of d] by (simp add: digit_val_def is_digit_def in_range_def)

lemma is_digit_digit_char [simp]: "d < 10 \<Longrightarrow> is_digit (digit_char d)"
  using ord_digit_char [of d] by (simp add: is_digit_def in_range_def)

lemma is_digit_digit_val: "is_digit c \<longleftrightarrow> digit_in 10 c"
  by (auto simp: digit_in_def digit_val_def is_digit_def is_lower_def is_upper_def in_range_def Let_def)

lemma to_string_nonempty [simp]: "to_string n \<noteq> []"
  by (subst to_string.simps) simp

lemma to_string_digits: "c \<in> set (to_string n) \<Longrightarrow> is_digit c"
proof (induction n rule: to_string.induct)
  case (1 n)
  then show ?case by (subst (asm) to_string.simps) (auto split: if_splits)
qed

lemma num_of_to_string [simp]: "num_of 10 (to_string n) = n"
proof (induction n rule: to_string.induct)
  case (1 n)
  show ?case
  proof (cases "n < 10")
    case True
    then show ?thesis
      by (subst to_string.simps) (simp add: num_of_def)
  next
    case False
    with "1.IH" show ?thesis by (subst to_string.simps) simp
  qed
qed

lemma to_string_inj: "to_string m = to_string n \<longleftrightarrow> m = n"
  by (metis num_of_to_string)

lemma parse_uint_to_string:
  "n < 2 ^ 64 \<Longrightarrow> parse_uint (to_string n) mx 10 = (if n \<le> mx then Some n else None)"
proof (cases "n \<le> mx")
  case True
  assume "n < 2 ^ 64"
  with True show ?thesis
    using to_string_digits [of _ n]
    by (auto simp: parse_uint_iff is_digit_digit_val [symmetric])
next
  case False
  have "parse_uint (to_string n) mx 10 \<noteq> Some v" for v
    using False by (auto simp: parse_uint_iff)
  with False show ?thesis by auto
qed

subsection \<open>Properties\<close>

text \<open>
  \<^verbatim>\<open>parse_uint\<close> accepts exactly the nonempty digit strings of the base whose value fits both
  the caller's bound and 64 bits, and returns that value: no sign, no blanks, no trailing text,
  no wrap-around.
\<close>

theorem parse_uint_exact:
  assumes "base \<le> 36"
  shows "parse_uint s mx base = Some v \<longleftrightarrow>
     s \<noteq> [] \<and> (\<forall>c \<in> set s. digit_in base c) \<and> v = num_of base s \<and> v \<le> mx \<and> v < 2 ^ 64"
  using assms by (rule parse_uint_iff)

lemma parse_uint_exact_witness: "parse_uint ''2147483648'' 0x7FFFFFFF 10 \<noteq> Some 2147483648"
  using parse_uint_exact [of 10 "''2147483648''" "0x7FFFFFFF" 2147483648] by simp

end
