(* ===== verification/Base64.thy ===== *)
theory Base64
  imports Codec
begin

text \<open>
  \<^verbatim>\<open>core/src/vc_base64.cpp\<close>: RFC 4648 encoding and the tolerant decoder. The encoder's loop
  over three-byte groups is the recursion of \<open>base64_encode\<close>; the decoder's loop
  variables \<^verbatim>\<open>acc\<close> (32 bits, never masked, so old bits are shifted out), \<^verbatim>\<open>bits\<close> and \<^verbatim>\<open>done\<close>
  are the arguments of \<open>b64_loop\<close>.
\<close>

subsection \<open>Alphabet\<close>

definition kTab :: string where
  "kTab = ''ABCDEFGHIJKLMNOPQRSTUVWXYZabcdefghijklmnopqrstuvwxyz0123456789+/''"

definition b64_val :: "char \<Rightarrow> int" where
  "b64_val c =
     (if in_range CHR ''A'' CHR ''Z'' c then int (ord c) - int (ord CHR ''A'')
      else if in_range CHR ''a'' CHR ''z'' c then int (ord c) - int (ord CHR ''a'') + 26
      else if in_range CHR ''0'' CHR ''9'' c then int (ord c) - int (ord CHR ''0'') + 52
      else if c = CHR ''+'' then 62
      else if c = CHR ''/'' then 63
      else -1)"

definition tab_char :: "u32 \<Rightarrow> char" where
  "tab_char v = kTab ! unat (v AND 63)"

subsection \<open>Encoder\<close>

definition group_word :: "u8 \<Rightarrow> u8 \<Rightarrow> u8 \<Rightarrow> u32" where
  "group_word a b c = (push_bit 16 (ucast a) OR push_bit 8 (ucast b)) OR ucast c"

fun base64_encode :: "bytes \<Rightarrow> string" where
  "base64_encode (a # b # c # rest) =
     (let v = group_word a b c
      in tab_char (drop_bit 18 v) # tab_char (drop_bit 12 v) # tab_char (drop_bit 6 v)
         # tab_char v # base64_encode rest)"
| "base64_encode [a] =
     (let v = push_bit 16 (ucast a)
      in [tab_char (drop_bit 18 v), tab_char (drop_bit 12 v), CHR ''='', CHR ''=''])"
| "base64_encode [a, b] =
     (let v = push_bit 16 (ucast a) OR push_bit 8 (ucast b)
      in [tab_char (drop_bit 18 v), tab_char (drop_bit 12 v), tab_char (drop_bit 6 v),
          CHR ''=''])"
| "base64_encode [] = []"

subsection \<open>Decoder\<close>

definition b64_skip :: "char \<Rightarrow> bool" where
  "b64_skip c \<longleftrightarrow> c = CHR '' '' \<or> c = CHR 0x09 \<or> c = CHR 0x0D \<or> c = CHR 0x0A"

definition shift_in :: "u32 \<Rightarrow> u32 \<Rightarrow> u32" where
  "shift_in acc v = push_bit 6 acc OR v"

definition out_byte :: "u32 \<Rightarrow> nat \<Rightarrow> u8" where
  "out_byte acc bits = ucast (drop_bit bits acc)"

fun b64_loop :: "u32 \<Rightarrow> nat \<Rightarrow> bool \<Rightarrow> bytes \<Rightarrow> string \<Rightarrow> bytes option" where
  "b64_loop acc bits finished out [] = (if bits = 6 then None else Some out)"
| "b64_loop acc bits finished out (c # cs) =
     (if b64_skip c then b64_loop acc bits finished out cs
      else if c = CHR ''='' then b64_loop acc bits True out cs
      else if finished then None
      else (let v = b64_val c
            in if v < 0 then None
               else (let acc' = shift_in acc (word_of_int v);
                         bits' = bits + 6
                     in if bits' \<ge> 8
                        then b64_loop acc' (bits' - 8) finished
                               (out @ [out_byte acc' (bits' - 8)]) cs
                        else b64_loop acc' bits' finished out cs)))"

definition base64_decode :: "string \<Rightarrow> bytes option" where
  "base64_decode text = b64_loop 0 0 False [] text"

subsection \<open>The alphabet is a bijection with the six-bit values\<close>

lemma kTab_values:
  "list_all (\<lambda>i. b64_val (kTab ! i) = int i \<and> \<not> b64_skip (kTab ! i) \<and> kTab ! i \<noteq> CHR ''='')
     [0..<64]"
  by code_simp

lemma unat_and_63: "unat (v AND (63 :: u32)) < 64"
proof -
  have "v AND 63 \<le> (63 :: u32)" by (rule word_and_le1)
  then have "unat (v AND 63) \<le> unat (63 :: u32)" by (simp add: word_le_nat_alt)
  then show ?thesis by simp
qed

lemma tab_char_simps [simp]:
  "b64_val (tab_char v) = int (unat (v AND 63))"
  "\<not> b64_skip (tab_char v)"
  "tab_char v \<noteq> CHR ''=''"
  using kTab_values unat_and_63 [of v] by (auto simp: tab_char_def list_all_iff)

lemma b64_loop_tab:
  "b64_loop acc bits False out (tab_char v # cs) =
     (let acc' = shift_in acc (v AND 63)
      in if bits + 6 \<ge> 8
         then b64_loop acc' (bits - 2) False (out @ [out_byte acc' (bits - 2)]) cs
         else b64_loop acc' (bits + 6) False out cs)"
  by (simp add: Let_def)

lemma bit_63: "bit (63::u32) n \<longleftrightarrow> n < 6"
proof -
  have "bit (mask 6 :: u32) n \<longleftrightarrow> n < 6" by (subst bit_mask_iff) auto
  then show ?thesis by (simp add: mask_eq_exp_minus_1)
qed
lemma bit_shift_in: "bit (shift_in acc (v AND 63)) n \<longleftrightarrow> n < 32 \<and> (if n < 6 then bit v n else bit acc (n - 6))"
  by (auto simp: shift_in_def bit_simps bit_63 simp del: bit_numeral_word_iff dest: bit_imp_le_length)
lemma bit_out_byte: "bit (out_byte acc k) n \<longleftrightarrow> n < 8 \<and> bit acc (n + k)"
  by (auto simp: out_byte_def bit_simps add.commute)
lemma bit_group_word: "bit (group_word a b c) n \<longleftrightarrow> n < 24 \<and> (if n < 8 then bit c n else if n < 16 then bit b (n - 8) else bit a (n - 16))"
  by (auto simp: group_word_def bit_simps dest: bit_imp_le_length)
lemma group_bits:
  fixes a b c :: u8 and acc v :: u32
  defines "v \<equiv> group_word a b c"
  shows "out_byte (shift_in (shift_in acc (drop_bit 18 v AND 63)) (drop_bit 12 v AND 63)) 4 = a"
    and "out_byte (shift_in (shift_in acc (drop_bit 12 v AND 63)) (drop_bit 6 v AND 63)) 2 = b"
    and "out_byte (shift_in (shift_in acc (drop_bit 6 v AND 63)) (v AND 63)) 0 = c"
  unfolding v_def
  by (rule bit_word_eqI; auto simp: bit_out_byte bit_shift_in bit_group_word bit_drop_bit_eq)+

lemma tail_bits:
  fixes a b :: u8 and acc :: u32
  shows "group_word a b 0 = push_bit 16 (ucast a) OR push_bit 8 (ucast b)"
    and "group_word a 0 0 = push_bit 16 (ucast a)"
  by (simp_all add: group_word_def)

lemma b64_loop_encode: "b64_loop acc 0 False out (base64_encode bs) = Some (out @ bs)"
proof (induction bs arbitrary: acc out rule: base64_encode.induct)
  case (1 a b c rest)
  show ?case
    by (simp add: Let_def b64_loop_tab group_bits "1.IH" del: b64_loop.simps(2))
next
  case (2 a)
  show ?case
    by (simp add: Let_def tail_bits(2) [symmetric] group_bits b64_loop_tab
        del: b64_loop.simps(2)) (simp add: b64_skip_def)
next
  case (3 a b)
  show ?case
    by (simp add: Let_def tail_bits(1) [symmetric] group_bits b64_loop_tab
        del: b64_loop.simps(2)) (simp add: b64_skip_def)
qed simp

lemma b64_decode_encode: "base64_decode (base64_encode bs) = Some bs"
  by (simp add: base64_decode_def b64_loop_encode)

interpretation b64: codec base64_encode base64_decode "\<lambda>_. True"
  by unfold_locales (rule b64_decode_encode)

subsection \<open>What the decoder accepts\<close>

lemma length_base64_encode: "length (base64_encode bs) = 4 * ((length bs + 2) div 3)"
proof (induction bs rule: base64_encode.induct)
  case (1 a b c rest)
  have "(length (a # b # c # rest) + 2) div 3 = Suc ((length rest + 2) div 3)" by simp
  with "1.IH" show ?case by (simp add: Let_def del: length_Cons)
qed (simp_all add: Let_def)

definition b64_wf :: "nat \<Rightarrow> bool \<Rightarrow> string \<Rightarrow> bool" where
  "b64_wf bits finished s \<longleftrightarrow>
     (let t = filter (\<lambda>c. \<not> b64_skip c) s;
          d = takeWhile (\<lambda>c. c \<noteq> CHR ''='') t
      in (finished \<longrightarrow> d = []) \<and> (\<forall>c \<in> set d. 0 \<le> b64_val c)
         \<and> (\<forall>c \<in> set (drop (length d) t). c = CHR ''='')
         \<and> (bits + 6 * length d) mod 8 \<noteq> 6)"

lemma not_skip_pad [simp]: "\<not> b64_skip CHR ''=''"
  by (simp add: b64_skip_def)

lemma b64_wf_Cons:
  "b64_wf bits finished (c # cs) \<longleftrightarrow>
     (if b64_skip c then b64_wf bits finished cs
      else if c = CHR ''='' then (\<forall>c \<in> set cs. b64_skip c \<or> c = CHR ''='') \<and> bits mod 8 \<noteq> 6
      else \<not> finished \<and> 0 \<le> b64_val c \<and> b64_wf (bits + 6) finished cs)"
  by (auto simp: b64_wf_def Let_def algebra_simps)

lemma b64_wf_finished:
  "b64_wf bits True s \<longleftrightarrow> (\<forall>c \<in> set s. b64_skip c \<or> c = CHR ''='') \<and> bits mod 8 \<noteq> 6"
  by (induction s) (auto simp: b64_wf_Cons, auto simp: b64_wf_def)

lemma b64_wf_mod: "b64_wf (bits - 8) fin s \<longleftrightarrow> b64_wf bits fin s" if "8 \<le> bits"
proof -
  have "(bits - 8 + 6 * n) mod 8 = (bits + 6 * n) mod 8" for n
  proof -
    have "bits + 6 * n = (bits - 8 + 6 * n) + 8" using that by simp
    then show ?thesis by (metis mod_add_self2)
  qed
  then show ?thesis by (simp add: b64_wf_def)
qed

lemma b64_loop_accepts:
  "bits < 8 \<Longrightarrow> b64_loop acc bits fin out s \<noteq> None \<longleftrightarrow> b64_wf bits fin s"
proof (induction s arbitrary: acc bits fin out)
  case Nil
  then show ?case by (auto simp: b64_wf_def)
next
  case (Cons c cs)
  have pad: "b64_loop acc bits True out cs \<noteq> None
          \<longleftrightarrow> (\<forall>c \<in> set cs. b64_skip c \<or> c = CHR ''='') \<and> bits mod 8 \<noteq> 6"
    using Cons.IH [OF Cons.prems] by (simp add: b64_wf_finished)
  have val: "b64_loop acc bits fin out (c # cs) \<noteq> None
          \<longleftrightarrow> \<not> fin \<and> 0 \<le> b64_val c \<and> b64_wf (bits + 6) fin cs"
    if "\<not> b64_skip c" "c \<noteq> CHR ''=''"
  proof (cases "8 \<le> bits + 6")
    case True
    then show ?thesis
      using that Cons.prems Cons.IH [of "bits - 2"] b64_wf_mod [OF True, of fin cs]
      by (cases fin) (auto simp: Let_def)
  next
    case False
    then show ?thesis
      using that Cons.prems Cons.IH [of "bits + 6"] by (cases fin) (auto simp: Let_def)
  qed
  show ?case
    using pad val Cons.IH [OF Cons.prems] by (cases "b64_skip c"; cases "c = CHR ''=''")
      (simp_all add: b64_wf_Cons)
qed

abbreviation b64_data :: "string \<Rightarrow> string" where
  "b64_data s \<equiv> takeWhile (\<lambda>c. c \<noteq> CHR ''='') (filter (\<lambda>c. \<not> b64_skip c) s)"

lemma b64_loop_length:
  "b64_loop acc bits fin out s = Some r \<Longrightarrow> bits < 8 \<Longrightarrow>
     length r = length out + (bits + 6 * length (b64_data s)) div 8"
proof (induction s arbitrary: acc bits fin out)
  case Nil
  then show ?case by (simp split: if_splits)
next
  case (Cons c cs)
  show ?case
  proof (cases "b64_skip c \<or> c = CHR ''=''")
    case True
    have "b64_data cs = []" if "b64_loop acc bits True out cs = Some r"
      using b64_loop_accepts [of bits acc True out cs] Cons.prems that
      by (simp add: b64_wf_def Let_def)
    with True Cons show ?thesis by (fastforce split: if_splits)
  next
    case False
    with Cons.prems have nf: "\<not> fin" "\<not> b64_val c < 0" by (auto simp: Let_def split: if_splits)
    let ?acc = "shift_in acc (word_of_int (b64_val c))"
    show ?thesis
    proof (cases "8 \<le> bits + 6")
      case True
      with False nf Cons.prems
      have *: "b64_loop ?acc (bits - 2) fin (out @ [out_byte ?acc (bits - 2)]) cs = Some r"
        by (simp add: Let_def)
      have "length r = Suc (length out) + (bits - 2 + 6 * length (b64_data cs)) div 8"
        using Cons.IH [OF *] Cons.prems by simp
      also have "\<dots> = length out + (bits + 6 * Suc (length (b64_data cs))) div 8"
      proof -
        have "bits + 6 * Suc (length (b64_data cs)) = (bits - 2 + 6 * length (b64_data cs)) + 8"
          using True by simp
        then show ?thesis by simp
      qed
      finally show ?thesis using False by simp
    next
      case small: False
      with False nf Cons.prems have *: "b64_loop ?acc (bits + 6) fin out cs = Some r"
        by (simp add: Let_def)
      show ?thesis using Cons.IH [OF *] small False by (simp add: algebra_simps)
    qed
  qed
qed

subsection \<open>Properties\<close>

text \<open>
  Decoding the base64 text of any byte string returns that byte string, so the adapter
  hands back exactly the bytes of a file whatever its length modulo three.
\<close>

theorem base64_roundtrip: "base64_decode (base64_encode bs) = Some bs"
  by (rule b64.dec_enc) simp

text \<open>
  The tolerant decoder accepts exactly the texts that \<^const>\<open>b64_wf\<close> describes: line
  breaks and blanks anywhere, only alphabet characters before the first padding character, only
  padding after it, and no lone sextet left over.
\<close>

theorem base64_accepts: "base64_decode s \<noteq> None \<longleftrightarrow> b64_wf 0 False s"
  unfolding base64_decode_def by (rule b64_loop_accepts) simp

end
