(* ===== verification/Sha256.thy ===== *)
theory Sha256
  imports Prelude
begin

text \<open>
  \<^verbatim>\<open>core/src/vc_sha256.cpp\<close>: the incremental SHA-256 hasher (\<^verbatim>\<open>Sha256::block\<close>, \<^verbatim>\<open>reset\<close>,
  \<^verbatim>\<open>update\<close>, \<^verbatim>\<open>finish\<close>) on the class's own fields, and \<^verbatim>\<open>hmac_sha256\<close>. The class keeps a
  64-byte buffer of which only the first \<^verbatim>\<open>buflen_\<close> bytes are meaningful; \<^verbatim>\<open>reset\<close> leaves the
  rest as it was, so a fresh hasher holds indeterminate bytes, the parameter \<open>junk\<close> here.
  The specification \<open>sha256_spec\<close> pads the whole message and folds the compression
  function over its blocks, with no buffer; the refinement is the invariant \<open>absorbed\<close>.
\<close>

subsection \<open>The compression function\<close>

definition sha_K :: "u32 list" where
  "sha_K = [
    0x428A2F98, 0x71374491, 0xB5C0FBCF, 0xE9B5DBA5, 0x3956C25B, 0x59F111F1, 0x923F82A4,
    0xAB1C5ED5, 0xD807AA98, 0x12835B01, 0x243185BE, 0x550C7DC3, 0x72BE5D74, 0x80DEB1FE,
    0x9BDC06A7, 0xC19BF174, 0xE49B69C1, 0xEFBE4786, 0x0FC19DC6, 0x240CA1CC, 0x2DE92C6F,
    0x4A7484AA, 0x5CB0A9DC, 0x76F988DA, 0x983E5152, 0xA831C66D, 0xB00327C8, 0xBF597FC7,
    0xC6E00BF3, 0xD5A79147, 0x06CA6351, 0x14292967, 0x27B70A85, 0x2E1B2138, 0x4D2C6DFC,
    0x53380D13, 0x650A7354, 0x766A0ABB, 0x81C2C92E, 0x92722C85, 0xA2BFE8A1, 0xA81A664B,
    0xC24B8B70, 0xC76C51A3, 0xD192E819, 0xD6990624, 0xF40E3585, 0x106AA070, 0x19A4C116,
    0x1E376C08, 0x2748774C, 0x34B0BCB5, 0x391C0CB3, 0x4ED8AA4A, 0x5B9CCA4F, 0x682E6FF3,
    0x748F82EE, 0x78A5636F, 0x84C87814, 0x8CC70208, 0x90BEFFFA, 0xA4506CEB, 0xBEF9A3F7,
    0xC67178F2]"

definition rotr :: "u32 \<Rightarrow> nat \<Rightarrow> u32" where
  "rotr x n = drop_bit n x OR push_bit (32 - n) x"

definition load_be :: "bytes \<Rightarrow> nat \<Rightarrow> u32" where
  "load_be p i =
     ((push_bit 24 (ucast (p ! (i * 4))) OR push_bit 16 (ucast (p ! (i * 4 + 1))))
      OR push_bit 8 (ucast (p ! (i * 4 + 2)))) OR ucast (p ! (i * 4 + 3))"

definition schedule_step :: "nat \<Rightarrow> u32 list \<Rightarrow> u32 list" where
  "schedule_step i w =
     (let s0 = rotr (w ! (i - 15)) 7 XOR rotr (w ! (i - 15)) 18 XOR drop_bit 3 (w ! (i - 15));
          s1 = rotr (w ! (i - 2)) 17 XOR rotr (w ! (i - 2)) 19 XOR drop_bit 10 (w ! (i - 2))
      in w @ [w ! (i - 16) + s0 + w ! (i - 7) + s1])"

definition schedule :: "bytes \<Rightarrow> u32 list" where
  "schedule p = fold schedule_step [16..<64] (map (load_be p) [0..<16])"

type_synonym regs = "u32 \<times> u32 \<times> u32 \<times> u32 \<times> u32 \<times> u32 \<times> u32 \<times> u32"

definition round_step :: "u32 list \<Rightarrow> nat \<Rightarrow> regs \<Rightarrow> regs" where
  "round_step w i =
     (\<lambda>(a, b, c, d, e, f, g, h).
        let S1 = rotr e 6 XOR rotr e 11 XOR rotr e 25;
            ch = (e AND f) XOR (NOT e AND g);
            t1 = h + S1 + ch + sha_K ! i + w ! i;
            S0 = rotr a 2 XOR rotr a 13 XOR rotr a 22;
            mj = (a AND b) XOR (a AND c) XOR (b AND c);
            t2 = S0 + mj
        in (t1 + t2, a, b, c, d + t1, e, f, g))"

definition compress :: "u32 list \<Rightarrow> bytes \<Rightarrow> u32 list" where
  "compress st p =
     (let w = schedule p;
          (a, b, c, d, e, f, g, h) =
            fold (round_step w) [0..<64]
              (st ! 0, st ! 1, st ! 2, st ! 3, st ! 4, st ! 5, st ! 6, st ! 7)
      in [st ! 0 + a, st ! 1 + b, st ! 2 + c, st ! 3 + d,
          st ! 4 + e, st ! 5 + f, st ! 6 + g, st ! 7 + h])"

subsection \<open>The hasher\<close>

record sha256 =
  sha_state :: "u32 list"
  bitlen :: u64
  buffer :: bytes
  buflen :: nat

definition sha_init_state :: "u32 list" where
  "sha_init_state =
     [0x6a09e667, 0xbb67ae85, 0x3c6ef372, 0xa54ff53a, 0x510e527f, 0x9b05688c, 0x1f83d9ab,
      0x5be0cd19]"

definition sha_reset :: "sha256 \<Rightarrow> sha256" where
  "sha_reset c = c\<lparr>sha_state := sha_init_state, bitlen := 0, buflen := 0\<rparr>"

definition sha_new :: "bytes \<Rightarrow> sha256" where
  "sha_new junk = sha_reset \<lparr>sha_state = [], bitlen = 0, buffer = junk, buflen = 0\<rparr>"

definition sha_block :: "sha256 \<Rightarrow> sha256" where
  "sha_block c = c\<lparr>sha_state := compress (sha_state c) (buffer c)\<rparr>"

definition memcpy_at :: "bytes \<Rightarrow> nat \<Rightarrow> bytes \<Rightarrow> bytes" where
  "memcpy_at dst off src = take off dst @ src @ drop (off + length src) dst"

text \<open>
  One iteration of \<^verbatim>\<open>update\<close>'s loop. \<^verbatim>\<open>64 - buflen_\<close> is unsigned: were \<^verbatim>\<open>buflen_\<close> above 64
  it would wrap to a huge number and \<^verbatim>\<open>take\<close> would be all of the input.
\<close>

definition take_len :: "sha256 \<Rightarrow> bytes \<Rightarrow> nat" where
  "take_len c data =
     (if buflen c \<le> 64 then min (64 - buflen c) (length data) else length data)"

definition absorb :: "sha256 \<Rightarrow> bytes \<Rightarrow> sha256" where
  "absorb c data =
     (let n = take_len c data;
          c' = c\<lparr>buffer := memcpy_at (buffer c) (buflen c) (take n data),
                 buflen := buflen c + n\<rparr>
      in if buflen c' = 64 then (sha_block c')\<lparr>buflen := 0\<rparr> else c')"

function update_loop :: "sha256 \<Rightarrow> bytes \<Rightarrow> sha256" where
  "update_loop c data =
     (if data = [] then c else update_loop (absorb c data) (drop (take_len c data) data))"
  by pat_completeness auto
termination
  by (relation "measure (\<lambda>(c, data). 2 * length data + (if buflen c \<ge> 64 then 1 else 0))")
     (auto simp: take_len_def absorb_def Let_def sha_block_def min_def)

declare update_loop.simps [simp del]

definition sha_update :: "sha256 \<Rightarrow> bytes \<Rightarrow> sha256" where
  "sha_update c data =
     update_loop (c\<lparr>bitlen := bitlen c + word_of_nat (length data) * 8\<rparr>) data"

text \<open>
  \<^verbatim>\<open>finish\<close> adds the padding byte by byte through \<^verbatim>\<open>update\<close> and takes each one off the
  count again. The loop runs until \<^verbatim>\<open>buflen_\<close> is 56; it would not stop with \<^verbatim>\<open>buflen_\<close>
  above 64, where the model stops it: \<^verbatim>\<open>buflen_ < 64\<close> is invariant (\<open>absorbed\<close> below).
\<close>

definition put_pad :: "sha256 \<Rightarrow> u8 \<Rightarrow> sha256" where
  "put_pad c b = (let c' = sha_update c [b] in c'\<lparr>bitlen := bitlen c' - 8\<rparr>)"

lemma buflen_put_pad:
  "buflen c < 64 \<Longrightarrow> buflen (put_pad c b) = (buflen c + 1) mod 64"
  by (simp add: put_pad_def sha_update_def update_loop.simps absorb_def take_len_def Let_def
      sha_block_def)

lemma pad_count:
  fixes b :: nat
  assumes "b < 64"
  shows "(120 - b) mod 64 = (if b \<le> 56 then 56 - b else 120 - b)"
proof (cases "b \<le> 56")
  case True
  then have "120 - b = 64 + (56 - b)" by simp
  then have "(120 - b) mod 64 = (56 - b) mod 64" by (metis mod_add_self1)
  with True show ?thesis by simp
qed (use assms in simp)

lemma pad_count_Suc:
  fixes b :: nat
  assumes "b < 64" and "b \<noteq> 56"
  shows "(120 - b) mod 64 = Suc ((120 - (b + 1) mod 64) mod 64)"
proof (cases "b = 63")
  case False
  with assms show ?thesis using pad_count [of b] pad_count [of "b + 1"] by auto
qed simp

function pad_loop :: "sha256 \<Rightarrow> sha256" where
  "pad_loop c = (if buflen c = 56 \<or> 64 \<le> buflen c then c else pad_loop (put_pad c 0))"
  by pat_completeness auto
termination
proof (relation "measure (\<lambda>c. (120 - buflen c) mod 64)")
  fix c :: sha256
  assume "\<not> (buflen c = 56 \<or> 64 \<le> buflen c)"
  then have b: "buflen c < 64" "buflen c \<noteq> 56" by auto
  then have "(120 - (buflen c + 1) mod 64) mod 64 < (120 - buflen c) mod 64"
    by (simp add: pad_count_Suc)
  then show "(put_pad c 0, c) \<in> measure (\<lambda>c. (120 - buflen c) mod 64)"
    using b by (simp add: buflen_put_pad)
qed simp

declare pad_loop.simps [simp del]

definition be64 :: "u64 \<Rightarrow> bytes" where
  "be64 v = map (\<lambda>i. ucast (drop_bit (56 - i * 8) v)) [0..<8]"

definition be32 :: "u32 \<Rightarrow> bytes" where
  "be32 v = [ucast (drop_bit 24 v), ucast (drop_bit 16 v), ucast (drop_bit 8 v), ucast v]"

definition sha_finish :: "sha256 \<Rightarrow> bytes" where
  "sha_finish c =
     (let total = bitlen c;
          c1 = put_pad c 0x80;
          c2 = pad_loop c1;
          c3 = sha_update c2 (be64 total)
      in concat (map (\<lambda>i. be32 (sha_state c3 ! i)) [0..<8]))"

definition sha256_hash :: "bytes \<Rightarrow> bytes \<Rightarrow> bytes" where
  "sha256_hash junk data = sha_finish (sha_update (sha_new junk) data)"

definition hmac_sha256 :: "bytes \<Rightarrow> bytes \<Rightarrow> bytes \<Rightarrow> bytes" where
  "hmac_sha256 junk key msg =
     (let zero = replicate 64 0;
          kblock = (if length key > 64
                    then (let kh = sha256_hash junk key in memcpy_at zero 0 kh)
                    else memcpy_at zero 0 key);
          ipad = map (\<lambda>i. kblock ! i XOR 0x36) [0..<64];
          opad = map (\<lambda>i. kblock ! i XOR 0x5c) [0..<64];
          inner = sha_update (sha_update (sha_new junk) ipad) msg;
          inner_digest = sha_finish inner;
          outer = sha_update (sha_update (sha_new junk) opad) inner_digest
      in sha_finish outer)"

subsection \<open>Specification: pad, then fold the compression over the blocks\<close>

function hash_blocks :: "u32 list \<Rightarrow> bytes \<Rightarrow> u32 list" where
  "hash_blocks st m =
     (if length m < 64 then st else hash_blocks (compress st (take 64 m)) (drop 64 m))"
  by pat_completeness auto
termination
  by (relation "measure (\<lambda>(st, m). length m)") auto

declare hash_blocks.simps [simp del]

definition sha_pad :: "bytes \<Rightarrow> bytes" where
  "sha_pad m =
     m @ [0x80] @ replicate ((120 - (length m + 1) mod 64) mod 64) 0
       @ be64 (word_of_nat (8 * length m))"

definition sha256_spec :: "bytes \<Rightarrow> bytes" where
  "sha256_spec m = concat (map be32 (hash_blocks sha_init_state (sha_pad m)))"

definition hmac_spec :: "bytes \<Rightarrow> bytes \<Rightarrow> bytes" where
  "hmac_spec key msg =
     (let k = (if length key > 64 then sha256_spec key else key);
          k0 = k @ replicate (64 - length k) 0
      in sha256_spec (map (\<lambda>x. x XOR 0x5c) k0
           @ sha256_spec (map (\<lambda>x. x XOR 0x36) k0 @ msg)))"

subsection \<open>Shapes\<close>

lemma rotr_word: "n < 32 \<Longrightarrow> rotr x n = word_rotr n x"
proof (rule bit_word_eqI)
  fix k :: nat
  assume n: "n < 32" and "k < LENGTH(32)"
  then have k: "k < 32" by simp
  show "bit (rotr x n) k \<longleftrightarrow> bit (word_rotr n x) k"
  proof (cases "k + n < 32")
    case True
    with n k have "\<not> 32 - n \<le> k" by simp
    with True n k show ?thesis by (simp add: rotr_def bit_simps add.commute)
  next
    case False
    with n k have "(k + n) mod 32 = k + n - 32" by (simp add: mod_if)
    with n k False show ?thesis
      by (auto simp: rotr_def bit_simps add.commute dest: bit_imp_le_length)
  qed
qed

lemma length_be32 [simp]: "length (be32 v) = 4"
  by (simp add: be32_def)

lemma length_be64 [simp]: "length (be64 v) = 8"
  by (simp add: be64_def)

lemma length_compress [simp]: "length (compress st p) = 8"
  by (simp add: compress_def Let_def split: prod.splits)

lemma length_hash_blocks: "length st = 8 \<Longrightarrow> length (hash_blocks st m) = 8"
  by (induction st m rule: hash_blocks.induct) (subst hash_blocks.simps, simp)

lemma length_init [simp]: "length sha_init_state = 8"
  by (simp add: sha_init_state_def)

lemma length_concat_be32: "length (concat (map be32 ws)) = 4 * length ws"
  by (induction ws) auto

lemma length_sha256_spec: "length (sha256_spec m) = 32"
  by (simp add: sha256_spec_def length_concat_be32 length_hash_blocks)

lemma length_sha_pad: "length (sha_pad m) mod 64 = 0"
proof -
  define b where "b = (length m + 1) mod 64"
  have "(b + ((120 - b) mod 64 + 8)) mod 64 = 0"
    by (cases "b \<le> 56") (auto simp: pad_count b_def)
  then have "((length m + 1) + ((120 - b) mod 64 + 8)) mod 64 = 0"
    unfolding b_def by (simp only: mod_add_left_eq)
  then show ?thesis by (simp add: sha_pad_def b_def ac_simps)
qed

lemma hash_blocks_append:
  "length m mod 64 = 0 \<Longrightarrow> hash_blocks st (m @ n) = hash_blocks (hash_blocks st m) n"
proof (induction st m rule: hash_blocks.induct)
  case (1 st m)
  show ?case
  proof (cases "length m < 64")
    case True
    with "1.prems" show ?thesis by (simp add: hash_blocks.simps [of st "[]"])
  next
    case False
    with "1.prems" have "length (drop 64 m) mod 64 = 0"
      by (simp add: le_mod_geq not_less)
    with "1.IH" False show ?thesis
      by (simp add: hash_blocks.simps [of st "m @ n"] hash_blocks.simps [of st m])
  qed
qed

lemma hash_blocks_one: "length p = 64 \<Longrightarrow> hash_blocks st p = compress st p"
  by (simp add: hash_blocks.simps [of st] hash_blocks.simps [of _ "[]"])

lemma hash_blocks_short: "length p < 64 \<Longrightarrow> hash_blocks st p = st"
  by (simp add: hash_blocks.simps [of st])

subsection \<open>The buffered hasher refines the specification\<close>

text \<open>
  \<open>absorbed c m\<close>: the hasher has been fed the bytes \<open>m\<close>: its chaining value is the fold
  over the whole blocks of \<open>m\<close> and its buffer starts with the bytes of the last, partial
  block. What the rest of the buffer holds does not matter.
\<close>

definition absorbed :: "sha256 \<Rightarrow> bytes \<Rightarrow> bool" where
  "absorbed c m \<longleftrightarrow>
     (\<exists>full part. m = full @ part \<and> length full mod 64 = 0 \<and> length part < 64
        \<and> sha_state c = hash_blocks sha_init_state full
        \<and> length (buffer c) = 64 \<and> buflen c = length part
        \<and> take (length part) (buffer c) = part)"

lemma absorbed_bitlen [simp]: "absorbed (c\<lparr>bitlen := b\<rparr>) m \<longleftrightarrow> absorbed c m"
  by (simp add: absorbed_def)

lemma absorbed_new: "length junk = 64 \<Longrightarrow> absorbed (sha_new junk) []"
  by (auto simp: absorbed_def sha_new_def sha_reset_def hash_blocks_short)

lemma absorbed_buflen: "absorbed c m \<Longrightarrow> buflen c = length m mod 64"
  by (auto simp: absorbed_def mod_simps)

lemma absorbed_buflen_less: "absorbed c m \<Longrightarrow> buflen c < 64"
  by (simp add: absorbed_buflen)

lemma length_memcpy_at:
  "off + length src \<le> length dst \<Longrightarrow> length (memcpy_at dst off src) = length dst"
  by (simp add: memcpy_at_def)

lemma take_memcpy_at:
  "off + length src \<le> length dst \<Longrightarrow>
     take (off + length src) (memcpy_at dst off src) = take off dst @ src"
  by (simp add: memcpy_at_def)

lemma absorbed_step:
  assumes "absorbed c m"
  shows "absorbed (absorb c data) (m @ take (take_len c data) data)"
proof -
  from assms obtain full part where
    m: "m = full @ part" and full: "length full mod 64 = 0" and part: "length part < 64"
    and st: "sha_state c = hash_blocks sha_init_state full" and buf: "length (buffer c) = 64"
    and bl: "buflen c = length part" and tk: "take (length part) (buffer c) = part"
    by (auto simp: absorbed_def)
  define src where "src = take (take_len c data) data"
  have tl: "length src = take_len c data" "length part + length src \<le> 64"
    using part bl by (auto simp: src_def take_len_def)
  define buf' where "buf' = memcpy_at (buffer c) (length part) src"
  have len': "length buf' = 64" and tk': "take (length part + length src) buf' = part @ src"
    using tl buf bl tk length_memcpy_at [of "buflen c" src "buffer c"]
      take_memcpy_at [of "buflen c" src "buffer c"] by (simp_all add: buf'_def)
  show ?thesis
  proof (cases "length part + length src = 64")
    case True
    with tk' len' have "buf' = part @ src" by simp
    then have "hash_blocks sha_init_state (full @ part @ src)
                 = compress (hash_blocks sha_init_state full) buf'"
      using True by (simp add: hash_blocks_append [OF full] hash_blocks_one)
    moreover have "length (full @ part @ src) mod 64 = 0"
      using full True by simp
    ultimately show ?thesis
      using True m st bl len' tl
      by (auto simp: absorbed_def absorb_def Let_def sha_block_def src_def [symmetric]
          buf'_def [symmetric] intro!: exI [of _ "full @ part @ src"])
  next
    case False
    then have "absorb c data = c\<lparr>buffer := buf', buflen := length (part @ src)\<rparr>"
      using tl bl by (simp add: absorb_def Let_def src_def [symmetric] buf'_def [symmetric])
    then show ?thesis
      unfolding absorbed_def using tl m st len' tk' full False
      by (intro exI [of _ full] exI [of _ "part @ src"]) (simp add: src_def [symmetric])
  qed
qed

lemma absorbed_update_loop: "absorbed c m \<Longrightarrow> absorbed (update_loop c data) (m @ data)"
proof (induction c data arbitrary: m rule: update_loop.induct)
  case (1 c data)
  show ?case
  proof (cases "data = []")
    case True
    with "1.prems" show ?thesis by (simp add: update_loop.simps)
  next
    case False
    from "1.IH" [OF False absorbed_step [OF "1.prems"]] False show ?thesis
      by (subst update_loop.simps) simp
  qed
qed

lemma absorbed_update: "absorbed c m \<Longrightarrow> absorbed (sha_update c data) (m @ data)"
  by (simp add: sha_update_def absorbed_update_loop)

lemma bitlen_update_loop: "bitlen (update_loop c data) = bitlen c"
proof (induction c data rule: update_loop.induct)
  case (1 c data)
  then show ?case
    by (subst update_loop.simps) (simp add: absorb_def Let_def sha_block_def)
qed

lemma bitlen_update: "bitlen (sha_update c data) = bitlen c + word_of_nat (8 * length data)"
  by (simp add: sha_update_def bitlen_update_loop algebra_simps)

lemma absorbed_put_pad: "absorbed c m \<Longrightarrow> absorbed (put_pad c b) (m @ [b])"
  by (simp add: put_pad_def Let_def absorbed_update)

lemma absorbed_pad_loop:
  "absorbed c m \<Longrightarrow>
     absorbed (pad_loop c) (m @ replicate ((120 - length m mod 64) mod 64) 0)"
proof (induction c arbitrary: m rule: pad_loop.induct)
  case (1 c)
  note bl = absorbed_buflen [OF "1.prems"]
  show ?case
  proof (cases "buflen c = 56")
    case True
    with "1.prems" bl show ?thesis by (simp add: pad_loop.simps [of c])
  next
    case False
    let ?k = "(120 - length m mod 64) mod 64" and ?k' = "(120 - (length m + 1) mod 64) mod 64"
    have "length m mod 64 < 64" "length m mod 64 \<noteq> 56" using False bl by simp_all
    from pad_count_Suc [OF this] have k: "?k = Suc ?k'" by (simp only: mod_add_left_eq)
    have "absorbed (pad_loop (put_pad c 0)) ((m @ [0]) @ replicate ?k' 0)"
      using "1.IH" [OF _ absorbed_put_pad [OF "1.prems"]] False absorbed_buflen_less [OF "1.prems"]
      by (simp add: not_le)
    then show ?thesis
      using False absorbed_buflen_less [OF "1.prems"] k by (simp add: pad_loop.simps [of c])
  qed
qed

lemma concat_map_nth8:
  "length st = 8 \<Longrightarrow> concat (map (\<lambda>i. f (st ! i)) [0..<8]) = concat (map f st)"
  by (rule arg_cong [of _ _ concat], rule nth_equalityI) simp_all

lemma absorbed_whole:
  assumes "absorbed c m" and "length m mod 64 = 0"
  shows "sha_state c = hash_blocks sha_init_state m"
proof -
  from assms(1) obtain full part where
    m: "m = full @ part" "length full mod 64 = 0" "length part < 64"
    and st: "sha_state c = hash_blocks sha_init_state full"
    by (auto simp: absorbed_def)
  have "length part mod 64 = (length full + length part) mod 64"
    using m(2) by (metis add_0 mod_add_left_eq)
  also have "\<dots> = 0" using assms(2) m(1) by simp
  finally have "part = []" using m(3) by simp
  with m(1) st show ?thesis by simp
qed

lemma sha_finish_spec:
  assumes "absorbed c m" and "bitlen c = word_of_nat (8 * length m)"
  shows "sha_finish c = sha256_spec m"
proof -
  have "absorbed (sha_update (pad_loop (put_pad c 0x80)) (be64 (bitlen c))) (sha_pad m)"
    using absorbed_update
      [OF absorbed_pad_loop [OF absorbed_put_pad [OF assms(1), where b = "0x80"]]]
    by (simp add: sha_pad_def assms(2))
  from absorbed_whole [OF this length_sha_pad] show ?thesis
    by (simp add: sha_finish_def Let_def sha256_spec_def concat_map_nth8 length_hash_blocks)
qed

lemma sha_stream:
  "length junk = 64 \<Longrightarrow>
     absorbed (fold (\<lambda>d c. sha_update c d) ds (sha_new junk)) (concat ds)
     \<and> bitlen (fold (\<lambda>d c. sha_update c d) ds (sha_new junk)) = word_of_nat (8 * length (concat ds))"
proof (induction ds rule: rev_induct)
  case Nil
  then show ?case by (simp add: absorbed_new) (simp add: sha_new_def sha_reset_def)
next
  case (snoc d ds)
  then show ?case by (simp add: absorbed_update bitlen_update algebra_simps)
qed

lemma sha_stream_finish:
  "length junk = 64 \<Longrightarrow>
     sha_finish (fold (\<lambda>d c. sha_update c d) ds (sha_new junk)) = sha256_spec (concat ds)"
  by (rule sha_finish_spec) (simp_all only: sha_stream)

lemma sha256_hash_spec: "length junk = 64 \<Longrightarrow> sha256_hash junk m = sha256_spec m"
  using sha_stream_finish [of junk "[m]"] by (simp add: sha256_hash_def)

lemma memcpy_zero:
  "length k \<le> 64 \<Longrightarrow> memcpy_at (replicate 64 0) 0 k = k @ replicate (64 - length k) 0"
  by (simp add: memcpy_at_def)

lemma hmac_refines: "length junk = 64 \<Longrightarrow> hmac_sha256 junk key msg = hmac_spec key msg"
proof -
  assume j: "length junk = 64"
  have two: "sha_finish (sha_update (sha_update (sha_new junk) a) b) = sha256_spec (a @ b)" for a b
    using sha_stream_finish [OF j, of "[a, b]"] by simp
  define k where "k = (if length key > 64 then sha256_spec key else key)"
  have kl: "length k \<le> 64" by (simp add: k_def length_sha256_spec)
  have kb: "(if length key > 64 then memcpy_at (replicate 64 0) 0 (sha256_hash junk key)
             else memcpy_at (replicate 64 0) 0 key) = k @ replicate (64 - length k) 0"
    using kl memcpy_zero [of k] by (simp add: k_def sha256_hash_spec [OF j] split: if_splits)
  define k0 where "k0 = k @ replicate (64 - length k) 0"
  have "length k0 = 64" using kl by (simp add: k0_def)
  then have idx: "map (\<lambda>i. k0 ! i XOR v) [0..<64] = map (\<lambda>x. x XOR v) k0" for v
    by (intro nth_equalityI) simp_all
  have "hmac_sha256 junk key msg =
      sha256_spec (map (\<lambda>x. x XOR 0x5c) k0 @ sha256_spec (map (\<lambda>x. x XOR 0x36) k0 @ msg))"
    by (simp only: hmac_sha256_def Let_def two kb k0_def [symmetric] idx)
  also have "\<dots> = hmac_spec key msg"
    by (simp only: hmac_spec_def Let_def k_def [symmetric] k0_def)
  finally show ?thesis .
qed

subsection \<open>Properties\<close>

text \<open>
  C19: the incremental hasher computes the one-shot function of FIPS 180-4: however a message
  is split over the calls of \<^verbatim>\<open>update\<close>, and whatever the uninitialised block buffer holds
  (64 bytes of \<open>junk\<close>), \<^verbatim>\<open>finish\<close> returns the hash of the concatenation.
\<close>

theorem sha256_streaming:
  assumes "length junk = 64"
  shows "sha_finish (fold (\<lambda>d c. sha_update c d) ds (sha_new junk)) = sha256_spec (concat ds)"
  using assms by (rule sha_stream_finish)

lemma sha256_streaming_witness:
  "sha_finish (fold (\<lambda>d c. sha_update c d) [[0x61], [0x62, 0x63]] (sha_new (replicate 64 7)))
     = sha256_spec [0x61, 0x62, 0x63]"
  using sha256_streaming [of "replicate 64 7" "[[0x61], [0x62, 0x63]]"] by simp

text \<open>
  C20: the HMAC routine, with its key block built in place and two streaming hashes, is the
  RFC 2104 construction over SHA-256, keys longer than a block included.
\<close>

theorem hmac_is_rfc2104:
  assumes "length junk = 64"
  shows "hmac_sha256 junk key msg = hmac_spec key msg"
  using assms by (rule hmac_refines)

lemma hmac_is_rfc2104_witness:
  "hmac_sha256 (replicate 64 1) (replicate 70 2) [3] = hmac_spec (replicate 70 2) [3]"
  using hmac_is_rfc2104 [of "replicate 64 1"] by simp

end
