(* ===== verification/Url.thy ===== *)
theory Url
  imports Common Codec
begin

text \<open>
  \<^verbatim>\<open>core/src/vc_url.cpp\<close>: percent-encoding and the URL parser. The parser's cursor \<^verbatim>\<open>i\<close>
  into \<^verbatim>\<open>rest\<close> is kept as a number, and each \<^verbatim>\<open>while\<close> over \<^verbatim>\<open>rest[i]\<close> is \<open>scan\<close>, which
  moves the cursor to the next stop character or to the end.
\<close>

subsection \<open>Percent-encoding\<close>

definition is_unreserved :: "char \<Rightarrow> bool" where
  "is_unreserved c \<longleftrightarrow>
     in_range CHR ''A'' CHR ''Z'' c \<or> in_range CHR ''a'' CHR ''z'' c
     \<or> in_range CHR ''0'' CHR ''9'' c
     \<or> c = CHR ''-'' \<or> c = CHR ''_'' \<or> c = CHR ''.'' \<or> c = CHR ''~''"

definition hex_upper :: string where
  "hex_upper = ''0123456789ABCDEF''"

fun url_encode :: "string \<Rightarrow> string" where
  "url_encode [] = []"
| "url_encode (c # cs) =
     (if is_unreserved c then c # url_encode cs
      else CHR ''%'' # hex_upper ! (ord c div 16) # hex_upper ! (ord c mod 16) # url_encode cs)"

subsection \<open>Parsing\<close>

record url =
  scheme :: string
  host :: string
  port :: int
  path :: string
  query :: string

definition scan :: "(char \<Rightarrow> bool) \<Rightarrow> string \<Rightarrow> nat \<Rightarrow> nat" where
  "scan stop s i = i + length (takeWhile (\<lambda>c. \<not> stop c) (drop i s))"

definition substr :: "string \<Rightarrow> nat \<Rightarrow> nat \<Rightarrow> string" where
  "substr s pos n = take n (drop pos s)"

definition at :: "string \<Rightarrow> nat \<Rightarrow> char \<Rightarrow> bool" where
  "at s i c \<longleftrightarrow> i < length s \<and> s ! i = c"

definition path_stop :: "char \<Rightarrow> bool" where
  "path_stop c \<longleftrightarrow> c = CHR ''/'' \<or> c = CHR ''?''"

definition default_port :: "string \<Rightarrow> int" where
  "default_port sch =
     (if iequals sch ''https'' \<or> iequals sch ''wss'' then 443
      else if iequals sch ''http'' \<or> iequals sch ''ws'' then 80
      else 443)"

text \<open>Lines 72 to 85: the explicit port, with the cursor behind it; 0 when there is none.\<close>

definition url_port :: "string \<Rightarrow> nat \<Rightarrow> (int \<times> nat) result" where
  "url_port rest i =
     (if at rest i CHR '':''
      then (let i = i + 1;
                pe = scan path_stop rest i
            in case parse_uint (substr rest i (pe - i)) 65535 10 of
                 None \<Rightarrow> Err Protocol
               | Some p \<Rightarrow> if p = 0 then Err Protocol
                           else Inr (int p, scan path_stop rest i))
      else Inr (0, i))"

definition url_parse :: "string \<Rightarrow> url result" where
  "url_parse u =
     (case find_sub ''://'' u of
        None \<Rightarrow> Err InvalidArg
      | Some sep \<Rightarrow>
          (let sch = substr u 0 sep;
               rest = drop (sep + 3) u;
               i = scan (\<lambda>c. c = CHR '':'' \<or> path_stop c) rest 0
           in if i = 0 then Err InvalidArg
              else (let h = substr rest 0 i
                    in case url_port rest i of
                         Inl e \<Rightarrow> Inl e
                       | Inr (p0, i) \<Rightarrow>
                           (let p = (if p0 = 0 then default_port sch else p0)
                            in if at rest i CHR ''/''
                               then (let j = scan (\<lambda>c. c = CHR ''?'') rest i
                                     in Inr \<lparr>scheme = sch, host = h, port = p,
                                             path = substr rest i (j - i),
                                             query = (if at rest j CHR ''?''
                                                      then drop (j + 1) rest else [])\<rparr>)
                               else if i < length rest \<and> rest ! i \<noteq> CHR ''?''
                               then Err InvalidArg
                               else Inr \<lparr>scheme = sch, host = h, port = p, path = ''/'',
                                         query = (if at rest i CHR ''?''
                                                  then drop (i + 1) rest else [])\<rparr>))))"

subsection \<open>Percent-encoding is injective and yields only safe characters\<close>

text \<open>The reference decoder of RFC 3986, used only in statements.\<close>

fun pct_decode :: "string \<Rightarrow> string option" where
  "pct_decode [] = Some []"
| "pct_decode (c # cs) =
     (if c = CHR ''%''
      then (case cs of
              h # l # r \<Rightarrow>
                (case (digit_val 16 h, digit_val 16 l) of
                   (Some x, Some y) \<Rightarrow> map_option ((#) (char_of (16 * x + y))) (pct_decode r)
                 | _ \<Rightarrow> None)
            | _ \<Rightarrow> None)
      else map_option ((#) c) (pct_decode cs))"

lemma hex_upper_digit: "list_all (\<lambda>n. digit_val 16 (hex_upper ! n) = Some n
    \<and> is_unreserved (hex_upper ! n) \<and> is_xdigit (hex_upper ! n)) [0..<16]"
  by code_simp

lemma hex_upper_facts:
  "n < 16 \<Longrightarrow> digit_val 16 (hex_upper ! n) = Some n"
  "n < 16 \<Longrightarrow> is_unreserved (hex_upper ! n)"
  using hex_upper_digit by (auto simp: list_all_iff)

lemma ord_nibbles: "ord c div 16 < 16" "ord c mod 16 < 16"
  using ord_less_256 [of c] by (auto simp: less_mult_imp_div_less)

lemma not_unreserved_percent [simp]: "\<not> is_unreserved CHR ''%''"
  by (simp add: is_unreserved_def in_range_def)

lemma pct_decode_encode: "pct_decode (url_encode s) = Some s"
proof (induction s)
  case (Cons c cs)
  have "char_of (16 * (ord c div 16) + ord c mod 16) = c" by simp
  with Cons show ?case by (auto simp: hex_upper_facts ord_nibbles)
qed simp

interpretation pct: codec url_encode pct_decode "\<lambda>_. True"
  by unfold_locales (rule pct_decode_encode)

lemma url_encode_inj: "url_encode s = url_encode t \<longleftrightarrow> s = t"
  by (rule pct.enc_inj) simp_all

lemma url_encode_safe: "c \<in> set (url_encode s) \<Longrightarrow> is_unreserved c \<or> c = CHR ''%''"
  by (induction s) (auto simp: hex_upper_facts ord_nibbles split: if_splits)

lemma url_encode_append: "url_encode (s @ t) = url_encode s @ url_encode t"
  by (induction s) auto

lemma url_encode_unreserved: "(\<forall>c \<in> set s. is_unreserved c) \<Longrightarrow> url_encode s = s"
  by (induction s) auto

subsection \<open>What a parsed URL looks like\<close>

lemma scan_ge: "i \<le> scan stop s i"
  by (simp add: scan_def)

lemma scan_le: "i \<le> length s \<Longrightarrow> scan stop s i \<le> length s"
proof -
  assume "i \<le> length s"
  moreover have "length (takeWhile (\<lambda>c. \<not> stop c) (drop i s)) \<le> length (drop i s)"
    by (rule length_takeWhile_le)
  ultimately show ?thesis by (simp add: scan_def)
qed

lemma scan_stop: "scan stop s i < length s \<Longrightarrow> stop (s ! scan stop s i)"
  using nth_length_takeWhile [of "\<lambda>c. \<not> stop c" "drop i s"]
  by (auto simp: scan_def)

lemma scan_substr: "substr s i (scan stop s i - i) = takeWhile (\<lambda>c. \<not> stop c) (drop i s)"
  by (simp add: substr_def scan_def takeWhile_eq_take [symmetric])

lemma scan_append:
  assumes "\<forall>c \<in> set b. \<not> stop c" and "r = [] \<or> stop (hd r)"
  shows "scan stop (a @ b @ r) (length a) = length a + length b"
proof -
  have "takeWhile (\<lambda>c. \<not> stop c) (b @ r) = b"
    using assms by (cases r) (auto simp: takeWhile_append)
  then show ?thesis by (simp add: scan_def)
qed

lemma url_port_bounds:
  "url_port rest i = Inr (p, j) \<Longrightarrow>
     (p = 0 \<and> j = i \<and> \<not> at rest i CHR '':'') \<or> (1 \<le> p \<and> p \<le> 65535
        \<and> j = scan path_stop rest (i + 1))"
  by (auto simp: url_port_def Let_def split: if_splits option.splits dest: parse_uint_le)

lemma default_port_range: "default_port s = 443 \<or> default_port s = 80"
  by (simp add: default_port_def)

lemma url_parse_shape:
  assumes "url_parse u = Inr r"
  shows "1 \<le> port r \<and> port r \<le> 65535" and "\<exists>p. path r = CHR ''/'' # p"
    and "host r \<noteq> []" and "\<forall>c \<in> set (host r). c \<noteq> CHR '':'' \<and> \<not> path_stop c"
    and "CHR ''?'' \<notin> set (path r)"
proof -
  from assms obtain sep p0 i where
    "find_sub ''://'' u = Some sep"
    and po: "url_port (drop (sep + 3) u)
           (scan (\<lambda>c. c = CHR '':'' \<or> path_stop c) (drop (sep + 3) u) 0) = Inr (p0, i)"
    by (auto simp: url_parse_def Let_def split: option.splits if_splits sum.splits)
  note parsed = this
  define rest where "rest = drop (sep + 3) u"
  define h where "h = takeWhile (\<lambda>c. \<not> (c = CHR '':'' \<or> path_stop c)) rest"
  have h: "substr rest 0 (scan (\<lambda>c. c = CHR '':'' \<or> path_stop c) rest 0) = h"
    using scan_substr [of rest 0] by (simp add: h_def)
  have sc: "scan (\<lambda>c. c = CHR '':'' \<or> path_stop c) rest 0 = length h"
    by (simp add: scan_def h_def)
  have pb: "0 \<le> p0 \<and> p0 \<le> 65535" using url_port_bounds [OF po] by auto
  have pth: "substr rest i (scan (\<lambda>c. c = CHR ''?'') rest i - i)
      = CHR ''/'' # takeWhile (\<lambda>c. c \<noteq> CHR ''?'') (drop (Suc i) rest)" if "at rest i CHR ''/''"
    using that by (simp add: scan_substr at_def Cons_nth_drop_Suc [symmetric])
  have r: "host r = h" "h \<noteq> []"
    "port r = (if p0 = 0 then default_port (substr u 0 sep) else p0)"
    "path r = (if at rest i CHR ''/''
       then CHR ''/'' # takeWhile (\<lambda>c. c \<noteq> CHR ''?'') (drop (Suc i) rest) else ''/'')"
    using assms parsed pth h sc
    by (auto simp: url_parse_def Let_def rest_def [symmetric] split: if_splits)
  show "1 \<le> port r \<and> port r \<le> 65535"
    using r(3) pb default_port_range [of "substr u 0 sep"] by auto
  show "\<exists>p. path r = CHR ''/'' # p" using r(4) by auto
  show "host r \<noteq> []" using r by simp
  show "\<forall>c \<in> set (host r). c \<noteq> CHR '':'' \<and> \<not> path_stop c"
    using r(1) by (auto simp: h_def dest: set_takeWhileD)
  show "CHR ''?'' \<notin> set (path r)"
    using r(4) by (auto dest: set_takeWhileD)
qed

subsection \<open>Formatting and parsing back\<close>

definition url_format :: "url \<Rightarrow> string" where
  "url_format u =
     scheme u @ ''://'' @ host u @ '':'' @ to_string (nat (port u)) @ path u
       @ (if query u = [] then [] else CHR ''?'' # query u)"

definition url_ok :: "url \<Rightarrow> bool" where
  "url_ok u \<longleftrightarrow>
     CHR '':'' \<notin> set (scheme u)
     \<and> host u \<noteq> [] \<and> (\<forall>c \<in> set (host u). c \<noteq> CHR '':'' \<and> \<not> path_stop c)
     \<and> 1 \<le> port u \<and> port u \<le> 65535
     \<and> path u \<noteq> [] \<and> hd (path u) = CHR ''/'' \<and> CHR ''?'' \<notin> set (path u)"

lemma digit_no_stop: "is_digit c \<Longrightarrow> \<not> path_stop c"
  by (auto simp: is_digit_def in_range_def path_stop_def)

lemma url_port_format:
  assumes "1 \<le> n" "n \<le> 65535" "r \<noteq> []" "path_stop (hd r)"
  shows "url_port (h @ CHR '':'' # to_string n @ r) (length h)
           = Inr (int n, length h + 1 + length (to_string n))"
proof -
  let ?s = "h @ CHR '':'' # to_string n @ r"
  have sc: "scan path_stop ?s (Suc (length h)) = length h + 1 + length (to_string n)"
    using scan_append [of "to_string n" path_stop r "h @ [CHR '':'']"] assms digit_no_stop
      to_string_digits by force
  have "substr ?s (Suc (length h)) (length (to_string n)) = to_string n"
    by (simp add: substr_def)
  with assms show ?thesis
    by (simp add: url_port_def at_def nth_append sc parse_uint_to_string)
qed

lemma url_parse_format: "url_ok u \<Longrightarrow> url_parse (url_format u) = Inr u"
proof -
  assume ok: "url_ok u"
  define n where "n = nat (port u)"
  define q where "q = (if query u = [] then [] else CHR ''?'' # query u)"
  define rest where "rest = host u @ CHR '':'' # to_string n @ path u @ q"
  have fmt: "url_format u = scheme u @ ''://'' @ rest"
    by (simp add: url_format_def rest_def q_def n_def)
  have pb: "1 \<le> port u" "port u \<le> 65535" using ok unfolding url_ok_def by blast+
  have n: "1 \<le> n" "n \<le> 65535" "int n = port u"
    using pb by (simp_all add: n_def nat_le_iff)
  have pth: "path u @ q \<noteq> []" "path_stop (hd (path u @ q))"
    using ok by (auto simp: url_ok_def path_stop_def)
  have sep: "find_sub ''://'' (url_format u) = Some (length (scheme u))"
    using ok find_sub_skip [of "''://''" "scheme u" "''://'' @ rest"]
      find_sub_here [of "''://''" rest] by (simp add: fmt url_ok_def)
  have i: "scan (\<lambda>c. c = CHR '':'' \<or> path_stop c) rest 0 = length (host u)"
    using scan_append [of "host u" "\<lambda>c. c = CHR '':'' \<or> path_stop c" _ "[]"] ok
    by (simp add: rest_def url_ok_def)
  have pp: "url_port rest (length (host u))
      = Inr (port u, length (host u) + 1 + length (to_string n))"
    using url_port_format [OF n(1,2) pth, of "host u"] n(3) by (simp add: rest_def)
  define i' where "i' = length (host u) + 1 + length (to_string n)"
  have at1: "at rest i' CHR ''/''"
    using ok by (cases "path u") (auto simp: rest_def i'_def at_def nth_append url_ok_def)
  have j: "scan (\<lambda>c. c = CHR ''?'') rest i' = i' + length (path u)"
  proof -
    have "\<forall>c \<in> set (path u). \<not> c = CHR ''?''" using ok unfolding url_ok_def by blast
    moreover have "q = [] \<or> hd q = CHR ''?''" by (simp add: q_def)
    ultimately show ?thesis
      using scan_append [of "path u" "\<lambda>c. c = CHR ''?''" q "host u @ CHR '':'' # to_string n"]
      by (simp add: rest_def i'_def)
  qed
  have qq: "(if at rest (i' + length (path u)) CHR ''?''
      then drop (Suc (i' + length (path u))) rest else []) = query u"
    by (simp add: rest_def i'_def at_def nth_append q_def)
  have sub: "substr rest i' (length (path u)) = path u" "substr rest 0 (length (host u)) = host u"
    "substr (url_format u) 0 (length (scheme u)) = scheme u"
    by (simp_all add: rest_def i'_def substr_def fmt)
  have dr: "drop (length (scheme u) + 3) (url_format u) = rest" by (simp add: fmt)
  have nz: "(length (host u) = 0) = False" "(port u = 0) = False"
    and dj: "i' + length (path u) - i' = length (path u)"
    and one: "i' + length (path u) + 1 = Suc (i' + length (path u))"
    using ok pb by (simp_all add: url_ok_def)
  show ?thesis
    by (simp only: url_parse_def sep option.case Let_def dr sub i pp sum.case prod.case
        i'_def [symmetric] at1 if_True if_False j nz dj one qq) simp
qed

subsection \<open>Properties\<close>

text \<open>
  Percent-encoding loses nothing and its output is safe inside a query string: it decodes
  to the original text and holds only unreserved characters and percent signs.
\<close>

theorem url_encode_roundtrip:
  "pct_decode (url_encode s) = Some s \<and> set (url_encode s) \<subseteq> Collect is_unreserved \<union> {CHR ''%''}"
  using url_encode_safe [of _ s] by (auto simp: pct_decode_encode)

text \<open>
  A URL that parses has a port from 1 to 65535, a nonempty host free of separators, and a
  path that starts with a slash and holds no question mark.
\<close>

theorem url_parse_sound:
  assumes "url_parse u = Inr r"
  shows "1 \<le> port r \<and> port r \<le> 65535 \<and> host r \<noteq> [] \<and>
    (\<forall>c \<in> set (host r). c \<noteq> CHR '':'' \<and> \<not> path_stop c) \<and>
    (\<exists>p. path r = CHR ''/'' # p) \<and> CHR ''?'' \<notin> set (path r)"
  using url_parse_shape [OF assms] by blast

lemma url_parse_sound_witness:
  "\<exists>r. url_parse ''wss://ns.example/hc/name?a=b'' = Inr r \<and> 1 \<le> port r \<and> port r \<le> 65535"
proof -
  have "isl (url_parse ''wss://ns.example/hc/name?a=b'') = False" by code_simp
  then obtain r where "url_parse ''wss://ns.example/hc/name?a=b'' = Inr r"
    by (cases "url_parse ''wss://ns.example/hc/name?a=b''") auto
  with url_parse_sound [OF this] show ?thesis by blast
qed

text \<open>Formatting a well-formed URL and parsing it gives the URL back, part by part.\<close>

theorem url_roundtrip:
  assumes "url_ok u"
  shows "url_parse (url_format u) = Inr u"
  using assms by (rule url_parse_format)

lemma url_roundtrip_witness:
  "url_parse (url_format \<lparr>scheme = ''wss'', host = ''ns'', port = 443, path = ''/hc'', query = ''a=b''\<rparr>) =
     Inr \<lparr>scheme = ''wss'', host = ''ns'', port = 443, path = ''/hc'', query = ''a=b''\<rparr>"
proof (rule url_roundtrip)
  show "url_ok \<lparr>scheme = ''wss'', host = ''ns'', port = 443, path = ''/hc'', query = ''a=b''\<rparr>"
    by (simp add: url_ok_def path_stop_def)
qed

end
