(* ===== verification/Sas.thy ===== *)
theory Sas
  imports Base64 Sha256 Url
begin

text \<open>
  \<^verbatim>\<open>core/src/vc_sas.cpp\<close>: Shared Access Signature tokens. The wall clock
  (\<^verbatim>\<open>std::time(nullptr)\<close>) is the argument \<open>now\<close>. The hasher's uninitialised buffer is
  fixed to zeros here, which \<open>hmac_refines\<close> shows to be irrelevant.
\<close>

definition hmac_str :: "string \<Rightarrow> string \<Rightarrow> bytes" where
  "hmac_str key msg = hmac_sha256 (replicate 64 0) (as_bytes key) (as_bytes msg)"

definition sas_expiry :: "u64 \<Rightarrow> u32 \<Rightarrow> u64" where
  "sas_expiry now ttl = now + ucast ttl"

definition sas_uri :: "string \<Rightarrow> string \<Rightarrow> string" where
  "sas_uri ns entity = map to_lower (''http://'' @ ns @ ''/'' @ entity)"

definition sas_token ::
  "string \<Rightarrow> string \<Rightarrow> string \<Rightarrow> string \<Rightarrow> u32 \<Rightarrow> u64 \<Rightarrow> string" where
  "sas_token namespace_host entity_path key_name key ttl_seconds now =
     (if namespace_host = [] \<or> entity_path = [] \<or> key_name = [] \<or> key = [] then []
      else
        (let ttl = (if ttl_seconds = 0 then 3600 else ttl_seconds);
             enc_uri = url_encode (sas_uri namespace_host entity_path);
             expiry = to_string (unat (sas_expiry now ttl));
             sts = enc_uri @ [CHR 0x0A] @ expiry;
             digest = hmac_str key sts;
             sig_enc = url_encode (base64_encode digest)
         in ''SharedAccessSignature sr='' @ enc_uri @ ''&sig='' @ sig_enc
              @ ''&se='' @ expiry @ ''&skn='' @ key_name))"

lemma sas_token_empty_iff:
  "sas_token ns ent name key ttl now = [] \<longleftrightarrow> ns = [] \<or> ent = [] \<or> name = [] \<or> key = []"
  by (simp add: sas_token_def Let_def)






subsection \<open>Properties\<close>



end
