(* ===== verification/Double.thy ===== *)
theory Double
  imports Common
begin

text \<open>
  The \<^verbatim>\<open>double\<close> values of \<^verbatim>\<open>vc_json.cpp\<close>: IEEE 754 binary64, the C library's \<^verbatim>\<open>strtod\<close> on
  the tokens the JSON parser hands it, and the two \<^verbatim>\<open>printf\<close> conversions the writer uses
  (\<^verbatim>\<open>%lld\<close> and \<^verbatim>\<open>%.17g\<close>). A finite value is a sign, a mantissa below $2^{53}$ and an
  exponent; reading rounds to nearest, ties to even, on exact integers.
\<close>

datatype dbl = DNaN | DInf bool | DFin bool nat int

subsection \<open>Rounding a positive rational to a double\<close>

fun nat_len :: "nat \<Rightarrow> nat" where
  "nat_len n = (if n = 0 then 0 else Suc (nat_len (n div 2)))"

declare nat_len.simps [simp del]

text \<open>\<open>scaled p q e\<close> is the fraction $p / q / 2^e$ as numerator and denominator.\<close>

definition scaled :: "nat \<Rightarrow> nat \<Rightarrow> int \<Rightarrow> nat \<times> nat" where
  "scaled p q e = (if 0 \<le> e then (p, q * 2 ^ nat e) else (p * 2 ^ nat (- e), q))"

definition half_even :: "nat \<Rightarrow> nat \<Rightarrow> nat" where
  "half_even n d =
     (let k = n div d; r = n mod d
      in if 2 * r > d \<or> (2 * r = d \<and> odd k) then k + 1 else k)"

definition round_dbl :: "bool \<Rightarrow> nat \<Rightarrow> nat \<Rightarrow> dbl" where
  "round_dbl neg p q =
     (if p = 0 then DFin neg 0 (-1074)
      else
        (let e0 = int (nat_len p) - int (nat_len q) - 53;
             (n0, d0) = scaled p q e0;
             e1 = (if n0 \<ge> d0 * 2 ^ 53 then e0 + 1 else e0);
             e = max e1 (-1074);
             (n, d) = scaled p q e;
             m = half_even n d;
             (m', e') = (if m = 2 ^ 53 then (2 ^ 52, e + 1) else (m, e))
         in if e' > 971 then DInf neg else DFin neg m' e'))"

definition dbl_of_int :: "int \<Rightarrow> dbl" where
  "dbl_of_int i = round_dbl (i < 0) (nat \<bar>i\<bar>) 1"

subsection \<open>strtod\<close>

definition str_sign :: "string \<Rightarrow> bool \<times> string" where
  "str_sign s =
     (case s of [] \<Rightarrow> (False, s)
      | c # cs \<Rightarrow> if c = CHR ''-'' then (True, cs) else if c = CHR ''+'' then (False, cs)
                 else (False, s))"

definition str_exponent :: "string \<Rightarrow> int \<times> string" where
  "str_exponent s =
     (case s of [] \<Rightarrow> (0, s)
      | c # cs \<Rightarrow>
          if c = CHR ''e'' \<or> c = CHR ''E''
          then (let (neg, t) = str_sign cs;
                    ds = takeWhile is_digit t;
                    v = int (num_of 10 ds)
                in if ds = [] then (0, s) else (if neg then - v else v, dropWhile is_digit t))
          else (0, s))"

definition str_fraction :: "string \<Rightarrow> string \<times> string" where
  "str_fraction s =
     (case s of [] \<Rightarrow> ([], s)
      | c # cs \<Rightarrow> if c = CHR ''.'' then (takeWhile is_digit cs, dropWhile is_digit cs)
                 else ([], s))"

definition strtod :: "string \<Rightarrow> (dbl \<times> string) option" where
  "strtod s =
     (let (neg, s1) = str_sign s;
          ip = takeWhile is_digit s1;
          (fp, s3) = str_fraction (dropWhile is_digit s1)
      in if ip = [] \<and> fp = [] then None
         else
           (let (ex, s4) = str_exponent s3;
                d = num_of 10 (ip @ fp);
                x = ex - int (length fp)
            in Some (if 0 \<le> x then round_dbl neg (d * 10 ^ nat x) 1
                     else round_dbl neg d (10 ^ nat (- x)), s4)))"

subsection \<open>Predicates and conversions to integers\<close>

definition is_integral :: "dbl \<Rightarrow> bool" where
  "is_integral x =
     (case x of DFin s m e \<Rightarrow> 0 \<le> e \<or> m mod 2 ^ nat (- e) = 0 | _ \<Rightarrow> False)"

text \<open>The value truncated towards zero; only meaningful for a finite number.\<close>

definition trunc_val :: "dbl \<Rightarrow> int" where
  "trunc_val x =
     (case x of
        DFin s m e \<Rightarrow>
          (let a = (if 0 \<le> e then m * 2 ^ nat e else m div 2 ^ nat (- e))
           in if s then - int a else int a)
      | _ \<Rightarrow> 0)"

text \<open>\<^verbatim>\<open>static_cast<int>\<close>: undefined behaviour (\<^const>\<open>None\<close>) unless the truncated value fits.\<close>

definition dbl_to_int :: "dbl \<Rightarrow> int option" where
  "dbl_to_int x =
     (case x of
        DFin s m e \<Rightarrow>
          (let v = trunc_val x in if - (2 ^ 31) \<le> v \<and> v < 2 ^ 31 then Some v else None)
      | _ \<Rightarrow> None)"

subsection \<open>The conversion \<open>%.17g\<close>\<close>

fun count_up :: "nat \<Rightarrow> nat \<Rightarrow> nat \<Rightarrow> nat \<Rightarrow> nat" where
  "count_up 0 k p q = k"
| "count_up (Suc fuel) k p q = (if q \<le> p then k else count_up fuel (k + 1) (p * 10) q)"

text \<open>The decimal exponent of $p/q$; a double is above $10^{-324}$, hence the bound 400.\<close>

definition dec_exp :: "nat \<Rightarrow> nat \<Rightarrow> int" where
  "dec_exp p q =
     (if q \<le> p then int (length (to_string (p div q))) - 1 else - int (count_up 400 0 p q))"

definition dec_scaled :: "nat \<Rightarrow> nat \<Rightarrow> int \<Rightarrow> nat" where
  "dec_scaled p q x =
     (if 0 \<le> x then half_even (p * 10 ^ nat x) q else half_even p (q * 10 ^ nat (- x)))"

definition strip_zeros :: "string \<Rightarrow> string" where
  "strip_zeros s = rev (dropWhile (\<lambda>c. c = CHR ''0'') (rev s))"

definition with_fraction :: "string \<Rightarrow> string \<Rightarrow> string" where
  "with_fraction ip fp =
     (let f = strip_zeros fp in if f = [] then ip else ip @ ''.'' @ f)"

definition fmt_17g :: "nat \<Rightarrow> nat \<Rightarrow> string" where
  "fmt_17g p q =
     (let x0 = dec_exp p q;
          n0 = dec_scaled p q (16 - x0);
          (n, x) = (if n0 = 10 ^ 17 then (10 ^ 16, x0 + 1) else (n0, x0));
          ds = to_string n
      in if x < -4 \<or> x \<ge> 17
         then with_fraction (take 1 ds) (drop 1 ds) @ ''e''
                @ (if x < 0 then ''-'' else ''+'')
                @ (let es = to_string (nat \<bar>x\<bar>) in if length es < 2 then ''0'' @ es else es)
         else if 0 \<le> x then with_fraction (take (nat x + 1) ds) (drop (nat x + 1) ds)
         else with_fraction ''0'' (replicate (nat (- x) - 1) CHR ''0'' @ ds))"

subsection \<open>Integers up to $2^{53}$ are exact\<close>

lemma nat_len_bounds: "0 < n \<Longrightarrow> 2 ^ (nat_len n - 1) \<le> n \<and> n < 2 ^ nat_len n \<and> 0 < nat_len n"
proof (induction n rule: nat_len.induct)
  case (1 n)
  show ?case
  proof (cases "n div 2 = 0")
    case True
    with "1.prems" have "n = 1" by auto
    then show ?thesis by (simp add: nat_len.simps)
  next
    case False
    with "1.IH" "1.prems" have ih: "2 ^ (nat_len (n div 2) - 1) \<le> n div 2"
      "n div 2 < 2 ^ nat_len (n div 2)" "0 < nat_len (n div 2)" by auto
    then obtain k where k: "nat_len (n div 2) = Suc k" by (cases "nat_len (n div 2)") auto
    with ih have "2 * 2 ^ k \<le> n" "n < 2 * 2 ^ Suc k" by auto
    with "1.prems" k show ?thesis by (simp add: nat_len.simps [of n])
  qed
qed

lemma nat_len_1 [simp]: "nat_len (Suc 0) = 1"
  by (simp add: nat_len.simps)

lemma half_even_exact: "0 < d \<Longrightarrow> half_even (k * d) d = k"
  by (simp add: half_even_def)

definition exact_int :: "bool \<Rightarrow> nat \<Rightarrow> dbl" where
  "exact_int neg p =
     (if p = 0 then DFin neg 0 (-1074)
      else if p = 2 ^ 53 then DFin neg (2 ^ 52) 1
      else DFin neg (p * 2 ^ (53 - nat_len p)) (int (nat_len p) - 53))"

lemma round_exact_int:
  assumes "p \<le> 2 ^ 53"
  shows "round_dbl neg p 1 = exact_int neg p"
proof (cases "p = 0")
  case False
  define L where "L = nat_len p"
  have L: "2 ^ (L - 1) \<le> p" "p < 2 ^ L" "0 < L"
    using nat_len_bounds [of p] False by (auto simp: L_def)
  show ?thesis
  proof (cases "p = 2 ^ 53")
    case True
    have "(2::nat) ^ (L - 1) \<le> 2 ^ 53" and "(2::nat) ^ 53 < 2 ^ L" using L True by simp_all
    then have "L - 1 \<le> 53" and "53 < L"
      using power_le_imp_le_exp [of "2::nat" "L - 1" 53]
        power_less_imp_less_exp [of "2::nat" 53 L] by simp_all
    then have "nat_len 9007199254740992 = 54" using True by (simp add: L_def)
    with True show ?thesis
      by (simp add: round_dbl_def exact_int_def scaled_def half_even_def Let_def)
  next
    case ne: False
    with assms have lt: "p < 2 ^ 53" by simp
    have L53: "L \<le> 53"
    proof (rule ccontr)
      assume "\<not> L \<le> 53"
      then have "(2::nat) ^ 53 \<le> 2 ^ (L - 1)" by (intro power_increasing) auto
      with L(1) lt show False by simp
    qed
    define k where "k = 53 - L"
    have Lk: "L = 53 - k" "k \<le> 52" using L53 L(3) by (auto simp: k_def)
    have big: "2 ^ 53 \<le> p * 2 ^ Suc k"
    proof -
      have "(2::nat) ^ 53 = 2 ^ (L - 1) * 2 ^ Suc k"
        using Lk by (simp flip: power_add)
      also have "\<dots> \<le> p * 2 ^ Suc k" using L(1) by (rule mult_le_mono1)
      finally show ?thesis .
    qed
    have small: "p * 2 ^ k < 2 ^ 53"
    proof -
      have "p * 2 ^ k < 2 ^ L * 2 ^ k" using L(2) by simp
      also have "\<dots> = 2 ^ 53" using Lk by (simp flip: power_add)
      finally show ?thesis .
    qed
    define E where "E = - int (Suc k)"
    have e0: "int (nat_len p) - int (nat_len 1) - 53 = E"
      using Lk by (simp add: L_def [symmetric] E_def)
    have s0: "scaled p 1 E = (p * 2 ^ Suc k, 1)" by (simp add: scaled_def E_def del: of_nat_Suc)
    have e1: "E + 1 = - int k" "max (- int k) (-1074) = - int k"
      using Lk by (simp_all add: E_def)
    have s1: "scaled p (Suc 0) (- int k) = (p * 2 ^ k, Suc 0)" by (simp add: scaled_def)
    have m: "half_even (p * 2 ^ k) (Suc 0) = p * 2 ^ k" using half_even_exact [of 1 "p * 2 ^ k"] by simp
    have "round_dbl neg p 1 = DFin neg (p * 2 ^ k) (- int k)"
      using False big small Lk unfolding round_dbl_def e0 s0 Let_def prod.case
      by (simp add: e1 s1 m)
    moreover have "exact_int neg p = DFin neg (p * 2 ^ k) (- int k)"
      using False ne Lk by (simp add: exact_int_def L_def [symmetric])
    ultimately show ?thesis by simp
  qed
qed (simp add: round_dbl_def exact_int_def)

lemma nat_len_le_53: "p \<le> 2 ^ 53 \<Longrightarrow> p \<noteq> 2 ^ 53 \<Longrightarrow> nat_len p \<le> 53"
proof (rule ccontr)
  assume p: "p \<le> 2 ^ 53" "p \<noteq> 2 ^ 53" and l: "\<not> nat_len p \<le> 53"
  have "p \<noteq> 0"
  proof
    assume "p = 0"
    then have "nat_len p = 0" by (simp add: nat_len.simps)
    with l show False by simp
  qed
  then have "2 ^ (nat_len p - 1) \<le> p" using nat_len_bounds by blast
  moreover have "(2::nat) ^ 53 \<le> 2 ^ (nat_len p - 1)" using l by (intro power_increasing) auto
  ultimately show False using p by simp
qed

lemma exact_int_facts:
  assumes "p \<le> 2 ^ 53"
  shows "is_integral (exact_int neg p)"
    and "trunc_val (exact_int neg p) = (if neg then - int p else int p)"
proof -
  define k where "k = 53 - nat_len p"
  have e: "int (nat_len p) - 53 = - int k" if "p \<noteq> 2 ^ 53"
    using nat_len_le_53 [OF assms that] by (simp add: k_def)
  show "is_integral (exact_int neg p)"
    using e by (auto simp: exact_int_def is_integral_def k_def [symmetric])
  show "trunc_val (exact_int neg p) = (if neg then - int p else int p)"
    using e by (auto simp: exact_int_def trunc_val_def k_def [symmetric])
qed

lemma dbl_of_int_exact:
  assumes "\<bar>i\<bar> \<le> 2 ^ 53"
  shows "dbl_of_int i = exact_int (i < 0) (nat \<bar>i\<bar>)"
    and "is_integral (dbl_of_int i)" and "trunc_val (dbl_of_int i) = i"
proof -
  have "nat \<bar>i\<bar> \<le> 2 ^ 53" using assms by (simp add: nat_le_iff)
  then show "dbl_of_int i = exact_int (i < 0) (nat \<bar>i\<bar>)"
    and "is_integral (dbl_of_int i)" and "trunc_val (dbl_of_int i) = i"
    using round_exact_int [of "nat \<bar>i\<bar>"] exact_int_facts [of "nat \<bar>i\<bar>"]
    by (simp_all add: dbl_of_int_def)
qed

lemma dbl_of_int_finite: "\<bar>i\<bar> \<le> 2 ^ 53 \<Longrightarrow> \<exists>s m e. dbl_of_int i = DFin s m e"
  by (auto simp: dbl_of_int_exact(1) exact_int_def)

lemma dbl_to_int_of_int:
  assumes "- (2 ^ 31) \<le> i" and "i < 2 ^ 31"
  shows "dbl_to_int (dbl_of_int i) = Some i"
proof -
  have b: "\<bar>i\<bar> \<le> 2 ^ 53" using assms by simp
  from dbl_of_int_finite [OF b] obtain s m e where "dbl_of_int i = DFin s m e" by blast
  with dbl_of_int_exact(3) [OF b] assms show ?thesis by (simp add: dbl_to_int_def Let_def)
qed

subsection \<open>Printed integers read back\<close>

definition num_stop :: "string \<Rightarrow> bool" where
  "num_stop r \<longleftrightarrow>
     (case r of [] \<Rightarrow> True
      | c # _ \<Rightarrow> \<not> is_digit c \<and> c \<noteq> CHR ''.'' \<and> c \<noteq> CHR ''e'' \<and> c \<noteq> CHR ''E'')"

lemma takeWhile_digits:
  "(\<forall>c \<in> set a. is_digit c) \<Longrightarrow> num_stop r \<Longrightarrow>
     takeWhile is_digit (a @ r) = a \<and> dropWhile is_digit (a @ r) = r"
  by (cases r) (auto simp: num_stop_def takeWhile_append dropWhile_append)

lemma strtod_nat:
  assumes "num_stop r"
  shows "strtod (to_string n @ r) = Some (round_dbl False n 1, r)"
    and "strtod (CHR ''-'' # to_string n @ r) = Some (round_dbl True n 1, r)"
proof -
  have tw: "takeWhile is_digit (to_string n @ r) = to_string n"
    "dropWhile is_digit (to_string n @ r) = r"
    using takeWhile_digits [of "to_string n" r] assms to_string_digits by auto
  obtain c cs where c: "to_string n = c # cs" "is_digit c"
    by (metis list.exhaust list.set_intros(1) to_string_digits to_string_nonempty)
  then have sg: "str_sign (to_string n @ r) = (False, to_string n @ r)"
    by (auto simp: str_sign_def is_digit_def in_range_def)
  have ex: "str_exponent r = (0, r)" using assms
    by (auto simp: str_exponent_def num_stop_def split: list.splits)
  have dot: "str_fraction r = ([], r)"
    using assms by (auto simp: str_fraction_def num_stop_def split: list.splits)
  show "strtod (to_string n @ r) = Some (round_dbl False n 1, r)"
    by (simp add: strtod_def sg tw dot ex)
  have sg': "str_sign (CHR ''-'' # to_string n @ r) = (True, to_string n @ r)"
    by (simp add: str_sign_def)
  show "strtod (CHR ''-'' # to_string n @ r) = Some (round_dbl True n 1, r)"
    by (simp add: strtod_def sg' tw dot ex)
qed

lemma strtod_int: "num_stop r \<Longrightarrow> strtod (int_to_string i @ r) = Some (dbl_of_int i, r)"
  by (simp add: int_to_string_def strtod_nat dbl_of_int_def)

end
