(* ===== verification/Json.thy ===== *)
theory Json
  imports Double
begin

text \<open>
  \<^verbatim>\<open>core/src/vc_json.cpp\<close> (with \<^verbatim>\<open>vc_json.h\<close>): the JSON value, its accessors and builders, the
  recursive-descent parser and the writer. The parser's cursor \<^verbatim>\<open>ps.p\<close> is the list of the
  characters up to \<^verbatim>\<open>ps.end\<close>. A failed parse is \<open>Reject\<close>; the recursion is bounded by a fuel
  argument, and running out of it is the separate outcome \<open>NoFuel\<close>, which
  \<open>parse_value_fuel\<close> excludes for the fuel \<open>json_parse\<close> starts with.
  The class keeps all payload fields in one object and every caller sets members only on
  objects and adds elements only to arrays; on other values \<open>json_set\<close> and \<open>json_add\<close>
  change nothing that an accessor or the writer would show.
\<close>

subsection \<open>Values, accessors, builders\<close>

datatype json =
  JNull
| JBool bool
| JNumber dbl
| JString string
| JArray "json list"
| JObject "(string \<times> json) list"

definition is_string :: "json \<Rightarrow> bool" where
  "is_string j = (case j of JString _ \<Rightarrow> True | _ \<Rightarrow> False)"

definition as_bool :: "json \<Rightarrow> bool \<Rightarrow> bool" where
  "as_bool j def = (case j of JBool b \<Rightarrow> b | _ \<Rightarrow> def)"

definition as_number :: "json \<Rightarrow> dbl \<Rightarrow> dbl" where
  "as_number j def = (case j of JNumber n \<Rightarrow> n | _ \<Rightarrow> def)"

definition as_string :: "json \<Rightarrow> string \<Rightarrow> string" where
  "as_string j def = (case j of JString s \<Rightarrow> s | _ \<Rightarrow> def)"

fun find_member :: "(string \<Rightarrow> bool) \<Rightarrow> (string \<times> json) list \<Rightarrow> json option" where
  "find_member p [] = None"
| "find_member p ((k, v) # ms) = (if p k then Some v else find_member p ms)"

definition json_find :: "json \<Rightarrow> string \<Rightarrow> json option" where
  "json_find j key = (case j of JObject ms \<Rightarrow> find_member (\<lambda>k. k = key) ms | _ \<Rightarrow> None)"

definition find_ci :: "json \<Rightarrow> string \<Rightarrow> json option" where
  "find_ci j key = (case j of JObject ms \<Rightarrow> find_member (\<lambda>k. iequals k key) ms | _ \<Rightarrow> None)"

definition get_str :: "json \<Rightarrow> string \<Rightarrow> string \<Rightarrow> string" where
  "get_str j key def = (case find_ci j key of Some (JString s) \<Rightarrow> s | _ \<Rightarrow> def)"

definition get_num :: "json \<Rightarrow> string \<Rightarrow> dbl \<Rightarrow> dbl" where
  "get_num j key def = (case find_ci j key of Some (JNumber n) \<Rightarrow> n | _ \<Rightarrow> def)"

definition get_bool :: "json \<Rightarrow> string \<Rightarrow> bool \<Rightarrow> bool" where
  "get_bool j key def = (case find_ci j key of Some (JBool b) \<Rightarrow> b | _ \<Rightarrow> def)"

definition json_size :: "json \<Rightarrow> nat" where
  "json_size j = (case j of JArray es \<Rightarrow> length es | JObject ms \<Rightarrow> length ms | _ \<Rightarrow> 0)"

definition json_set :: "json \<Rightarrow> string \<Rightarrow> json \<Rightarrow> json" where
  "json_set j key v = (case j of JObject ms \<Rightarrow> JObject (ms @ [(key, v)]) | _ \<Rightarrow> j)"

definition json_add :: "json \<Rightarrow> json \<Rightarrow> json" where
  "json_add j v = (case j of JArray es \<Rightarrow> JArray (es @ [v]) | _ \<Rightarrow> j)"

subsection \<open>Strings: UTF-8, hex escapes, literals\<close>

definition kMaxDepth :: nat where
  "kMaxDepth = 128"

definition is_ws :: "char \<Rightarrow> bool" where
  "is_ws c \<longleftrightarrow> c = CHR '' '' \<or> c = CHR 0x09 \<or> c = CHR 0x0D \<or> c = CHR 0x0A"

definition skip_ws :: "string \<Rightarrow> string" where
  "skip_ws s = dropWhile is_ws s"

definition low_char :: "u32 \<Rightarrow> char" where
  "low_char w = chr (ucast w)"

definition append_utf8 :: "u32 \<Rightarrow> string" where
  "append_utf8 cp =
     (if cp < 0x80 then [low_char cp]
      else if cp < 0x800
      then [low_char (0xC0 OR drop_bit 6 cp), low_char (0x80 OR (cp AND 0x3F))]
      else if cp < 0x10000
      then [low_char (0xE0 OR drop_bit 12 cp), low_char (0x80 OR (drop_bit 6 cp AND 0x3F)),
            low_char (0x80 OR (cp AND 0x3F))]
      else [low_char (0xF0 OR drop_bit 18 cp), low_char (0x80 OR (drop_bit 12 cp AND 0x3F)),
            low_char (0x80 OR (drop_bit 6 cp AND 0x3F)), low_char (0x80 OR (cp AND 0x3F))])"

definition hex_digit :: "char \<Rightarrow> u32 option" where
  "hex_digit c =
     (if in_range CHR ''0'' CHR ''9'' c then Some (word_of_nat (ord c - ord CHR ''0''))
      else if in_range CHR ''a'' CHR ''f'' c then Some (word_of_nat (ord c - ord CHR ''a'' + 10))
      else if in_range CHR ''A'' CHR ''F'' c then Some (word_of_nat (ord c - ord CHR ''A'' + 10))
      else None)"

fun hex_loop :: "u32 \<Rightarrow> string \<Rightarrow> u32 option" where
  "hex_loop v [] = Some v"
| "hex_loop v (c # cs) =
     (case hex_digit c of None \<Rightarrow> None | Some d \<Rightarrow> hex_loop (push_bit 4 v OR d) cs)"

definition parse_hex4 :: "string \<Rightarrow> (u32 \<times> string) option" where
  "parse_hex4 s =
     (if length s < 4 then None
      else case hex_loop 0 (take 4 s) of None \<Rightarrow> None | Some v \<Rightarrow> Some (v, drop 4 s))"

text \<open>The \<^verbatim>\<open>case 'u'\<close> of the escape switch, cursor behind the \<^verbatim>\<open>u\<close>.\<close>

definition parse_unicode :: "string \<Rightarrow> (u32 \<times> string) option" where
  "parse_unicode s =
     (case parse_hex4 s of
        None \<Rightarrow> None
      | Some (cp, s) \<Rightarrow>
          if 0xD800 \<le> cp \<and> cp \<le> 0xDBFF
          then (if length s < 6 \<or> s ! 0 \<noteq> CHR 0x5C \<or> s ! 1 \<noteq> CHR ''u'' then None
                else (case parse_hex4 (drop 2 s) of
                        None \<Rightarrow> None
                      | Some (lo, s) \<Rightarrow>
                          if lo < 0xDC00 \<or> lo > 0xDFFF then None
                          else Some (0x10000 + push_bit 10 (cp - 0xD800) + (lo - 0xDC00), s)))
          else if 0xDC00 \<le> cp \<and> cp \<le> 0xDFFF then None
          else Some (cp, s))"

lemma parse_hex4_length: "parse_hex4 s = Some (v, r) \<Longrightarrow> length s = length r + 4"
  by (auto simp: parse_hex4_def split: if_splits option.splits)

lemma parse_unicode_length: "parse_unicode s = Some (v, r) \<Longrightarrow> length r < length s"
  by (auto simp: parse_unicode_def split: if_splits option.splits dest!: parse_hex4_length)

definition simple_escape :: "char \<Rightarrow> char option" where
  "simple_escape e =
     (if e = CHR 0x22 then Some CHR 0x22
      else if e = CHR 0x5C then Some CHR 0x5C
      else if e = CHR ''/'' then Some CHR ''/''
      else if e = CHR ''b'' then Some CHR 0x08
      else if e = CHR ''f'' then Some CHR 0x0C
      else if e = CHR ''n'' then Some CHR 0x0A
      else if e = CHR ''r'' then Some CHR 0x0D
      else if e = CHR ''t'' then Some CHR 0x09
      else None)"

text \<open>The escape switch: the characters appended to \<^verbatim>\<open>out\<close> and the cursor behind the escape.\<close>

definition parse_escape :: "string \<Rightarrow> (string \<times> string) option" where
  "parse_escape s =
     (case s of
        [] \<Rightarrow> None
      | e # r \<Rightarrow>
          if e = CHR ''u''
          then (case parse_unicode r of
                  None \<Rightarrow> None
                | Some (cp, r') \<Rightarrow> Some (append_utf8 cp, r'))
          else (case simple_escape e of
                  None \<Rightarrow> None
                | Some x \<Rightarrow> Some ([x], r)))"

lemma parse_escape_length: "parse_escape s = Some (t, r) \<Longrightarrow> length r < length s"
  by (cases s) (auto simp: parse_escape_def split: if_splits option.splits
      dest!: parse_unicode_length)

function parse_chars :: "string \<Rightarrow> string \<Rightarrow> (string \<times> string) option" where
  "parse_chars out [] = None"
| "parse_chars out (c # cs) =
     (if c = CHR 0x22 then Some (out, cs)
      else if c = CHR 0x5C
      then (case parse_escape cs of
              None \<Rightarrow> None
            | Some (t, r) \<Rightarrow> parse_chars (out @ t) r)
      else if ord c < 0x20 then None
      else parse_chars (out @ [c]) cs)"
  by pat_completeness auto
termination
  by (relation "measure (\<lambda>(out, s). length s)") (auto dest!: parse_escape_length)

definition parse_string_raw :: "string \<Rightarrow> (string \<times> string) option" where
  "parse_string_raw s =
     (case s of [] \<Rightarrow> None | c # cs \<Rightarrow> if c \<noteq> CHR 0x22 then None else parse_chars [] cs)"

subsection \<open>Numbers\<close>

definition num_char :: "char \<Rightarrow> bool" where
  "num_char c \<longleftrightarrow>
     is_digit c \<or> c = CHR ''.'' \<or> c = CHR ''e'' \<or> c = CHR ''E'' \<or> c = CHR ''+'' \<or> c = CHR ''-''"

definition num_token :: "string \<Rightarrow> string" where
  "num_token s =
     (case s of [] \<Rightarrow> []
      | c # cs \<Rightarrow> if c = CHR ''-'' \<or> c = CHR ''+'' then c # takeWhile num_char cs
                 else takeWhile num_char s)"

text \<open>The token is copied to a buffer of 512 bytes for \<^verbatim>\<open>strtod\<close>; \<^verbatim>\<open>endp\<close> is where it stopped.\<close>

definition parse_number :: "string \<Rightarrow> (dbl \<times> string) option" where
  "parse_number s =
     (let buf = num_token s; len = length buf
      in if 0 < len \<and> len < 512
         then (case strtod buf of
                 None \<Rightarrow> None
               | Some (d, rest) \<Rightarrow>
                   if length rest = len then None else Some (d, drop (len - length rest) s))
         else None)"

subsection \<open>The recursive descent\<close>

datatype 'a pres = Done 'a string | Reject | NoFuel

text \<open>The branches of \<^verbatim>\<open>parse_value\<close> other than objects and arrays.\<close>

definition parse_scalar :: "string \<Rightarrow> json pres" where
  "parse_scalar s =
     (if hd s = CHR 0x22
      then (case parse_string_raw s of
              None \<Rightarrow> Reject | Some (t, r) \<Rightarrow> Done (JString t) r)
      else if hd s = CHR ''t'' \<and> prefix ''true'' s then Done (JBool True) (drop 4 s)
      else if hd s = CHR ''f'' \<and> prefix ''false'' s then Done (JBool False) (drop 5 s)
      else if hd s = CHR ''n'' \<and> prefix ''null'' s then Done JNull (drop 4 s)
      else if hd s = CHR ''-'' \<or> is_digit (hd s)
      then (case parse_number s of
              None \<Rightarrow> Reject | Some (d, r) \<Rightarrow> Done (JNumber d) r)
      else Reject)"

text \<open>Is the next character after white space the closing one? Then the cursor moves past it.\<close>

definition closes :: "char \<Rightarrow> string \<Rightarrow> string option" where
  "closes k s =
     (case skip_ws s of [] \<Rightarrow> None | c # r \<Rightarrow> if c = k then Some r else None)"

fun parse_value :: "nat \<Rightarrow> nat \<Rightarrow> string \<Rightarrow> json pres"
  and parse_object :: "nat \<Rightarrow> nat \<Rightarrow> json \<Rightarrow> string \<Rightarrow> json pres"
  and parse_array :: "nat \<Rightarrow> nat \<Rightarrow> json \<Rightarrow> string \<Rightarrow> json pres"
where
  "parse_value 0 depth s = NoFuel"
| "parse_value (Suc fuel) depth s =
     (case skip_ws s of
        [] \<Rightarrow> Reject
      | c # cs \<Rightarrow>
          if depth + 1 > kMaxDepth then Reject
          else if c = CHR ''{''
          then (case closes CHR ''}'' cs of
                  Some r \<Rightarrow> Done (JObject []) r
                | None \<Rightarrow> parse_object fuel (depth + 1) (JObject []) (skip_ws cs))
          else if c = CHR ''[''
          then (case closes CHR '']'' cs of
                  Some r \<Rightarrow> Done (JArray []) r
                | None \<Rightarrow> parse_array fuel (depth + 1) (JArray []) (skip_ws cs))
          else parse_scalar (c # cs))"
| "parse_object 0 depth acc s = NoFuel"
| "parse_object (Suc fuel) depth acc s =
     (case parse_string_raw (skip_ws s) of
        None \<Rightarrow> Reject
      | Some (key, s1) \<Rightarrow>
          (case skip_ws s1 of
             [] \<Rightarrow> Reject
           | c # s2 \<Rightarrow>
               if c \<noteq> CHR '':'' then Reject
               else (case parse_value fuel depth s2 of
                       NoFuel \<Rightarrow> NoFuel
                     | Reject \<Rightarrow> Reject
                     | Done val s3 \<Rightarrow>
                         (case skip_ws s3 of
                            [] \<Rightarrow> Reject
                          | c # r \<Rightarrow>
                              if c = CHR '','' then parse_object fuel depth (json_set acc key val) r
                              else if c = CHR ''}'' then Done (json_set acc key val) r
                              else Reject))))"
| "parse_array 0 depth acc s = NoFuel"
| "parse_array (Suc fuel) depth acc s =
     (case parse_value fuel depth s of
        NoFuel \<Rightarrow> NoFuel
      | Reject \<Rightarrow> Reject
      | Done val s1 \<Rightarrow>
          (case skip_ws s1 of
             [] \<Rightarrow> Reject
           | c # r \<Rightarrow>
               if c = CHR '','' then parse_array fuel depth (json_add acc val) r
               else if c = CHR '']'' then Done (json_add acc val) r
               else Reject))"

text \<open>
  \<^verbatim>\<open>Json::parse\<close>. The fuel is twice the length of the text plus one; were it to run out the
  result would be \<^const>\<open>Fail\<close>, which \<open>json_parse_total\<close> rules out.
\<close>

definition json_parse :: "string \<Rightarrow> json result" where
  "json_parse text =
     (case parse_value (2 * length text + 1) 0 text of
        NoFuel \<Rightarrow> Err Fail
      | Reject \<Rightarrow> Err Protocol
      | Done v r \<Rightarrow> if skip_ws r \<noteq> [] then Err Protocol else Inr v)"

subsection \<open>The writer\<close>

definition hex_lower :: string where
  "hex_lower = ''0123456789abcdef''"

definition escape_char :: "char \<Rightarrow> string" where
  "escape_char c =
     (if c = CHR 0x22 then [CHR 0x5C, CHR 0x22]
      else if c = CHR 0x5C then [CHR 0x5C, CHR 0x5C]
      else if c = CHR 0x08 then [CHR 0x5C, CHR ''b'']
      else if c = CHR 0x0C then [CHR 0x5C, CHR ''f'']
      else if c = CHR 0x0A then [CHR 0x5C, CHR ''n'']
      else if c = CHR 0x0D then [CHR 0x5C, CHR ''r'']
      else if c = CHR 0x09 then [CHR 0x5C, CHR ''t'']
      else if ord c < 0x20
      then [CHR 0x5C, CHR ''u'', CHR ''0'', CHR ''0'', hex_lower ! (ord c div 16),
            hex_lower ! (ord c mod 16)]
      else [c])"

definition json_escape :: "string \<Rightarrow> string" where
  "json_escape s = [CHR 0x22] @ concat (map escape_char s) @ [CHR 0x22]"

definition write_number :: "dbl \<Rightarrow> string" where
  "write_number n =
     (case n of
        DNaN \<Rightarrow> ''null''
      | DInf _ \<Rightarrow> ''null''
      | DFin s m e \<Rightarrow>
          if is_integral n \<and> - (2 ^ 53) \<le> trunc_val n \<and> trunc_val n \<le> 2 ^ 53
          then int_to_string (trunc_val n)
          else (if s then ''-'' else []) @
               (if 0 \<le> e then fmt_17g (m * 2 ^ nat e) 1 else fmt_17g m (2 ^ nat (- e))))"

fun intercalate :: "string \<Rightarrow> string list \<Rightarrow> string" where
  "intercalate sep [] = []"
| "intercalate sep [x] = x"
| "intercalate sep (x # y # ys) = x @ sep @ intercalate sep (y # ys)"

fun dump :: "json \<Rightarrow> string" where
  "dump JNull = ''null''"
| "dump (JBool b) = (if b then ''true'' else ''false'')"
| "dump (JNumber n) = write_number n"
| "dump (JString s) = json_escape s"
| "dump (JArray es) = ''['' @ intercalate '','' (map dump es) @ '']''"
| "dump (JObject ms) =
     ''{'' @ intercalate '','' (map (\<lambda>(k, v). json_escape k @ '':'' @ dump v) ms) @ ''}''"

end
