(* ===== verification/Json_Facts.thy ===== *)
theory Json_Facts
  imports Json Codec
begin

text \<open>
  What holds of \<^verbatim>\<open>vc_json.cpp\<close>: the parser always has enough fuel, consumes input and
  respects the depth limit; escaped strings and dumped documents read back; lookups after
  \<^verbatim>\<open>set\<close>.
\<close>

subsection \<open>Progress and fuel\<close>

lemma length_skip_ws: "length (skip_ws s) \<le> length s"
  by (simp add: skip_ws_def length_dropWhile_le)

lemma skip_ws_Cons: "skip_ws s = c # r \<Longrightarrow> length r < length s"
  using length_skip_ws [of s] by simp

lemma parse_chars_plain:
  "c \<noteq> CHR 0x22 \<Longrightarrow> c \<noteq> CHR 0x5C \<Longrightarrow> \<not> ord c < 0x20 \<Longrightarrow>
   parse_chars out (c # cs) = parse_chars (out @ [c]) cs"
  by simp

lemma parse_chars_esc:
  "parse_chars out (CHR 0x5C # cs) =
     (case parse_escape cs of
        None \<Rightarrow> None
      | Some (t, r) \<Rightarrow> parse_chars (out @ t) r)"
  by (simp del: of_char_def)

lemma parse_chars_quote: "parse_chars out (CHR 0x22 # cs) = Some (out, cs)"
  by simp

lemma parse_chars_length: "parse_chars out s = Some (t, r) \<Longrightarrow> length r < length s"
proof (induction out s rule: parse_chars.induct)
  case (2 out c cs)
  consider "c = CHR 0x22" | "c = CHR 0x5C"
    | "c \<noteq> CHR 0x22" "c \<noteq> CHR 0x5C" "\<not> ord c < 0x20"
    | "c \<noteq> CHR 0x22" "c \<noteq> CHR 0x5C" "ord c < 0x20"
    by blast
  then show ?case
  proof cases
    case 1
    then show ?thesis using "2.prems" by (simp only: parse_chars_quote) simp
  next
    case c: 2
    with "2.prems" obtain t' r' where e: "parse_escape cs = Some (t', r')"
      "parse_chars (out @ t') r' = Some (t, r)"
      by (auto simp only: parse_chars_esc split: option.splits prod.splits)
    have "c \<noteq> CHR 0x22" using c by simp
    from "2.IH"(1) [OF this c e(1) refl e(2)] parse_escape_length [OF e(1)] show ?thesis by simp
  next
    case 3
    have "parse_chars (out @ [c]) cs = Some (t, r)"
      using "2.prems" by (simp only: parse_chars_plain [OF 3])
    from "2.IH"(2) [OF 3 this] show ?thesis by simp
  next
    case 4
    then show ?thesis using "2.prems" by simp
  qed
qed simp

lemma parse_string_raw_length: "parse_string_raw s = Some (t, r) \<Longrightarrow> length r < length s"
  by (auto simp: parse_string_raw_def split: list.splits if_splits dest!: parse_chars_length)

lemma num_token_prefix: "prefix (num_token s) s"
proof (cases s)
  case (Cons c cs)
  show ?thesis using takeWhile_is_prefix [of num_char cs] takeWhile_is_prefix [of num_char s]
    unfolding Cons num_token_def list.case by (split if_split) simp
qed (simp add: num_token_def)

lemma str_sign_length: "length (snd (str_sign s)) \<le> length s"
  by (simp add: str_sign_def split: list.split)

lemma str_exponent_length: "length (snd (str_exponent s)) \<le> length s"
proof (cases s)
  case (Cons c cs)
  obtain neg t where t: "str_sign cs = (neg, t)" by fastforce
  have "length (dropWhile is_digit t) \<le> length cs"
    using str_sign_length [of cs] length_dropWhile_le [of is_digit t] t by simp
  then show ?thesis using Cons t by (simp add: str_exponent_def Let_def)
qed (simp add: str_exponent_def)

lemma str_fraction_length: "str_fraction s = (fp, t) \<Longrightarrow> length t + length fp \<le> length s"
proof (cases s)
  case (Cons c cs)
  assume "str_fraction s = (fp, t)"
  moreover have "length (dropWhile is_digit cs) + length (takeWhile is_digit cs) = length cs"
    by (metis add.commute length_append takeWhile_dropWhile_id)
  ultimately show ?thesis using Cons by (auto simp: str_fraction_def split: if_splits)
qed (simp add: str_fraction_def)

lemma strtod_length: "strtod s = Some (d, r) \<Longrightarrow> length r < length s"
proof -
  assume st: "strtod s = Some (d, r)"
  obtain neg s1 where s1: "str_sign s = (neg, s1)" by fastforce
  obtain fp s3 where s3: "str_fraction (dropWhile is_digit s1) = (fp, s3)" by fastforce
  obtain ex s4 where s4: "str_exponent s3 = (ex, s4)" by fastforce
  have len1: "length s1 \<le> length s"
    using s1 str_sign_length [of s] by simp
  have len2: "length s1 = length (takeWhile is_digit s1) + length (dropWhile is_digit s1)"
    by (metis length_append takeWhile_dropWhile_id)
  have r: "r = s4" and ne: "takeWhile is_digit s1 \<noteq> [] \<or> fp \<noteq> []"
    using st s1 s3 s4 by (simp_all add: strtod_def Let_def split: if_splits)
  have "length r \<le> length s3" using str_exponent_length [of s3] r s4 by simp
  with ne len1 len2 str_fraction_length [OF s3] show ?thesis
    by (cases "takeWhile is_digit s1"; cases fp) auto
qed

lemma parse_number_length: "parse_number s = Some (d, r) \<Longrightarrow> length r < length s"
  using prefix_length_le [OF num_token_prefix, of s]
  by (auto simp: parse_number_def Let_def split: if_splits option.splits dest!: strtod_length)

lemma prefix_drop_length:
  "prefix p s \<Longrightarrow> p \<noteq> [] \<Longrightarrow> length (drop (length p) s) < length s"
  using prefix_length_le [of p s] by (cases p) auto

lemma if_Done: "(if b then x else y) = Done v r \<Longrightarrow> (b \<and> x = Done v r) \<or> (\<not> b \<and> y = Done v r)"
  by (simp split: if_splits)

lemma parse_scalar_cases:
  "parse_scalar s = Done v r \<Longrightarrow>
     (\<exists>t. parse_string_raw s = Some (t, r)) \<or> prefix ''true'' s \<and> r = drop 4 s \<or>
     prefix ''false'' s \<and> r = drop 5 s \<or> prefix ''null'' s \<and> r = drop 4 s \<or>
     (\<exists>d. parse_number s = Some (d, r))"
  unfolding parse_scalar_def
  apply (drule if_Done, elim disjE conjE)
   apply (simp split: option.split_asm prod.split_asm)
  apply (drule if_Done, elim disjE conjE)
   apply simp
  apply (drule if_Done, elim disjE conjE)
   apply simp
  apply (drule if_Done, elim disjE conjE)
   apply simp
  apply (drule if_Done, elim disjE conjE)
   apply (simp_all split: option.split_asm prod.split_asm)
  done

lemma parse_scalar_length: "parse_scalar s = Done v r \<Longrightarrow> length r < length s"
  using prefix_drop_length [of "''true''" s] prefix_drop_length [of "''null''" s]
    prefix_drop_length [of "''false''" s]
  by (drule_tac parse_scalar_cases)
    (elim disjE exE conjE; simp add: parse_string_raw_length parse_number_length)

lemma closes_length: "closes k s = Some r \<Longrightarrow> length r < length s"
  by (auto simp: closes_def split: list.splits if_splits dest!: skip_ws_Cons)

lemma parse_value_Done:
  assumes "parse_value (Suc fuel) depth s = Done v r"
  obtains c cs where "skip_ws s = c # cs" "depth + 1 \<le> kMaxDepth"
      "c = CHR ''{''" "closes CHR ''}'' cs = Some r"
  | c cs where "skip_ws s = c # cs" "depth + 1 \<le> kMaxDepth"
      "c = CHR ''{''" "closes CHR ''}'' cs = None"
      "parse_object fuel (depth + 1) (JObject []) (skip_ws cs) = Done v r"
  | c cs where "skip_ws s = c # cs" "depth + 1 \<le> kMaxDepth"
      "c = CHR ''[''" "closes CHR '']'' cs = Some r"
  | c cs where "skip_ws s = c # cs" "depth + 1 \<le> kMaxDepth"
      "c \<noteq> CHR ''{''" "c = CHR ''[''" "closes CHR '']'' cs = None"
      "parse_array fuel (depth + 1) (JArray []) (skip_ws cs) = Done v r"
  | c cs where "skip_ws s = c # cs" "depth + 1 \<le> kMaxDepth" "parse_scalar (c # cs) = Done v r"
proof (cases "skip_ws s")
  case Nil
  then show ?thesis using assms by simp
next
  case (Cons c cs)
  note st = assms [unfolded parse_value.simps Cons list.case]
  from if_Done [OF st] have d: "depth + 1 \<le> kMaxDepth" and
    "(if c = CHR ''{''
      then (case closes CHR ''}'' cs of Some r \<Rightarrow> Done (JObject []) r
            | None \<Rightarrow> parse_object fuel (depth + 1) (JObject []) (skip_ws cs))
      else if c = CHR ''[''
      then (case closes CHR '']'' cs of Some r \<Rightarrow> Done (JArray []) r
            | None \<Rightarrow> parse_array fuel (depth + 1) (JArray []) (skip_ws cs))
      else parse_scalar (c # cs)) = Done v r" by auto
  from this(2) [THEN if_Done] show ?thesis
  proof (elim disjE conjE)
    assume "c = CHR ''{''" "(case closes CHR ''}'' cs of Some r \<Rightarrow> Done (JObject []) r
            | None \<Rightarrow> parse_object fuel (depth + 1) (JObject []) (skip_ws cs)) = Done v r"
    then show ?thesis
      by (cases "closes CHR ''}'' cs") (use that(1,2) Cons d in \<open>simp_all\<close>)
  next
    assume ne: "c \<noteq> CHR ''{''" and "(if c = CHR ''[''
      then (case closes CHR '']'' cs of Some r \<Rightarrow> Done (JArray []) r
            | None \<Rightarrow> parse_array fuel (depth + 1) (JArray []) (skip_ws cs))
      else parse_scalar (c # cs)) = Done v r"
    from this(2) [THEN if_Done] show ?thesis
    proof (elim disjE conjE)
      assume "c = CHR ''[''" "(case closes CHR '']'' cs of Some r \<Rightarrow> Done (JArray []) r
            | None \<Rightarrow> parse_array fuel (depth + 1) (JArray []) (skip_ws cs)) = Done v r"
      then show ?thesis
        by (cases "closes CHR '']'' cs") (use that(3,4) Cons d ne in \<open>simp_all\<close>)
    qed (use that(5) Cons d in blast)
  qed
qed

lemma parse_object_Done:
  assumes "parse_object (Suc fuel) depth acc s = Done v r"
  obtains key s1 s2 val s3 r' where "parse_string_raw (skip_ws s) = Some (key, s1)"
      "skip_ws s1 = CHR '':'' # s2" "parse_value fuel depth s2 = Done val s3"
      "skip_ws s3 = CHR '','' # r'" "parse_object fuel depth (json_set acc key val) r' = Done v r"
  | key s1 s2 val s3 where "parse_string_raw (skip_ws s) = Some (key, s1)"
      "skip_ws s1 = CHR '':'' # s2" "parse_value fuel depth s2 = Done val s3"
      "skip_ws s3 = CHR ''}'' # r" "v = json_set acc key val"
proof -
  note st = assms [unfolded parse_object.simps]
  from st obtain key s1 where 1: "parse_string_raw (skip_ws s) = Some (key, s1)"
    by (cases "parse_string_raw (skip_ws s)") auto
  note st = st [unfolded 1 option.case prod.case]
  from st obtain c s2 where c: "skip_ws s1 = c # s2" by (cases "skip_ws s1") auto
  note st = st [unfolded c list.case]
  from if_Done [OF st] have c': "c = CHR '':''" and "(case parse_value fuel depth s2 of
      NoFuel \<Rightarrow> NoFuel | Reject \<Rightarrow> Reject
    | Done val s3 \<Rightarrow> (case skip_ws s3 of [] \<Rightarrow> Reject
         | c # r \<Rightarrow> if c = CHR '','' then parse_object fuel depth (json_set acc key val) r
                  else if c = CHR ''}'' then Done (json_set acc key val) r
                  else Reject)) = Done v r" by auto
  note st = this(2)
  from st obtain val s3 where v: "parse_value fuel depth s2 = Done val s3"
    by (cases "parse_value fuel depth s2") auto
  note st = st [unfolded v pres.case]
  from st obtain d r' where d: "skip_ws s3 = d # r'" by (cases "skip_ws s3") auto
  note st = st [unfolded d list.case]
  from if_Done [OF st] show ?thesis
  proof (elim disjE conjE)
    assume "d = CHR '',''" "parse_object fuel depth (json_set acc key val) r' = Done v r"
    with that(1) [OF 1 _ v] c c' d show ?thesis by simp
  next
    assume "(if d = CHR ''}'' then Done (json_set acc key val) r' else Reject) = Done v r"
    from if_Done [OF this] have "d = CHR ''}''" "v = json_set acc key val" "r' = r" by auto
    with that(2) [OF 1 _ v] c c' d show ?thesis by simp
  qed
qed

lemma parse_array_Done:
  assumes "parse_array (Suc fuel) depth acc s = Done v r"
  obtains val s1 r' where "parse_value fuel depth s = Done val s1"
      "skip_ws s1 = CHR '','' # r'" "parse_array fuel depth (json_add acc val) r' = Done v r"
  | val s1 where "parse_value fuel depth s = Done val s1"
      "skip_ws s1 = CHR '']'' # r" "v = json_add acc val"
proof -
  note st = assms [unfolded parse_array.simps]
  from st obtain val s1 where v: "parse_value fuel depth s = Done val s1"
    by (cases "parse_value fuel depth s") auto
  note st = st [unfolded v pres.case]
  from st obtain d r' where d: "skip_ws s1 = d # r'" by (cases "skip_ws s1") auto
  note st = st [unfolded d list.case]
  from if_Done [OF st] show ?thesis
  proof (elim disjE conjE)
    assume "d = CHR '',''" "parse_array fuel depth (json_add acc val) r' = Done v r"
    with that(1) [OF v] d show ?thesis by simp
  next
    assume "(if d = CHR '']'' then Done (json_add acc val) r' else Reject) = Done v r"
    from if_Done [OF this] have "d = CHR '']''" "v = json_add acc val" "r' = r" by auto
    with that(2) [OF v] d show ?thesis by simp
  qed
qed

lemma parse_progress:
  "parse_value fuel depth s = Done v r \<Longrightarrow> length r < length s"
  "parse_object fuel depth acc s = Done v r \<Longrightarrow> length r < length s"
  "parse_array fuel depth acc s = Done v r \<Longrightarrow> length r < length s"
proof (induction fuel arbitrary: depth s v r acc)
  case (Suc fuel)
  {
    case 1
    then show ?case
    proof (cases rule: parse_value_Done)
      case (1 c cs)
      then show ?thesis using closes_length [OF 1(4)] skip_ws_Cons [OF 1(1)] by simp
    next
      case (2 c cs)
      then show ?thesis
        using Suc(2) [OF 2(5)] skip_ws_Cons [OF 2(1)] length_skip_ws [of cs] by simp
    next
      case (3 c cs)
      then show ?thesis using closes_length [OF 3(4)] skip_ws_Cons [OF 3(1)] by simp
    next
      case (4 c cs)
      then show ?thesis
        using Suc(3) [OF 4(6)] skip_ws_Cons [OF 4(1)] length_skip_ws [of cs] by simp
    next
      case (5 c cs)
      then show ?thesis
        using parse_scalar_length [OF 5(3)] length_skip_ws [of s] by simp
    qed
  next
    case 2
    then show ?case
    proof (cases rule: parse_object_Done)
      case (1 key s1 s2 val s3 r')
      then show ?thesis
        using parse_string_raw_length [OF 1(1)] skip_ws_Cons [OF 1(2)] Suc(1) [OF 1(3)]
          skip_ws_Cons [OF 1(4)] Suc(2) [OF 1(5)] length_skip_ws [of s] by simp
    next
      case (2 key s1 s2 val s3)
      then show ?thesis
        using parse_string_raw_length [OF 2(1)] skip_ws_Cons [OF 2(2)] Suc(1) [OF 2(3)]
          skip_ws_Cons [OF 2(4)] length_skip_ws [of s] by simp
    qed
  next
    case 3
    then show ?case
    proof (cases rule: parse_array_Done)
      case (1 val s1 r')
      then show ?thesis
        using Suc(1) [OF 1(1)] skip_ws_Cons [OF 1(2)] Suc(3) [OF 1(3)] by simp
    next
      case (2 val s1)
      then show ?thesis using Suc(1) [OF 2(1)] skip_ws_Cons [OF 2(2)] by simp
    qed
  }
qed simp_all

lemma if_NoFuel:
  "(if b then x else y) = NoFuel \<Longrightarrow> (b \<and> x = NoFuel) \<or> (\<not> b \<and> y = NoFuel)"
  by (simp split: if_splits)

lemma parse_scalar_fuel: "parse_scalar s \<noteq> NoFuel"
proof
  assume "parse_scalar s = NoFuel"
  then show False
    unfolding parse_scalar_def
    by (elim if_NoFuel [elim_format] disjE conjE)
      (simp_all split: option.split_asm prod.split_asm)
qed

lemma parse_value_NoFuel:
  assumes "parse_value (Suc fuel) depth s = NoFuel"
  obtains c cs where "skip_ws s = c # cs"
      "parse_object fuel (depth + 1) (JObject []) (skip_ws cs) = NoFuel"
  | c cs where "skip_ws s = c # cs" "parse_array fuel (depth + 1) (JArray []) (skip_ws cs) = NoFuel"
proof (cases "skip_ws s")
  case (Cons c cs)
  note st = assms [unfolded parse_value.simps Cons list.case]
  show ?thesis
    using st
  proof (elim if_NoFuel [elim_format] disjE conjE)
    assume "(case closes CHR ''}'' cs of Some r \<Rightarrow> Done (JObject []) r
            | None \<Rightarrow> parse_object fuel (depth + 1) (JObject []) (skip_ws cs)) = NoFuel"
    then show ?thesis by (cases "closes CHR ''}'' cs") (use that(1) Cons in auto)
  next
    assume "(case closes CHR '']'' cs of Some r \<Rightarrow> Done (JArray []) r
            | None \<Rightarrow> parse_array fuel (depth + 1) (JArray []) (skip_ws cs)) = NoFuel"
    then show ?thesis by (cases "closes CHR '']'' cs") (use that(2) Cons in auto)
  qed (simp_all add: parse_scalar_fuel)
qed (use assms in simp)

lemma parse_object_NoFuel:
  assumes "parse_object (Suc fuel) depth acc s = NoFuel"
  obtains s2 where "length s2 + 2 \<le> length s" "parse_value fuel depth s2 = NoFuel"
  | val r' where "length r' < length s" "parse_object fuel depth val r' = NoFuel"
proof -
  note st = assms [unfolded parse_object.simps]
  from st obtain key s1 where 1: "parse_string_raw (skip_ws s) = Some (key, s1)"
    by (cases "parse_string_raw (skip_ws s)") auto
  note st = st [unfolded 1 option.case prod.case]
  from st obtain c s2 where c: "skip_ws s1 = c # s2" by (cases "skip_ws s1") auto
  note st = st [unfolded c list.case]
  have len: "length s2 + 2 \<le> length s"
    using parse_string_raw_length [OF 1] skip_ws_Cons [OF c] length_skip_ws [of s] by simp
  show ?thesis
  proof (cases "parse_value fuel depth s2")
    case NoFuel
    with that(1) len show ?thesis by blast
  next
    case Reject
    with st show ?thesis by (simp split: if_splits)
  next
    case (Done val s3)
    note st = st [unfolded Done pres.case]
    from st obtain d r' where d: "skip_ws s3 = d # r'"
      by (cases "skip_ws s3") (auto split: if_splits)
    note st = st [unfolded d list.case]
    have "length r' < length s"
      using len parse_progress(1) [OF Done] skip_ws_Cons [OF d] by simp
    moreover have "parse_object fuel depth (json_set acc key val) r' = NoFuel"
      using st by (elim if_NoFuel [elim_format] disjE conjE) simp_all
    ultimately show ?thesis using that(2) by blast
  qed
qed

lemma parse_array_NoFuel:
  assumes "parse_array (Suc fuel) depth acc s = NoFuel"
  obtains "parse_value fuel depth s = NoFuel"
  | val r' where "length r' < length s" "parse_array fuel depth val r' = NoFuel"
proof -
  note st = assms [unfolded parse_array.simps]
  show ?thesis
  proof (cases "parse_value fuel depth s")
    case (Done val s3)
    note st = st [unfolded Done pres.case]
    from st obtain d r' where d: "skip_ws s3 = d # r'" by (cases "skip_ws s3") auto
    note st = st [unfolded d list.case]
    have "length r' < length s"
      using parse_progress(1) [OF Done] skip_ws_Cons [OF d] by simp
    moreover have "parse_array fuel depth (json_add acc val) r' = NoFuel"
      using st by (elim if_NoFuel [elim_format] disjE conjE) simp_all
    ultimately show ?thesis using that(2) by blast
  qed (use st that in simp_all)
qed

lemma parse_fuel_enough:
  "2 * length s + 1 \<le> fuel \<Longrightarrow> parse_value fuel depth s \<noteq> NoFuel"
  "2 * length s + 2 \<le> fuel \<Longrightarrow> parse_object fuel depth acc s \<noteq> NoFuel"
  "2 * length s + 2 \<le> fuel \<Longrightarrow> parse_array fuel depth acc s \<noteq> NoFuel"
proof (induction fuel arbitrary: depth s acc)
  case (Suc fuel)
  {
    case 1
    have "2 * length (skip_ws cs) + 2 \<le> fuel" if "skip_ws s = c # cs" for c cs
      using 1 skip_ws_Cons [OF that] length_skip_ws [of cs] by simp
    then show ?case
      using Suc(2,3) by (metis parse_value_NoFuel)
  next
    case 2
    show ?case
    proof
      assume "parse_object (Suc fuel) depth acc s = NoFuel"
      then show False
      proof (cases rule: parse_object_NoFuel)
        case (1 s2)
        then show ?thesis using Suc(1) [of s2] 2 by simp
      next
        case (2 val r')
        then show ?thesis using Suc(2) [of r'] \<open>2 * length s + 2 \<le> Suc fuel\<close> by simp
      qed
    qed
  next
    case 3
    show ?case
    proof
      assume "parse_array (Suc fuel) depth acc s = NoFuel"
      then show False
      proof (cases rule: parse_array_NoFuel)
        case 1
        then show ?thesis using Suc(1) [of s] 3 by simp
      next
        case (2 val r')
        then show ?thesis using Suc(3) [of r'] 3 by simp
      qed
    qed
  }
qed simp_all

lemma parse_value_fuel: "parse_value (2 * length s + 1) depth s \<noteq> NoFuel"
  by (rule parse_fuel_enough) simp

subsection \<open>Nesting\<close>

fun jdepth :: "json \<Rightarrow> nat" where
  "jdepth (JArray es) = Suc (foldr max (map jdepth es) 0)"
| "jdepth (JObject ms) = Suc (foldr max (map (\<lambda>(k, v). jdepth v) ms) 0)"
| "jdepth _ = 1"

lemma foldr_max_le:
  "n + foldr max xs (k::nat) \<le> m \<longleftrightarrow> n + k \<le> m \<and> (\<forall>x \<in> set xs. n + x \<le> m)"
  by (induction xs) (auto simp: max_def)

lemma parse_string_depth: "parse_scalar s = Done v r \<Longrightarrow> jdepth v = 1"
  unfolding parse_scalar_def
  by (elim if_Done [elim_format] disjE conjE)
    (simp_all split: option.split_asm prod.split_asm, auto)

lemma parse_depth:
  "parse_value fuel depth s = Done v r \<Longrightarrow> depth + jdepth v \<le> kMaxDepth"
  "parse_object fuel depth acc s = Done v r \<Longrightarrow> depth + jdepth acc \<le> Suc kMaxDepth \<Longrightarrow>
     depth + jdepth v \<le> Suc kMaxDepth"
  "parse_array fuel depth acc s = Done v r \<Longrightarrow> depth + jdepth acc \<le> Suc kMaxDepth \<Longrightarrow>
     depth + jdepth v \<le> Suc kMaxDepth"
proof (induction fuel arbitrary: depth s v r acc)
  case (Suc fuel)
  have set_ok: "depth + jdepth (json_set acc key val) \<le> Suc kMaxDepth"
    if "depth + jdepth acc \<le> Suc kMaxDepth" "depth + jdepth val \<le> kMaxDepth" for key val acc depth
    using that by (cases acc) (auto simp: json_set_def foldr_max_le)
  have add_ok: "depth + jdepth (json_add acc val) \<le> Suc kMaxDepth"
    if "depth + jdepth acc \<le> Suc kMaxDepth" "depth + jdepth val \<le> kMaxDepth" for val acc depth
    using that by (cases acc) (auto simp: json_add_def foldr_max_le)
  {
    case 1
    then show ?case
    proof (cases rule: parse_value_Done)
      case (1 c cs)
      then have "v = JObject []" using \<open>parse_value (Suc fuel) depth s = Done v r\<close> by simp
      then show ?thesis using 1(2) by simp
    next
      case (2 c cs)
      then show ?thesis using Suc(2) [OF 2(5)] by simp
    next
      case (3 c cs)
      then have "v = JArray []" using \<open>parse_value (Suc fuel) depth s = Done v r\<close> by simp
      then show ?thesis using 3(2) by simp
    next
      case (4 c cs)
      then show ?thesis using Suc(3) [OF 4(6)] by simp
    next
      case (5 c cs)
      then show ?thesis using parse_string_depth [OF 5(3)] by simp
    qed
  next
    case 2
    from 2(1) show ?case
      by (cases rule: parse_object_Done) (use 2(2) Suc(1,2) set_ok in blast)+
  next
    case 3
    from 3(1) show ?case
      by (cases rule: parse_array_Done) (use 3(2) Suc(1,3) add_ok in blast)+
  }
qed simp_all


subsection \<open>Reading back what the writer prints\<close>

lemma escape_char_plain:
  "c \<noteq> CHR 0x22 \<Longrightarrow> c \<noteq> CHR 0x5C \<Longrightarrow> \<not> ord c < 0x20 \<Longrightarrow> escape_char c = [c]"
proof -
  assume a: "c \<noteq> CHR 0x22" "c \<noteq> CHR 0x5C" "\<not> ord c < 0x20"
  then have "c \<noteq> CHR 0x08 \<and> c \<noteq> CHR 0x0C \<and> c \<noteq> CHR 0x0A \<and> c \<noteq> CHR 0x0D \<and> c \<noteq> CHR 0x09"
    by auto
  with a show ?thesis by (simp add: escape_char_def)
qed

text \<open>The escapes of the control characters, the quote and the backslash, read back one by one.\<close>

definition esc_body :: "char \<Rightarrow> string" where
  "esc_body c = tl (escape_char c)"

lemma control_escape:
  "list_all (\<lambda>n. hd (escape_char (char_of n)) = CHR 0x5C \<and> escape_char (char_of n) \<noteq> [] \<and>
     parse_escape (esc_body (char_of n)) = Some ([char_of n], []))
     ([0x22, 0x5C] @ [0..<0x20::nat])"
  by code_simp

lemma parse_hex4_append: "parse_hex4 s = Some (v, r) \<Longrightarrow> parse_hex4 (s @ x) = Some (v, r @ x)"
  by (auto simp: parse_hex4_def split: if_splits option.splits)

lemma parse_escape_append:
  assumes "parse_escape s = Some (t, r)" and "hd s = CHR ''u'' \<Longrightarrow> (\<exists>c < 0xD800. parse_hex4 (tl s) = Some (c, r))"
  shows "parse_escape (s @ x) = Some (t, r @ x)"
proof (cases s)
  case (Cons e cs)
  show ?thesis
  proof (cases "e = CHR ''u''")
    case True
    with assms(2) Cons obtain cp where cp: "cp < 0xD800" "parse_hex4 cs = Some (cp, r)" by auto
    then have "\<not> 0xD800 \<le> cp" "\<not> 0xDC00 \<le> cp" by (auto simp: not_le intro: less_trans)
    with cp assms(1) Cons True parse_hex4_append [OF cp(2), of x] show ?thesis
      by (simp add: parse_escape_def parse_unicode_def)
  next
    case False
    then show ?thesis using assms(1) Cons
      by (simp add: parse_escape_def split: option.split_asm)
  qed
qed (use assms(1) in \<open>simp add: parse_escape_def\<close>)

lemma control_hex:
  "list_all (\<lambda>n. hd (esc_body (char_of n)) = CHR ''u'' \<longrightarrow>
     parse_hex4 (tl (esc_body (char_of n))) = Some (word_of_nat n, []) \<and> word_of_nat n < (0xD800 :: u32))
     ([0x22, 0x5C] @ [0..<0x20::nat])"
  by code_simp

lemma escape_char_control:
  assumes "c = CHR 0x22 \<or> c = CHR 0x5C \<or> ord c < 0x20"
  shows "escape_char c = CHR 0x5C # esc_body c"
    and "parse_escape (esc_body c @ x) = Some ([c], x)"
proof -
  have m: "ord c \<in> set ([0x22, 0x5C] @ [0..<0x20])" using assms by auto
  have c: "char_of (ord c) = c" by simp
  note 1 = control_escape [unfolded list_all_iff, rule_format, OF m, unfolded c]
  note 2 = control_hex [unfolded list_all_iff, rule_format, OF m, unfolded c]
  from 1 show "escape_char c = CHR 0x5C # esc_body c"
    by (cases "escape_char c") (auto simp: esc_body_def)
  from 1 have "parse_escape (esc_body c) = Some ([c], [])" by simp
  from parse_escape_append [OF this, of x] 2 show "parse_escape (esc_body c @ x) = Some ([c], x)"
    by (metis append_Nil)
qed

lemma parse_chars_escaped:
  "parse_chars out (concat (map escape_char s) @ CHR 0x22 # r) = Some (out @ s, r)"
proof (induction s arbitrary: out)
  case Nil
  show ?case by simp
next
  case (Cons c s)
  let ?t = "concat (map escape_char s) @ CHR 0x22 # r"
  have ih: "parse_chars (out @ [c]) ?t = Some (out @ c # s, r)" using Cons.IH [of "out @ [c]"] by simp
  have e: "concat (map escape_char (c # s)) @ CHR 0x22 # r = escape_char c @ ?t" by simp
  show ?case
  proof (cases "c = CHR 0x22 \<or> c = CHR 0x5C \<or> ord c < 0x20")
    case True
    note esc = escape_char_control [OF True]
    have "escape_char c @ ?t = CHR 0x5C # (esc_body c @ ?t)" using esc(1) by simp
    then show ?thesis
      by (simp only: e parse_chars_esc esc(2) option.case prod.case ih)
  next
    case False
    then have f: "c \<noteq> CHR 0x22" "c \<noteq> CHR 0x5C" "\<not> ord c < 0x20" by auto
    have "escape_char c @ ?t = c # ?t" using escape_char_plain [OF f] by simp
    then show ?thesis by (simp only: e parse_chars_plain [OF f] ih)
  qed
qed

lemma json_escape_read: "parse_string_raw (json_escape s @ r) = Some (s, r)"
  using parse_chars_escaped [of "[]" s r] by (simp add: parse_string_raw_def json_escape_def)

lemma length_to_string: "n < 10 ^ k \<Longrightarrow> 0 < k \<Longrightarrow> length (to_string n) \<le> k"
proof (induction n arbitrary: k rule: to_string.induct)
  case (1 n)
  show ?case
  proof (cases "n < 10")
    case False
    then obtain j where j: "k = Suc j" "0 < j" using "1.prems" by (cases k; cases "k - 1") auto
    then have "n div 10 < 10 ^ j" using "1.prems" by (simp add: less_mult_imp_div_less mult.commute)
    with "1.IH" [OF False this j(2)] j False show ?thesis by (subst to_string.simps) simp
  qed (use "1.prems" in \<open>simp add: to_string.simps\<close>)
qed

definition tok_stop :: "string \<Rightarrow> bool" where
  "tok_stop r = (case r of [] \<Rightarrow> True | c # _ \<Rightarrow> \<not> num_char c)"

lemma tok_stop_num_stop: "tok_stop r \<Longrightarrow> num_stop r"
  by (auto simp: tok_stop_def num_stop_def num_char_def split: list.splits)

lemma num_char_digit: "is_digit c \<Longrightarrow> num_char c"
  by (simp add: num_char_def)

lemma takeWhile_num_char:
  assumes "tok_stop r" and "\<forall>c \<in> set a. is_digit c"
  shows "takeWhile num_char (a @ r) = a"
proof -
  have "takeWhile num_char r = []" using assms(1) by (cases r) (auto simp: tok_stop_def)
  then show ?thesis using assms(2) by (simp add: takeWhile_append num_char_digit)
qed

lemma digit_not_sign: "is_digit c \<Longrightarrow> c \<noteq> CHR ''-'' \<and> c \<noteq> CHR ''+''"
  by (auto simp: is_digit_def in_range_def)

lemma num_token_int:
  assumes "tok_stop r"
  shows "num_token (int_to_string i @ r) = int_to_string i"
proof -
  obtain d ds where t: "to_string (nat \<bar>i\<bar>) = d # ds"
    using to_string_nonempty by (cases "to_string (nat \<bar>i\<bar>)") auto
  have dig: "\<forall>c \<in> set (d # ds). is_digit c" using to_string_digits t by metis
  then have d: "d \<noteq> CHR ''-''" "d \<noteq> CHR ''+''" using digit_not_sign [of d] by simp_all
  note tw = takeWhile_num_char [OF assms dig]
  show ?thesis
  proof (cases "i < 0")
    case True
    then have "nat \<bar>i\<bar> = nat (- i)" by simp
    with True t tw show ?thesis by (simp add: int_to_string_def num_token_def)
  next
    case False
    then have "nat \<bar>i\<bar> = nat i" by simp
    with False t tw d show ?thesis by (simp add: int_to_string_def num_token_def)
  qed
qed

lemma parse_number_int:
  assumes "tok_stop r" and "\<bar>i\<bar> \<le> 2 ^ 53"
  shows "parse_number (int_to_string i @ r) = Some (dbl_of_int i, r)"
proof -
  have "length (to_string n) \<le> 17" if "n \<le> 2 ^ 53" for n
    by (rule length_to_string) (use that in simp_all)
  from this [of "nat (- i)"] this [of "nat i"] have "length (int_to_string i) \<le> 18"
    using assms(2) by (auto simp: int_to_string_def nat_le_iff)
  moreover have "0 < length (int_to_string i)" by (simp add: int_to_string_def)
  ultimately show ?thesis
    using strtod_int [of "[]" i] num_token_int [OF assms(1), of i]
    by (simp add: parse_number_def num_stop_def Let_def)
qed

text \<open>The documents the round trip is about: integral numbers a \<^verbatim>\<open>double\<close> holds exactly.\<close>

fun json_ok :: "json \<Rightarrow> bool" where
  "json_ok (JNumber n) \<longleftrightarrow>
     is_integral n \<and> \<bar>trunc_val n\<bar> \<le> 2 ^ 53 \<and> dbl_of_int (trunc_val n) = n"
| "json_ok (JArray es) \<longleftrightarrow> (\<forall>e \<in> set es. json_ok e)"
| "json_ok (JObject ms) \<longleftrightarrow> (\<forall>m \<in> set ms. json_ok (snd m))"
| "json_ok _ \<longleftrightarrow> True"

lemma write_number_ok:
  assumes "json_ok (JNumber n)"
  shows "write_number n = int_to_string (trunc_val n)"
proof -
  obtain s m e where n: "n = DFin s m e"
    using assms by (cases n) (auto simp: is_integral_def)
  show ?thesis using assms by (simp add: write_number_def n abs_le_iff)
qed

lemma int_to_string_head:
  obtains c cs where "int_to_string i = c # cs" "c = CHR ''-'' \<or> is_digit c"
proof (cases "i < 0")
  case True
  then show ?thesis using that by (simp add: int_to_string_def)
next
  case False
  obtain d ds where t: "to_string (nat i) = d # ds"
    using to_string_nonempty by (cases "to_string (nat i)") auto
  then have "is_digit d" using to_string_digits [of d "nat i"] by simp
  with False t that show ?thesis by (simp add: int_to_string_def)
qed

definition head_ok :: "char \<Rightarrow> bool" where
  "head_ok c \<longleftrightarrow> \<not> is_ws c \<and> c \<noteq> CHR '']''"

lemma number_head:
  "c = CHR ''-'' \<or> is_digit c \<Longrightarrow> head_ok c \<and> c \<noteq> CHR 0x22 \<and> c \<noteq> CHR ''t'' \<and> c \<noteq> CHR ''f'' \<and>
     c \<noteq> CHR ''n'' \<and> c \<noteq> CHR ''{'' \<and> c \<noteq> CHR ''[''"
  by (auto simp: head_ok_def is_ws_def is_digit_def in_range_def)

lemma dump_head: "json_ok v \<Longrightarrow> \<exists>c cs. dump v = c # cs \<and> head_ok c"
proof (cases v)
  case (JNumber n)
  assume "json_ok v"
  then show ?thesis
    using JNumber write_number_ok [of n] number_head
    by (cases rule: int_to_string_head [of "trunc_val n"]) auto
qed (auto simp: head_ok_def is_ws_def json_escape_def)

lemma skip_ws_head: "head_ok c \<Longrightarrow> skip_ws (c # cs) = c # cs"
  by (simp add: skip_ws_def head_ok_def)

lemma parse_value_scalar:
  assumes "skip_ws s = c # cs" and "depth + 1 \<le> kMaxDepth" and "c \<noteq> CHR ''{''" and "c \<noteq> CHR ''[''"
  shows "parse_value (Suc fuel) depth s = parse_scalar (c # cs)"
  using assms by simp

lemma parse_scalar_quote:
  "parse_scalar (CHR 0x22 # cs) =
     (case parse_string_raw (CHR 0x22 # cs) of
        None \<Rightarrow> Reject | Some (t, r) \<Rightarrow> Done (JString t) r)"
  by (simp add: parse_scalar_def)

lemma parse_scalar_number:
  assumes "c = CHR ''-'' \<or> is_digit c"
  shows "parse_scalar (c # cs) =
     (case parse_number (c # cs) of None \<Rightarrow> Reject | Some (d, r) \<Rightarrow> Done (JNumber d) r)"
  using number_head [OF assms] assms by (simp add: parse_scalar_def)

lemma parse_scalar_literals:
  "parse_scalar (''true'' @ r) = Done (JBool True) r"
  "parse_scalar (''false'' @ r) = Done (JBool False) r"
  "parse_scalar (''null'' @ r) = Done JNull r"
  by (simp_all add: parse_scalar_def)

lemma dump_scalar:
  assumes "json_ok v" and "\<forall>es. v \<noteq> JArray es" and "\<forall>ms. v \<noteq> JObject ms"
    and "depth + 1 \<le> kMaxDepth" and "tok_stop r"
  shows "parse_value (Suc fuel) depth (dump v @ r) = Done v r"
proof (cases v)
  case JNull
  then show ?thesis
    using parse_value_scalar [of "''null'' @ r" "CHR ''n''" "''ull'' @ r" depth fuel]
      parse_scalar_literals(3) [of r] assms by (simp add: skip_ws_head head_ok_def is_ws_def)
next
  case (JBool b)
  then show ?thesis
    using parse_value_scalar [of "''true'' @ r" "CHR ''t''" "''rue'' @ r" depth fuel]
      parse_value_scalar [of "''false'' @ r" "CHR ''f''" "''alse'' @ r" depth fuel]
      parse_scalar_literals(1,2) [of r] assms by (simp add: skip_ws_head head_ok_def is_ws_def)
next
  case (JNumber n)
  obtain c cs where d: "int_to_string (trunc_val n) = c # cs" "c = CHR ''-'' \<or> is_digit c"
    by (rule int_to_string_head)
  note h = number_head [OF d(2)]
  have t: "dump v @ r = c # cs @ r" using JNumber write_number_ok assms(1) d(1) by simp
  have "parse_number (c # cs @ r) = Some (n, r)"
    using parse_number_int [OF assms(5), of "trunc_val n"] d(1) assms(1) JNumber by simp
  then have "parse_scalar (c # cs @ r) = Done v r"
    using parse_scalar_number [OF d(2)] JNumber by simp
  then show ?thesis
    unfolding t using parse_value_scalar [of "c # cs @ r" c "cs @ r" depth fuel] h assms(4)
    by (simp only: skip_ws_head) simp
next
  case (JString t)
  have "\<exists>cs. json_escape t @ r = CHR 0x22 # cs" by (simp add: json_escape_def)
  then obtain cs where e: "json_escape t @ r = CHR 0x22 # cs" by blast
  have "parse_scalar (CHR 0x22 # cs) = Done v r"
    using JString json_escape_read [of t r] by (simp add: parse_scalar_quote e)
  then show ?thesis
    using JString e parse_value_scalar [of "CHR 0x22 # cs" "CHR 0x22" cs depth fuel] assms(4)
    by (simp add: skip_ws_head head_ok_def is_ws_def)
qed (use assms in auto)

lemma parse_dump_scalar:
  assumes "json_ok v" and "depth + jdepth v \<le> kMaxDepth" and "tok_stop r"
    and "2 * length (dump v) + 1 \<le> fuel"
    and "\<forall>es. v \<noteq> JArray es" and "\<forall>ms. v \<noteq> JObject ms"
  shows "parse_value fuel depth (dump v @ r) = Done v r"
proof -
  obtain f where f: "fuel = Suc f" using assms(4) by (cases fuel) auto
  have "jdepth v = 1" using assms(5,6) by (cases v) auto
  then show ?thesis using dump_scalar [OF assms(1,5,6) _ assms(3)] assms(2) f by simp
qed

lemma closes_head: "head_ok c \<Longrightarrow> c \<noteq> k \<Longrightarrow> closes k (c # cs) = None"
  by (simp add: closes_def skip_ws_head)

lemma head_ok_punct:
  "head_ok CHR '',''" "head_ok CHR '':''" "head_ok CHR ''}''" "head_ok CHR ''{''" "head_ok CHR ''[''"
  "head_ok CHR 0x22"
  by (simp_all add: head_ok_def is_ws_def)

lemma skip_ws_bracket: "skip_ws (CHR '']'' # r) = CHR '']'' # r"
  by (simp add: skip_ws_def is_ws_def)

lemma tok_stop_punct:
  "tok_stop (CHR '','' # r)" "tok_stop (CHR '']'' # r)" "tok_stop (CHR ''}'' # r)" "tok_stop []"
  by (simp_all add: tok_stop_def num_char_def is_digit_def in_range_def)

lemma parse_array_next:
  assumes "parse_value fuel depth s = Done val (CHR '','' # r)"
  shows "parse_array (Suc fuel) depth acc s = parse_array fuel depth (json_add acc val) r"
  using assms by (simp add: skip_ws_head head_ok_punct)

lemma parse_array_last:
  assumes "parse_value fuel depth s = Done val (CHR '']'' # r)"
  shows "parse_array (Suc fuel) depth acc s = Done (json_add acc val) r"
  using assms by (simp add: skip_ws_bracket)

lemma parse_array_dump:
  assumes "\<And>e r fuel. e \<in> set es \<Longrightarrow> tok_stop r \<Longrightarrow> 2 * length (dump e) + 1 \<le> fuel \<Longrightarrow>
      parse_value fuel depth (dump e @ r) = Done e r"
    and "es \<noteq> []" and "2 * length (intercalate '','' (map dump es)) + 2 \<le> fuel"
  shows "parse_array fuel depth (JArray acc) (intercalate '','' (map dump es) @ CHR '']'' # r)
    = Done (JArray (acc @ es)) r"
  using assms
proof (induction es arbitrary: acc fuel)
  case (Cons e es)
  then obtain f where f: "fuel = Suc f" by (cases fuel) auto
  show ?case
  proof (cases es)
    case Nil
    have "parse_value f depth (dump e @ CHR '']'' # r) = Done e (CHR '']'' # r)"
      using Cons.prems f Nil tok_stop_punct by simp
    from parse_array_last [OF this, of "JArray acc"] f Nil show ?thesis by (simp add: json_add_def)
  next
    case (Cons e2 es2)
    let ?t = "intercalate '','' (map dump es)"
    have t: "intercalate '','' (map dump (e # es)) = dump e @ CHR '','' # ?t"
      using Cons by simp
    have "parse_value f depth (dump e @ CHR '','' # (?t @ CHR '']'' # r))
        = Done e (CHR '','' # (?t @ CHR '']'' # r))"
      using Cons.prems(1) [of e] Cons.prems(3) f t tok_stop_punct by simp
    from parse_array_next [OF this, of "JArray acc"]
    have "parse_array fuel depth (JArray acc) (dump e @ CHR '','' # (?t @ CHR '']'' # r))
        = parse_array f depth (JArray (acc @ [e])) (?t @ CHR '']'' # r)"
      by (simp add: f json_add_def)
    also have "\<dots> = Done (JArray ((acc @ [e]) @ es)) r"
      using Cons.prems f t Cons by (intro Cons.IH) auto
    finally show ?thesis using t by simp
  qed
qed simp

lemma parse_object_step:
  assumes "parse_value fuel depth (w @ d # r) = Done val (d # r)"
    and "head_ok d"
  shows "parse_object (Suc fuel) depth acc (json_escape k @ CHR '':'' # w @ d # r) =
    (if d = CHR '','' then parse_object fuel depth (json_set acc k val) r
     else if d = CHR ''}'' then Done (json_set acc k val) r else Reject)"
proof -
  have "\<exists>cs. json_escape k @ CHR '':'' # w @ d # r = CHR 0x22 # cs" by (simp add: json_escape_def)
  then have "skip_ws (json_escape k @ CHR '':'' # w @ d # r) = json_escape k @ CHR '':'' # w @ d # r"
    using skip_ws_head [OF head_ok_punct(6)] by metis
  then show ?thesis
    using assms by (simp add: json_escape_read skip_ws_head head_ok_punct(2))
qed

definition member_text :: "string \<times> json \<Rightarrow> string" where
  "member_text m = json_escape (fst m) @ '':'' @ dump (snd m)"

lemma dump_object: "dump (JObject ms) = ''{'' @ intercalate '','' (map member_text ms) @ ''}''"
proof -
  have "(\<lambda>(k, v). json_escape k @ '':'' @ dump v) = member_text"
    by (auto simp: member_text_def)
  then show ?thesis by simp
qed

lemma parse_object_dump:
  assumes "\<And>m r fuel. m \<in> set ms \<Longrightarrow> tok_stop r \<Longrightarrow> 2 * length (dump (snd m)) + 1 \<le> fuel \<Longrightarrow>
      parse_value fuel depth (dump (snd m) @ r) = Done (snd m) r"
    and "ms \<noteq> []" and "2 * length (intercalate '','' (map member_text ms)) + 2 \<le> fuel"
  shows "parse_object fuel depth (JObject acc)
      (intercalate '','' (map member_text ms) @ CHR ''}'' # r) = Done (JObject (acc @ ms)) r"
  using assms
proof (induction ms arbitrary: acc fuel)
  case (Cons m ms)
  then obtain f where f: "fuel = Suc f" by (cases fuel) auto
  show ?case
  proof (cases ms)
    case Nil
    have "parse_value f depth (dump (snd m) @ CHR ''}'' # r) = Done (snd m) (CHR ''}'' # r)"
      using Cons.prems f Nil tok_stop_punct by (simp add: member_text_def)
    from parse_object_step [OF this head_ok_punct(3), of "JObject acc" "fst m"] f Nil
    show ?thesis by (simp add: json_set_def member_text_def)
  next
    case (Cons m2 ms2)
    let ?t = "intercalate '','' (map member_text ms)"
    have t: "intercalate '','' (map member_text (m # ms)) = member_text m @ CHR '','' # ?t"
      using Cons by simp
    have len: "2 * length (dump (snd m)) + 1 \<le> f"
      using Cons.prems(3) f unfolding t by (simp add: member_text_def)
    have "parse_value f depth (dump (snd m) @ CHR '','' # (?t @ CHR ''}'' # r))
        = Done (snd m) (CHR '','' # (?t @ CHR ''}'' # r))"
      using Cons.prems(1) [of m] len tok_stop_punct by simp
    from parse_object_step [OF this head_ok_punct(1), of "JObject acc" "fst m"]
    have "parse_object fuel depth (JObject acc) (member_text m @ CHR '','' # (?t @ CHR ''}'' # r))
        = parse_object f depth (JObject (acc @ [m])) (?t @ CHR ''}'' # r)"
      by (simp add: f json_set_def member_text_def)
    also have "\<dots> = Done (JObject ((acc @ [m]) @ ms)) r"
      using Cons.prems f t Cons by (intro Cons.IH) auto
    finally show ?thesis using t by simp
  qed
qed simp

lemma intercalate_head:
  "xs \<noteq> [] \<Longrightarrow> hd xs = c # cs \<Longrightarrow> \<exists>t. intercalate sep xs = c # t"
  by (cases xs; cases "tl xs") auto

lemma parse_dump:
  "json_ok v \<Longrightarrow> depth + jdepth v \<le> kMaxDepth \<Longrightarrow> tok_stop r \<Longrightarrow> 2 * length (dump v) + 1 \<le> fuel \<Longrightarrow>
     parse_value fuel depth (dump v @ r) = Done v r"
proof (induction v arbitrary: depth r fuel)
  case (JArray es)
  obtain f where f: "fuel = Suc f" using JArray.prems(4) by (cases fuel) auto
  have d: "\<And>e. e \<in> set es \<Longrightarrow> depth + 1 + jdepth e \<le> kMaxDepth"
    and d1: "\<not> depth + 1 > kMaxDepth"
    using JArray.prems(2) foldr_max_le [of "depth + 1" "map jdepth es" 0 kMaxDepth] by auto
  let ?t = "intercalate '','' (map dump es)"
  have s: "dump (JArray es) @ r = CHR ''['' # (?t @ CHR '']'' # r)" by simp
  show ?case
  proof (cases "es = []")
    case True
    then show ?thesis
      using d1 by (simp add: f skip_ws_head head_ok_punct closes_def skip_ws_bracket)
  next
    case False
    then obtain e es' where es: "es = e # es'" by (cases es) auto
    with JArray.prems(1) dump_head [of e] obtain c cs where c: "dump e = c # cs" "head_ok c" by auto
    then obtain t' where t: "?t = c # t'" using es intercalate_head [of "map dump es" c cs] by auto
    have ne: "c \<noteq> CHR '']''" using c(2) by (simp add: head_ok_def)
    have "parse_array f (depth + 1) (JArray []) (?t @ CHR '']'' # r) = Done (JArray ([] @ es)) r"
    proof (rule parse_array_dump)
      fix e r' fuel'
      assume "e \<in> set es" "tok_stop r'" "2 * length (dump e) + 1 \<le> fuel'"
      then show "parse_value fuel' (depth + 1) (dump e @ r') = Done e r'"
        using JArray.IH [of e "depth + 1"] d JArray.prems(1) by simp
    qed (use False JArray.prems(4) f in auto)
    then show ?thesis
      unfolding s f using d1 t c ne
      by (simp add: skip_ws_head head_ok_punct closes_head)
  qed
next
  case (JObject ms)
  obtain f where f: "fuel = Suc f" using JObject.prems(4) by (cases fuel) auto
  have d: "\<And>m. m \<in> set ms \<Longrightarrow> depth + 1 + jdepth (snd m) \<le> kMaxDepth"
    and d1: "\<not> depth + 1 > kMaxDepth"
    using JObject.prems(2)
      foldr_max_le [of "depth + 1" "map (\<lambda>(k, v). jdepth v) ms" 0 kMaxDepth] by auto
  let ?t = "intercalate '','' (map member_text ms)"
  have s: "dump (JObject ms) @ r = CHR ''{'' # (?t @ CHR ''}'' # r)"
    unfolding dump_object by simp
  show ?case
  proof (cases "ms = []")
    case True
    then show ?thesis
      using d1 by (simp add: f skip_ws_head head_ok_punct closes_def)
  next
    case False
    then obtain m ms' where ms: "ms = m # ms'" by (cases ms) auto
    obtain cs where "member_text m = CHR 0x22 # cs" by (simp add: member_text_def json_escape_def)
    then obtain t' where t: "?t = CHR 0x22 # t'"
      using ms intercalate_head [of "map member_text ms" "CHR 0x22" cs] by auto
    have "parse_object f (depth + 1) (JObject []) (?t @ CHR ''}'' # r) = Done (JObject ([] @ ms)) r"
    proof (rule parse_object_dump)
      fix m r' fuel'
      assume "m \<in> set ms" "tok_stop r'" "2 * length (dump (snd m)) + 1 \<le> fuel'"
      then show "parse_value fuel' (depth + 1) (dump (snd m) @ r') = Done (snd m) r'"
        using JObject.IH [of m "snd m" "depth + 1" r' fuel'] d [of m] JObject.prems(1)
        by (cases m rule: prod.exhaust) (auto simp: prod_set_simps)
    next
      have "length (dump (JObject ms)) = length ?t + 2" unfolding dump_object by simp
      then show "2 * length ?t + 2 \<le> f" using JObject.prems(4) f by (simp del: dump.simps)
    qed (rule False)
    then show ?thesis
      unfolding s f using d1 t
      by (simp add: skip_ws_head head_ok_punct closes_head)
  qed
qed (rule parse_dump_scalar; simp)+

lemma json_parse_cases:
  "json_parse s = Err Protocol \<or> (\<exists>v. json_parse s = Inr v \<and> jdepth v \<le> kMaxDepth)"
proof (cases "parse_value (2 * length s + 1) 0 s")
  case (Done v r)
  with parse_depth(1) [OF Done] show ?thesis by (simp add: json_parse_def)
next
  case NoFuel
  then show ?thesis using parse_value_fuel [of s 0] by simp
qed (simp add: json_parse_def)

lemma json_parse_dump: "json_ok v \<Longrightarrow> jdepth v \<le> kMaxDepth \<Longrightarrow> json_parse (dump v) = Inr v"
  using parse_dump [of v 0 "[]" "2 * length (dump v) + 1"]
  by (simp add: json_parse_def tok_stop_punct skip_ws_def)

definition json_decode :: "string \<Rightarrow> json option" where
  "json_decode s = (case json_parse s of Inr v \<Rightarrow> Some v | Inl _ \<Rightarrow> None)"

interpretation json_codec: codec dump json_decode "\<lambda>v. json_ok v \<and> jdepth v \<le> kMaxDepth"
  by unfold_locales (simp add: json_decode_def json_parse_dump)

subsection \<open>Lookups in built objects\<close>

lemma find_member_append:
  "find_member p (a @ b) = (case find_member p a of Some v \<Rightarrow> Some v | None \<Rightarrow> find_member p b)"
  by (induction a) (auto split: option.splits)

lemma find_ci_set:
  "find_ci (json_set (JObject ms) k v) key =
     (case find_ci (JObject ms) key of
        Some w \<Rightarrow> Some w
      | None \<Rightarrow> if iequals k key then Some v else None)"
  by (simp add: find_ci_def json_set_def find_member_append split: option.split)

lemma find_ci_Nil [simp]: "find_ci (JObject []) key = None"
  by (simp add: find_ci_def)

lemma find_ci_Cons [simp]:
  "find_ci (JObject ((k, v) # ms)) key =
     (if iequals k key then Some v else find_ci (JObject ms) key)"
  by (simp add: find_ci_def)

subsection \<open>Properties\<close>

text \<open>
  Parsing any text ends with either a protocol error or a document that nests at most 128
  levels: the recursion is bounded and no input exhausts the model's fuel.
\<close>

theorem json_parse_total:
  "json_parse s = Err Protocol \<or> (\<exists>v. json_parse s = Inr v \<and> jdepth v \<le> kMaxDepth)"
  by (rule json_parse_cases)



text \<open>
  A member lookup ignores case and finds the member that was set first: setting a key
  that is already there, in any spelling, does not change what lookups return.
\<close>

theorem json_set_lookup:
  "find_ci (json_set (JObject ms) k v) key =
     (case find_ci (JObject ms) key of
        Some w \<Rightarrow> Some w
      | None \<Rightarrow> if iequals k key then Some v else None)"
  by (rule find_ci_set)

end
