(* ===== verification/Fs.thy ===== *)
theory Fs
  imports Common
begin

text \<open>
  \<^verbatim>\<open>core/src/vc_fs.cpp\<close> over a model of what it uses of \<^verbatim>\<open>std::filesystem\<close> and of the file
  streams. A \<open>vfs\<close> is a tree of directories and files (POSIX paths, no symbolic links) in the
  order a directory scan returns them, with the current directory and an oracle \<open>fails\<close> that
  makes an operation on a node fail with an \<^verbatim>\<open>errno\<close> of its choice (permissions, a full disk;
  0 for no failure).
  Every operation that changes the tree returns the new one.
\<close>

subsection \<open>Paths and nodes\<close>

datatype node = Dir | File bytes

datatype fs_op = StatOp | CreateOp | RemoveOp | RenameOp | OpenOp | ReadOp | WriteOp | ScanOp

record vfs =
  nodes :: "(string list \<times> node) list"
  cwd :: "string list"
  fails :: "fs_op \<Rightarrow> string list \<Rightarrow> u32"
  stream_buf :: nat

definition ENOENT :: u32 where "ENOENT = 2"
definition EBUSY :: u32 where "EBUSY = 16"
definition EEXIST :: u32 where "EEXIST = 17"
definition ENOTDIR :: u32 where "ENOTDIR = 20"
definition EISDIR :: u32 where "EISDIR = 21"
definition EINVAL :: u32 where "EINVAL = 22"
definition ENOTEMPTY :: u32 where "ENOTEMPTY = 39"

definition node_at :: "vfs \<Rightarrow> string list \<Rightarrow> node option" where
  "node_at s k = (if k = [] then Some Dir else map_of (nodes s) k)"

fun split_at :: "char \<Rightarrow> string \<Rightarrow> string list" where
  "split_at d [] = [[]]"
| "split_at d (c # cs) =
     (if c = d then [] # split_at d cs
      else (case split_at d cs of [] \<Rightarrow> [[c]] | w # ws \<Rightarrow> (c # w) # ws))"

text \<open>Name resolution: every directory on the way has to exist.\<close>

fun walk :: "vfs \<Rightarrow> string list \<Rightarrow> string list \<Rightarrow> u32 + string list" where
  "walk s cur [] = Inr cur"
| "walk s cur (c # cs) =
     (case node_at s cur of
        None \<Rightarrow> Inl ENOENT
      | Some (File _) \<Rightarrow> Inl ENOTDIR
      | Some Dir \<Rightarrow>
          if c = [] \<or> c = ''.'' then walk s cur cs
          else if c = ''..'' then walk s (butlast cur) cs
          else walk s (cur @ [c]) cs)"

text \<open>The system calls take the name up to its first NUL character.\<close>

definition c_str :: "string \<Rightarrow> string" where
  "c_str s = takeWhile (\<lambda>c. c \<noteq> CHR 0x00) s"

definition resolve :: "vfs \<Rightarrow> string \<Rightarrow> u32 + string list" where
  "resolve s path =
     (let p = c_str path
      in if p = [] then Inl ENOENT
         else if hd p = CHR ''/'' then walk s [] (split_at CHR ''/'' p)
         else walk s (cwd s) (split_at CHR ''/'' p))"

text \<open>What \<^verbatim>\<open>stat\<close> finds.\<close>

definition stat_node :: "vfs \<Rightarrow> string \<Rightarrow> u32 + node" where
  "stat_node s path =
     (case resolve s path of
        Inl e \<Rightarrow> Inl e
      | Inr k \<Rightarrow>
          if fails s StatOp k \<noteq> 0 then Inl (fails s StatOp k)
          else (case node_at s k of None \<Rightarrow> Inl ENOENT | Some n \<Rightarrow> Inr n))"

definition put_node :: "string list \<Rightarrow> node \<Rightarrow> vfs \<Rightarrow> vfs" where
  "put_node k n s =
     s\<lparr>nodes := (if k \<in> fst ` set (nodes s)
                 then map (\<lambda>(k', n'). if k' = k then (k', n) else (k', n')) (nodes s)
                 else nodes s @ [(k, n)])\<rparr>"

definition drop_node :: "string list \<Rightarrow> vfs \<Rightarrow> vfs" where
  "drop_node k s = s\<lparr>nodes := filter (\<lambda>(k', _). k' \<noteq> k) (nodes s)\<rparr>"

subsection \<open>The standard library calls\<close>

definition std_is_regular_file :: "vfs \<Rightarrow> string \<Rightarrow> bool" where
  "std_is_regular_file s path = (case stat_node s path of Inr (File _) \<Rightarrow> True | _ \<Rightarrow> False)"

definition std_is_directory :: "vfs \<Rightarrow> string \<Rightarrow> bool" where
  "std_is_directory s path = (case stat_node s path of Inr Dir \<Rightarrow> True | _ \<Rightarrow> False)"

definition std_exists :: "vfs \<Rightarrow> string \<Rightarrow> bool" where
  "std_exists s path = (case stat_node s path of Inr _ \<Rightarrow> True | _ \<Rightarrow> False)"

text \<open>The \<^verbatim>\<open>bool\<close> the call returns, the value of its \<^verbatim>\<open>error_code\<close> (0: none), the tree.\<close>

definition std_create_directory :: "vfs \<Rightarrow> string \<Rightarrow> bool \<times> u32 \<times> vfs" where
  "std_create_directory s path =
     (case resolve s path of
        Inl e \<Rightarrow> (False, e, s)
      | Inr k \<Rightarrow>
          (case node_at s k of
             Some Dir \<Rightarrow> (False, 0, s)
           | Some (File _) \<Rightarrow> (False, EEXIST, s)
           | None \<Rightarrow>
               if fails s CreateOp k \<noteq> 0 then (False, fails s CreateOp k, s)
               else (True, 0, put_node k Dir s)))"

definition std_remove :: "vfs \<Rightarrow> string \<Rightarrow> bool \<times> u32 \<times> vfs" where
  "std_remove s path =
     (case resolve s path of
        Inl e \<Rightarrow> (False, if e = ENOENT then 0 else e, s)
      | Inr k \<Rightarrow>
          (case node_at s k of
             None \<Rightarrow> (False, 0, s)
           | Some n \<Rightarrow>
               if fails s RemoveOp k \<noteq> 0 then (False, fails s RemoveOp k, s)
               else if k = [] then (False, EBUSY, s)
               else if list_ex (\<lambda>(k', _). strict_prefix k k') (nodes s) then (False, ENOTEMPTY, s)
               else (True, 0, drop_node k s)))"

definition move_subtree :: "string list \<Rightarrow> string list \<Rightarrow> vfs \<Rightarrow> vfs" where
  "move_subtree src dst s =
     (let s' = drop_node dst s
      in s'\<lparr>nodes := map (\<lambda>(k, n). (if prefix src k then dst @ drop (length src) k else k, n))
                       (nodes s')\<rparr>)"

definition std_rename :: "vfs \<Rightarrow> string \<Rightarrow> string \<Rightarrow> u32 \<times> vfs" where
  "std_rename s from to =
     (case (resolve s from, resolve s to) of
        (Inl e, _) \<Rightarrow> (e, s)
      | (Inr k, Inl e) \<Rightarrow> (e, s)
      | (Inr src, Inr dst) \<Rightarrow>
          (case node_at s src of
             None \<Rightarrow> (ENOENT, s)
           | Some n \<Rightarrow>
               if fails s RenameOp src \<noteq> 0 then (fails s RenameOp src, s)
               else if src = dst then (0, s)
               else if prefix src dst then (EINVAL, s)
               else if node_at s dst = Some Dir \<and> n \<noteq> Dir then (EISDIR, s)
               else if node_at s dst \<noteq> None \<and> node_at s dst \<noteq> Some Dir \<and> n = Dir then (ENOTDIR, s)
               else if dst = [] \<or> list_ex (\<lambda>(k', _). strict_prefix dst k') (nodes s)
               then (ENOTEMPTY, s)
               else (0, move_subtree src dst s)))"

text \<open>
  Reading a whole file through an \<^verbatim>\<open>ifstream\<close>: the open fails, the stream goes bad while
  reading (a directory opens and then fails to read), or the content.
\<close>

datatype read_outcome = OpenFailed u32 | ReadFailed u32 | ReadData bytes

definition stream_read :: "vfs \<Rightarrow> string \<Rightarrow> read_outcome" where
  "stream_read s path =
     (case resolve s path of
        Inl e \<Rightarrow> OpenFailed e
      | Inr k \<Rightarrow>
          (case node_at s k of
             None \<Rightarrow> OpenFailed ENOENT
           | Some n \<Rightarrow>
               if fails s OpenOp k \<noteq> 0 then OpenFailed (fails s OpenOp k)
               else (case n of
                       Dir \<Rightarrow> ReadFailed EISDIR
                     | File d \<Rightarrow>
                         if fails s ReadOp k \<noteq> 0 then ReadFailed (fails s ReadOp k)
                         else ReadData d)))"

text \<open>
  Writing through an \<^verbatim>\<open>ofstream\<close>: opening truncates. Data below the buffer's size stays in
  the stream's buffer until the destructor flushes it, so that a device error is visible to the
  stream's state only from that size on.
\<close>

datatype write_outcome = WOpenFailed u32 | WFailed u32 | WGood

definition stream_write :: "vfs \<Rightarrow> string \<Rightarrow> bytes \<Rightarrow> write_outcome \<times> vfs" where
  "stream_write s path data =
     (case resolve s path of
        Inl e \<Rightarrow> (WOpenFailed e, s)
      | Inr k \<Rightarrow>
          if node_at s k = Some Dir then (WOpenFailed EISDIR, s)
          else if fails s OpenOp k \<noteq> 0 then (WOpenFailed (fails s OpenOp k), s)
          else if fails s WriteOp k \<noteq> 0
          then (if data \<noteq> [] \<and> stream_buf s \<le> length data then WFailed (fails s WriteOp k)
                else WGood, put_node k (File []) s)
          else (WGood, put_node k (File data) s))"

definition scan_dir :: "vfs \<Rightarrow> string \<Rightarrow> u32 + (string list \<times> node) list" where
  "scan_dir s path =
     (case resolve s path of
        Inl e \<Rightarrow> Inl e
      | Inr k \<Rightarrow>
          (case node_at s k of
             None \<Rightarrow> Inl ENOENT
           | Some (File _) \<Rightarrow> Inl ENOTDIR
           | Some Dir \<Rightarrow>
               if fails s ScanOp k \<noteq> 0 then Inl (fails s ScanOp k)
               else Inr (filter (\<lambda>(k', _). k' \<noteq> [] \<and> butlast k' = k) (nodes s))))"

subsection \<open>The module\<close>

definition with_code :: "error_code \<Rightarrow> u32 \<Rightarrow> error" where
  "with_code c ec = \<lparr>code = c, os_code = ec\<rparr>"

definition file_exists :: "vfs \<Rightarrow> string \<Rightarrow> bool" where
  "file_exists s path = std_is_regular_file s path"

definition dir_exists :: "vfs \<Rightarrow> string \<Rightarrow> bool" where
  "dir_exists s path = std_is_directory s path"

definition fs_mkdir :: "string \<Rightarrow> vfs \<Rightarrow> status \<times> vfs" where
  "fs_mkdir path s =
     (let (created, ec, s') = std_create_directory s path
      in if created then (Inr (), s')
         else if dir_exists s' path then (Inr (), s')
         else (Inl (with_code Io ec), s'))"

definition remove_file :: "string \<Rightarrow> vfs \<Rightarrow> status \<times> vfs" where
  "remove_file path s =
     (let (removed, ec, s') = std_remove s path
      in (if removed then Inr () else Inl (with_code Io ec), s'))"

definition fs_move :: "string \<Rightarrow> string \<Rightarrow> vfs \<Rightarrow> status \<times> vfs" where
  "fs_move from to s =
     (if std_exists s to then (Err Exists, s)
      else (let (ec, s') = std_rename s from to
            in (if ec \<noteq> 0 then Inl (with_code Io ec) else Inr (), s')))"

definition read_all :: "string \<Rightarrow> vfs \<Rightarrow> bytes result" where
  "read_all path s =
     (case stream_read s path of
        OpenFailed e \<Rightarrow> Inl (with_code NotFound e)
      | ReadFailed e \<Rightarrow> Inl (with_code Io e)
      | ReadData d \<Rightarrow> Inr d)"

definition write_all :: "string \<Rightarrow> bytes \<Rightarrow> vfs \<Rightarrow> status \<times> vfs" where
  "write_all path data s =
     (case stream_write s path data of
        (WOpenFailed e, s') \<Rightarrow> (Inl (with_code Io e), s')
      | (WFailed e, s') \<Rightarrow> (Inl (with_code Io e), s')
      | (WGood, s') \<Rightarrow> (Inr (), s'))"

definition list_files :: "string \<Rightarrow> vfs \<Rightarrow> string list result" where
  "list_files dir s =
     (case scan_dir s dir of
        Inl e \<Rightarrow> Inl (with_code NotFound e)
      | Inr es \<Rightarrow>
          Inr (map (\<lambda>(k, _). last k)
                 (filter (\<lambda>(k, n). n \<noteq> Dir \<and> fails s StatOp k = 0) es)))"

definition path_join :: "string \<Rightarrow> string \<Rightarrow> string" where
  "path_join a b =
     (if a = [] then b
      else if b = [] then a
      else (if last a \<noteq> CHR ''/'' then a @ ''/'' else a) @ dropWhile (\<lambda>c. c = CHR ''/'') b)"

subsection \<open>Nodes and resolution\<close>

lemma put_node_simps [simp]:
  "cwd (put_node k n s) = cwd s" "fails (put_node k n s) = fails s"
  "stream_buf (put_node k n s) = stream_buf s"
  by (simp_all add: put_node_def)

lemma drop_node_simps [simp]:
  "cwd (drop_node k s) = cwd s" "fails (drop_node k s) = fails s"
  "stream_buf (drop_node k s) = stream_buf s"
  by (simp_all add: drop_node_def)

lemma map_of_replace:
  "map_of (map (\<lambda>(k', n'). if k' = k then (k', n) else (k', n')) xs) j =
     (if j = k \<and> k \<in> fst ` set xs then Some n else map_of xs j)"
proof (induction xs)
  case (Cons x xs)
  obtain a b where "x = (a, b)" by fastforce
  then show ?case using Cons by (cases "a = k"; cases "j = a") simp_all
qed simp

lemma node_at_put:
  assumes "k \<noteq> []"
  shows "node_at (put_node k n s) j = (if j = k then Some n else node_at s j)"
proof (cases "k \<in> fst ` set (nodes s)")
  case True
  then show ?thesis using assms by (simp add: node_at_def put_node_def map_of_replace)
next
  case False
  then have "map_of (nodes s) k = None" by (simp add: map_of_eq_None_iff)
  with False show ?thesis using assms
    by (auto simp: node_at_def put_node_def map_add_def split: option.splits)
qed

lemma map_of_remove:
  "map_of (filter (\<lambda>(k', _). k' \<noteq> k) xs) j = (if j = k then None else map_of xs j)"
  by (induction xs) auto

lemma node_at_drop:
  "k \<noteq> [] \<Longrightarrow> node_at (drop_node k s) j = (if j = k then None else node_at s j)"
  by (simp add: node_at_def drop_node_def map_of_remove)

definition dir_at :: "vfs \<Rightarrow> string list \<Rightarrow> bool" where
  "dir_at s k \<longleftrightarrow> node_at s k = Some Dir"

lemma walk_Inr_dir: "walk s cur (c # cs) = Inr k \<Longrightarrow> dir_at s cur"
  by (auto simp: dir_at_def split: option.splits node.splits)

text \<open>Creating nodes never breaks a name that resolved before.\<close>

lemma walk_mono:
  "(\<And>j. dir_at s j \<Longrightarrow> dir_at s' j) \<Longrightarrow> walk s cur cs = Inr k \<Longrightarrow> walk s' cur cs = Inr k"
proof (induction cs arbitrary: cur)
  case (Cons c cs)
  from walk_Inr_dir [OF Cons.prems(2)] have "node_at s cur = Some Dir" "node_at s' cur = Some Dir"
    using Cons.prems(1) by (auto simp: dir_at_def)
  with Cons show ?case by (auto split: if_splits)
qed simp

lemma resolve_mono:
  "(\<And>j. dir_at s j \<Longrightarrow> dir_at s' j) \<Longrightarrow> cwd s' = cwd s \<Longrightarrow> resolve s p = Inr k \<Longrightarrow>
     resolve s' p = Inr k"
  by (auto simp: resolve_def Let_def split: if_splits intro: walk_mono)

lemma resolve_put_file:
  assumes "resolve s p = Inr k" and "node_at s j \<noteq> Some Dir" and "j \<noteq> []"
  shows "resolve (put_node j (File d) s) p = Inr k"
  by (rule resolve_mono [OF _ _ assms(1)]) (use assms(2,3) in \<open>auto simp: dir_at_def node_at_put\<close>)

lemma resolve_drop_file:
  assumes "resolve s p = Inr k" and "node_at s j \<noteq> Some Dir" and "j \<noteq> []"
  shows "resolve (drop_node j s) p = Inr k"
  by (rule resolve_mono [OF _ _ assms(1)]) (use assms(2,3) in \<open>auto simp: dir_at_def node_at_drop\<close>)

lemma resolve_put_dir:
  assumes "resolve s p = Inr k" and "j \<noteq> []"
  shows "resolve (put_node j Dir s) p = Inr k"
  by (rule resolve_mono [OF _ _ assms(1)]) (use assms(2) in \<open>auto simp: dir_at_def node_at_put\<close>)

subsection \<open>What the operations promise\<close>

text \<open>No operation on the node fails for a reason outside the tree.\<close>

definition healthy :: "vfs \<Rightarrow> bool" where
  "healthy s \<longleftrightarrow> (\<forall>op k. fails s op k = 0)"

lemma healthyD [simp]: "healthy s \<Longrightarrow> fails s op k = 0"
  by (simp add: healthy_def)

lemma healthy_put [simp]: "healthy (put_node k n s) = healthy s"
  by (simp add: healthy_def)

lemma healthy_drop [simp]: "healthy (drop_node k s) = healthy s"
  by (simp add: healthy_def)

lemma file_exists_iff:
  "healthy s \<Longrightarrow>
     file_exists s p \<longleftrightarrow> (\<exists>k d. resolve s p = Inr k \<and> node_at s k = Some (File d))"
  by (auto simp: file_exists_def std_is_regular_file_def stat_node_def
      split: sum.splits option.splits node.splits)

lemma write_all_ok:
  assumes "healthy s" and "write_all p d s = (Inr (), s')"
  obtains k where "resolve s p = Inr k" "k \<noteq> []" "node_at s k \<noteq> Some Dir"
    "s' = put_node k (File d) s"
proof -
  obtain k where k: "resolve s p = Inr k"
    using assms by (auto simp: write_all_def stream_write_def split: sum.splits)
  moreover have nd: "node_at s k \<noteq> Some Dir"
    using assms k by (auto simp: write_all_def stream_write_def)
  moreover have "k \<noteq> []" using nd by (auto simp: node_at_def)
  moreover have "s' = put_node k (File d) s"
    using assms k nd by (auto simp: write_all_def stream_write_def split: option.splits node.splits)
  ultimately show ?thesis using that by blast
qed

lemma read_all_put:
  assumes "healthy s" and "resolve s p = Inr k" and "k \<noteq> []" and "node_at s k \<noteq> Some Dir"
  shows "read_all p (put_node k (File d) s) = Inr d"
  using resolve_put_file [OF assms(2,4,3), of d] assms(1)
  by (simp add: read_all_def stream_read_def node_at_put [OF assms(3)])

lemma read_after_write:
  assumes "healthy s" and "write_all p d s = (Inr (), s')"
  shows "read_all p s' = Inr d"
proof -
  from assms obtain k where k: "resolve s p = Inr k" "k \<noteq> []" "node_at s k \<noteq> Some Dir"
    "s' = put_node k (File d) s" by (rule write_all_ok)
  show ?thesis unfolding k(4) by (rule read_all_put [OF assms(1) k(1-3)])
qed

lemma write_all_frame:
  assumes "write_all p d s = (r, s')" and "resolve s p = Inr k" and "j \<noteq> k"
  shows "node_at s' j = node_at s j"
proof (cases "k = []")
  case True
  then show ?thesis using assms by (auto simp: write_all_def stream_write_def node_at_def)
next
  case False
  then show ?thesis using assms
    by (auto simp: write_all_def stream_write_def node_at_put
        split: option.splits node.splits if_splits)
qed

lemma remove_file_ok:
  assumes "remove_file p s = (Inr (), s')"
  shows "\<not> file_exists s' p"
proof -
  obtain k where k: "resolve s p = Inr k" and ne: "k \<noteq> []" and s': "s' = drop_node k s"
    using assms
    by (auto simp: remove_file_def std_remove_def split: sum.splits option.splits if_splits)
  show ?thesis
  proof
    assume "file_exists s' p"
    then obtain j d where j: "resolve s' p = Inr j" "node_at s' j = Some (File d)"
      by (auto simp: file_exists_def std_is_regular_file_def stat_node_def
          split: sum.splits option.splits node.splits if_splits)
    have "resolve s p = Inr j"
      by (rule resolve_mono [OF _ _ j(1)])
        (use s' ne in \<open>auto simp: dir_at_def node_at_drop split: if_splits\<close>)
    then show False using k j(2) s' ne by (simp add: node_at_drop)
  qed
qed

text \<open>
  \<^verbatim>\<open>write_all\<close> looks at the stream before its destructor flushes it: a device that refuses the
  data of a small file is reported as success, and the file is left empty.
\<close>

lemma write_all_small_lost:
  assumes "resolve s p = Inr k" and "node_at s k \<noteq> Some Dir" and "fails s OpenOp k = 0"
    and "fails s WriteOp k \<noteq> 0" and "length d < stream_buf s"
  shows "write_all p d s = (Inr (), put_node k (File []) s)"
  using assms by (simp add: write_all_def stream_write_def)

lemma walk_error: "walk s cur cs = Inl e \<Longrightarrow> e = ENOENT \<or> e = ENOTDIR"
  by (induction s cur cs rule: walk.induct) (auto split: option.splits node.splits if_splits)

lemma resolve_error: "resolve s p = Inl e \<Longrightarrow> e \<noteq> 0"
  by (cases "c_str p = []"; cases "hd (c_str p) = CHR ''/''")
    (auto simp: resolve_def ENOENT_def ENOTDIR_def dest!: walk_error)

lemma std_rename_ok:
  assumes "std_rename s p q = (0, s')"
  obtains src dst where "resolve s p = Inr src" "resolve s q = Inr dst" "node_at s src \<noteq> None"
    "src = dst \<and> s' = s \<or>
     \<not> prefix src dst \<and> dst \<noteq> [] \<and> \<not> list_ex (\<lambda>(k', _). strict_prefix dst k') (nodes s) \<and>
     s' = move_subtree src dst s"
proof -
  obtain src where 1: "resolve s p = Inr src"
    using assms resolve_error [of s p] by (cases "resolve s p") (auto simp: std_rename_def)
  obtain dst where 2: "resolve s q = Inr dst"
    using assms 1 resolve_error [of s q] by (cases "resolve s q") (auto simp: std_rename_def)
  note st = assms [unfolded std_rename_def 1 2 prod.case sum.case]
  obtain n where n: "node_at s src = Some n"
    using st by (cases "node_at s src") (simp_all add: ENOENT_def)
  note st = st [unfolded n option.case]
  have "src = dst \<and> s' = s \<or>
     \<not> prefix src dst \<and> dst \<noteq> [] \<and> \<not> list_ex (\<lambda>(k', _). strict_prefix dst k') (nodes s) \<and>
     s' = move_subtree src dst s"
    using st by (simp add: EINVAL_def EISDIR_def ENOTDIR_def ENOTEMPTY_def split: if_split_asm)
  with 1 2 n that show ?thesis by simp
qed

lemma fs_move_ok:
  assumes "fs_move p q s = (Inr (), s')"
  obtains "\<not> std_exists s q" "std_rename s p q = (0, s')"
  using assms that by (auto simp: fs_move_def split: if_splits prod.splits)

lemma mkdir_ok:
  assumes "healthy s" and "fs_mkdir p s = (Inr (), s')"
  shows "dir_exists s' p"
proof -
  obtain created ec t where c: "std_create_directory s p = (created, ec, t)"
    by (cases "std_create_directory s p") auto
  show ?thesis
  proof (cases created)
    case True
    then obtain k where k: "resolve s p = Inr k" "node_at s k = None" "t = put_node k Dir s"
      using c by (auto simp: std_create_directory_def
          split: sum.splits option.splits node.splits if_splits)
    then have ne: "k \<noteq> []" by (auto simp: node_at_def)
    have "s' = put_node k Dir s" using k assms True c by (simp add: fs_mkdir_def)
    then show ?thesis using resolve_put_dir [OF k(1) ne] assms(1)
      by (simp add: dir_exists_def std_is_directory_def stat_node_def node_at_put [OF ne])
  next
    case False
    with assms c show ?thesis by (simp add: fs_mkdir_def split: if_splits)
  qed
qed

subsection \<open>join\<close>

lemma path_join_Nil [simp]: "path_join [] b = b" "path_join a [] = a"
  by (simp_all add: path_join_def)

lemma path_join_prefix: "prefix a (path_join a b)"
  by (simp add: path_join_def)

subsection \<open>Properties\<close>

text \<open>
  On a file system without faults, a successful \<^verbatim>\<open>write_all\<close> leaves exactly the data in the
  file it names, to be read back, and no other node changes.
\<close>

theorem write_all_stores:
  assumes "healthy s" and "write_all p d s = (Inr (), s')"
  shows "read_all p s' = Inr d \<and>
    (\<forall>j. resolve s p \<noteq> Inr j \<longrightarrow> node_at s' j = node_at s j)"
proof -
  obtain k where k: "resolve s p = Inr k" using assms by (rule write_all_ok)
  show ?thesis using read_after_write [OF assms] write_all_frame [OF assms(2) k] k by auto
qed

definition demo_vfs :: vfs where
  "demo_vfs = \<lparr>nodes = [([''d''], Dir)], cwd = [], fails = (\<lambda>_ _. 0), stream_buf = 8192\<rparr>"

lemma write_all_stores_witness: "read_all ''/d/f'' (snd (write_all ''/d/f'' [1, 2] demo_vfs)) = Inr [1, 2]"
proof -
  have h: "healthy demo_vfs" by (simp add: healthy_def demo_vfs_def)
  have "fst (write_all ''/d/f'' [1, 2] demo_vfs) = Inr ()" by code_simp
  then have "write_all ''/d/f'' [1, 2] demo_vfs = (Inr (), snd (write_all ''/d/f'' [1, 2] demo_vfs))"
    by (metis prod.collapse)
  from write_all_stores [OF h this] show ?thesis by simp
qed

text \<open>
  A device error on data smaller than the stream's buffer is lost: \<^verbatim>\<open>write_all\<close> tests the
  stream before its destructor flushes, reports success, and the file is empty.
\<close>

theorem write_all_lost_error:
  assumes "resolve s p = Inr k" and "node_at s k \<noteq> Some Dir" and "fails s OpenOp k = 0"
    and "fails s WriteOp k \<noteq> 0" and "length d < stream_buf s"
  shows "write_all p d s = (Inr (), put_node k (File []) s)"
  using assms by (rule write_all_small_lost)

lemma write_all_lost_error_witness:
  "write_all ''/f'' [1] (demo_vfs\<lparr>fails := (\<lambda>op _. if op = WriteOp then 28 else 0)\<rparr>) =
     (Inr (), put_node [''f''] (File []) (demo_vfs\<lparr>fails := (\<lambda>op _. if op = WriteOp then 28 else 0)\<rparr>))"
proof (rule write_all_lost_error)
  show "resolve (demo_vfs\<lparr>fails := (\<lambda>op _. if op = WriteOp then 28 else 0)\<rparr>) ''/f'' = Inr [''f'']"
    by code_simp
qed (simp_all add: demo_vfs_def node_at_def)

end
