(* ===== verification/Ini.thy ===== *)
theory Ini
  imports Fs
begin

text \<open>
  \<^verbatim>\<open>core/src/vc_ini.cpp\<close>: the ordered store of INI entries, its typed readers, the loader and
  the writer. The contract of a keyed store is the locale \<open>kv_store\<close>; the entries with their
  case-insensitive keys are its model.
\<close>

subsection \<open>The store\<close>

record entry =
  e_section :: string
  e_key :: string
  e_value :: string

type_synonym ini = "entry list"

fun trim_front :: "string \<Rightarrow> string" where
  "trim_front [] = []"
| "trim_front (c # cs) = (if is_space c then trim_front cs else c # cs)"

definition trim :: "string \<Rightarrow> string" where
  "trim s = rev (trim_front (rev (trim_front s)))"

definition same_key :: "string \<times> string \<Rightarrow> string \<times> string \<Rightarrow> bool" where
  "same_key a b \<longleftrightarrow> iequals (fst a) (fst b) \<and> iequals (snd a) (snd b)"

abbreviation key_of :: "entry \<Rightarrow> string \<times> string" where
  "key_of e \<equiv> (e_section e, e_key e)"

fun ini_find :: "ini \<Rightarrow> string \<times> string \<Rightarrow> entry option" where
  "ini_find [] k = None"
| "ini_find (e # es) k = (if same_key (key_of e) k then Some e else ini_find es k)"

definition ini_get :: "ini \<Rightarrow> string \<times> string \<Rightarrow> string option" where
  "ini_get es k = map_option e_value (ini_find es k)"

definition ini_get_int :: "ini \<Rightarrow> string \<times> string \<Rightarrow> int \<Rightarrow> int" where
  "ini_get_int es k def =
     (case ini_find es k of
        None \<Rightarrow> def
      | Some e \<Rightarrow>
          if e_value e = [] then def
          else (case parse_uint (e_value e) 0x7FFFFFFF 10 of
                  Some v \<Rightarrow> int v
                | None \<Rightarrow> def))"

definition ini_get_bool :: "ini \<Rightarrow> string \<times> string \<Rightarrow> bool \<Rightarrow> bool" where
  "ini_get_bool es k def =
     (case ini_find es k of
        None \<Rightarrow> def
      | Some e \<Rightarrow>
          if e_value e = [] then def
          else iequals (e_value e) ''1'' \<or> iequals (e_value e) ''true'' \<or>
               iequals (e_value e) ''yes'' \<or> iequals (e_value e) ''on'')"

fun ini_set :: "ini \<Rightarrow> string \<times> string \<Rightarrow> string \<Rightarrow> ini" where
  "ini_set [] k v = [\<lparr>e_section = fst k, e_key = snd k, e_value = v\<rparr>]"
| "ini_set (e # es) k v =
     (if same_key (key_of e) k then e\<lparr>e_value := v\<rparr> # es else e # ini_set es k v)"

definition ini_set_int :: "ini \<Rightarrow> string \<times> string \<Rightarrow> int \<Rightarrow> ini" where
  "ini_set_int es k i = ini_set es k (int_to_string i)"

subsection \<open>Loading and saving\<close>

text \<open>One line of the file: the section in force and the store after it.\<close>

definition load_line :: "string \<Rightarrow> string \<times> ini \<Rightarrow> string \<times> ini" where
  "load_line raw st =
     (let (section_name, ini) = st; s = trim raw
      in if s = [] \<or> hd s = CHR '';'' \<or> hd s = CHR ''#'' then st
         else if hd s = CHR ''[''
         then (case find_char CHR '']'' s of
                 Some close \<Rightarrow> (trim (take (close - 1) (drop 1 s)), ini)
               | None \<Rightarrow> st)
         else (case find_char CHR ''='' s of
                 Some eq \<Rightarrow>
                   (let key = trim (take eq s); val = trim (drop (eq + 1) s)
                    in (section_name, if key \<noteq> [] then ini_set ini (section_name, key) val else ini))
               | None \<Rightarrow> st))"

function load_text :: "string \<Rightarrow> string \<times> ini \<Rightarrow> string \<times> ini" where
  "load_text text st =
     (if text = [] then st
      else (case find_char CHR 0x0A text of
              None \<Rightarrow> load_text [] (load_line text st)
            | Some nl \<Rightarrow> load_text (drop (nl + 1) text) (load_line (take nl text) st)))"
  by pat_completeness auto
termination
  by (relation "measure (\<lambda>(text, st). length text)") auto

declare load_text.simps [simp del]

definition ini_load :: "string \<Rightarrow> vfs \<Rightarrow> ini result" where
  "ini_load path s =
     (case read_all path s of
        Inl e \<Rightarrow> Inl e
      | Inr data \<Rightarrow> Inr (snd (load_text (as_view data) ([], []))))"

definition entry_line :: "entry \<Rightarrow> string" where
  "entry_line e = e_key e @ ''='' @ e_value e @ [CHR 0x0A]"

definition save_group :: "ini \<Rightarrow> string \<Rightarrow> string" where
  "save_group es sec =
     ''['' @ sec @ '']'' @ [CHR 0x0A] @
     concat (map entry_line (filter (\<lambda>e. iequals (e_section e) sec) es)) @ [CHR 0x0A]"

definition section_seen :: "ini \<Rightarrow> nat \<Rightarrow> bool" where
  "section_seen es i = list_ex (\<lambda>e. iequals (e_section e) (e_section (es ! i))) (take i es)"

definition save_text :: "ini \<Rightarrow> string" where
  "save_text es =
     concat (map (\<lambda>i. if section_seen es i then [] else save_group es (e_section (es ! i)))
              [0..<length es])"

definition ini_save :: "ini \<Rightarrow> string \<Rightarrow> vfs \<Rightarrow> status \<times> vfs" where
  "ini_save es path s = write_all path (as_bytes (save_text es)) s"

subsection \<open>The contract of a keyed store\<close>

locale kv_store =
  fixes get :: "'s \<Rightarrow> 'k \<Rightarrow> 'v option"
    and put :: "'s \<Rightarrow> 'k \<Rightarrow> 'v \<Rightarrow> 's"
    and same :: "'k \<Rightarrow> 'k \<Rightarrow> bool"
  assumes same_refl: "same k k"
    and same_sym: "same j k \<Longrightarrow> same k j"
    and same_trans: "same i j \<Longrightarrow> same j k \<Longrightarrow> same i k"
    and get_put: "get (put s k v) j = (if same k j then Some v else get s j)"
begin

definition agree :: "'s \<Rightarrow> 's \<Rightarrow> bool" where
  "agree s t \<longleftrightarrow> (\<forall>k. get s k = get t k)"

definition put_list :: "'s \<Rightarrow> ('k \<times> 'v) list \<Rightarrow> 's" where
  "put_list s kvs = foldl (\<lambda>s (k, v). put s k v) s kvs"

lemma put_put: "same j k \<Longrightarrow> agree (put (put s j v) k w) (put s k w)"
  by (auto simp: agree_def get_put dest: same_sym same_trans)

lemma put_commute: "\<not> same j k \<Longrightarrow> agree (put (put s j v) k w) (put (put s k w) j v)"
  by (auto simp: agree_def get_put dest: same_sym same_trans)

lemma put_cong: "agree s t \<Longrightarrow> agree (put s k v) (put t k v)"
  by (simp add: agree_def get_put)

lemma get_put_list_other:
  "\<forall>(k, v) \<in> set kvs. \<not> same k j \<Longrightarrow> get (put_list s kvs) j = get s j"
  unfolding put_list_def by (induction kvs arbitrary: s) (auto simp: get_put)

text \<open>With distinct keys the order of the writes does not matter.\<close>

lemma get_put_list:
  "\<forall>p \<in> set kvs. \<forall>q \<in> set kvs. same (fst p) (fst q) \<longrightarrow> snd p = snd q \<Longrightarrow>
   (k, v) \<in> set kvs \<Longrightarrow> same k j \<Longrightarrow> get (put_list s kvs) j = Some v"
proof (induction kvs arbitrary: s k v)
  case (Cons p kvs)
  show ?case
  proof (cases "\<exists>q \<in> set kvs. same (fst q) j")
    case True
    then obtain k' v' where q: "(k', v') \<in> set kvs" "same k' j" by auto
    then have "same (fst (k', v')) (fst (k, v))"
      using Cons.prems(3) by (auto dest: same_sym same_trans)
    then have "v' = v" using Cons.prems(1,2) q(1) by fastforce
    moreover have "get (put_list (put s (fst p) (snd p)) kvs) j = Some v'"
      by (rule Cons.IH [OF _ q]) (use Cons.prems(1) in auto)
    ultimately show ?thesis by (simp add: put_list_def case_prod_beta)
  next
    case False
    then have "p = (k, v)" using Cons.prems by auto
    moreover have "get (put_list (put s k v) kvs) j = get (put s k v) j"
      by (rule get_put_list_other) (use False in auto)
    ultimately show ?thesis using Cons.prems(3) by (simp add: put_list_def get_put)
  qed
qed simp

end

lemma same_key_sym: "same_key a b \<Longrightarrow> same_key b a"
  by (simp add: same_key_def iequals_iff)

lemma same_key_trans: "same_key a b \<Longrightarrow> same_key b c \<Longrightarrow> same_key a c"
  by (simp add: same_key_def iequals_iff)

lemma same_key_refl [simp]: "same_key a a"
  by (simp add: same_key_def)

lemma ini_get_set: "ini_get (ini_set es k v) j = (if same_key k j then Some v else ini_get es j)"
proof (induction es)
  case Nil
  show ?case by (cases k) (simp add: ini_get_def)
next
  case (Cons e es)
  then show ?case
    by (auto simp: ini_get_def dest: same_key_sym same_key_trans)
qed

interpretation ini: kv_store ini_get ini_set same_key
  by unfold_locales (auto simp: ini_get_set dest: same_key_sym same_key_trans)

subsection \<open>Keys stay distinct\<close>

definition ini_wf :: "ini \<Rightarrow> bool" where
  "ini_wf es \<longleftrightarrow> sorted_wrt (\<lambda>a b. \<not> same_key (key_of a) (key_of b)) es"

lemma ini_wf_Nil [simp]: "ini_wf []"
  by (simp add: ini_wf_def)

lemma key_of_set: "e \<in> set (ini_set es k v) \<Longrightarrow> (\<exists>d \<in> set es. key_of d = key_of e) \<or> key_of e = k"
  by (induction es) (auto split: if_splits)

lemma ini_wf_set: "ini_wf es \<Longrightarrow> ini_wf (ini_set es k v)"
proof (induction es)
  case Nil
  show ?case by (cases k) (simp add: ini_wf_def)
next
  case (Cons e es)
  show ?case
  proof (cases "same_key (key_of e) k")
    case False
    have "\<not> same_key (key_of e) (key_of d)" if "d \<in> set (ini_set es k v)" for d
      using key_of_set [OF that] False Cons.prems by (auto simp: ini_wf_def)
    then show ?thesis using Cons False by (auto simp: ini_wf_def)
  qed (use Cons.prems in \<open>simp add: ini_wf_def\<close>)
qed

lemma ini_wf_unique:
  "ini_wf es \<Longrightarrow> a \<in> set es \<Longrightarrow> b \<in> set es \<Longrightarrow> same_key (key_of a) (key_of b) \<Longrightarrow> a = b"
  by (induction es) (auto simp: ini_wf_def dest: same_key_sym)

lemma ini_wf_load_line: "ini_wf (snd st) \<Longrightarrow> ini_wf (snd (load_line raw st))"
  by (cases st) (auto simp: load_line_def Let_def ini_wf_set split: option.split)

lemma ini_wf_load_text: "ini_wf (snd st) \<Longrightarrow> ini_wf (snd (load_text t st))"
proof (induction t st rule: load_text.induct)
  case (1 t st)
  then show ?case
    by (subst load_text.simps) (auto simp: ini_wf_load_line split: option.split)
qed

lemma ini_load_wf: "ini_load path s = Inr es \<Longrightarrow> ini_wf es"
  by (auto simp: ini_load_def ini_wf_load_text split: sum.splits)

subsection \<open>What is saved loads\<close>

definition entry_ok :: "entry \<Rightarrow> bool" where
  "entry_ok e \<longleftrightarrow>
     trim (e_section e) = e_section e \<and> CHR 0x0A \<notin> set (e_section e) \<and>
     CHR '']'' \<notin> set (e_section e) \<and>
     e_key e \<noteq> [] \<and> trim (e_key e) = e_key e \<and> CHR 0x0A \<notin> set (e_key e) \<and>
     CHR ''='' \<notin> set (e_key e) \<and> hd (e_key e) \<noteq> CHR '';'' \<and> hd (e_key e) \<noteq> CHR ''#'' \<and>
     hd (e_key e) \<noteq> CHR ''['' \<and>
     trim (e_value e) = e_value e \<and> CHR 0x0A \<notin> set (e_value e)"

lemma trim_front_id: "s = [] \<or> \<not> is_space (hd s) \<Longrightarrow> trim_front s = s"
  by (cases s) auto

lemma trim_id: "s = [] \<or> (\<not> is_space (hd s) \<and> \<not> is_space (last s)) \<Longrightarrow> trim s = s"
  by (auto simp: trim_def trim_front_id hd_rev)

lemma trim_front_hd: "trim_front s \<noteq> [] \<Longrightarrow> \<not> is_space (hd (trim_front s))"
  by (induction s) auto

lemma trim_front_suffix: "\<exists>p. s = p @ trim_front s"
proof (induction s)
  case (Cons c s)
  then obtain p where "s = p @ trim_front s" by blast
  then have "c # s = (if is_space c then c # p else []) @ trim_front (c # s)" by simp
  then show ?case by blast
qed simp

lemma trim_ends: "trim s = s \<Longrightarrow> s \<noteq> [] \<Longrightarrow> \<not> is_space (hd s) \<and> \<not> is_space (last s)"
proof -
  assume t: "trim s = s" and ne: "s \<noteq> []"
  let ?u = "trim_front s"
  have rs: "trim_front (rev ?u) = rev s" using t by (simp add: trim_def rev_swap)
  then have "\<not> is_space (last s)" using trim_front_hd [of "rev ?u"] ne by (simp add: hd_rev)
  moreover have "?u = s"
  proof -
    obtain p where "s = p @ ?u" using trim_front_suffix by blast
    moreover obtain q where "rev ?u = q @ rev s" using trim_front_suffix [of "rev ?u"] rs by auto
    ultimately have "length p + length q = 0"
      by (metis add.assoc add_cancel_left_left length_append length_rev)
    with \<open>s = p @ ?u\<close> show ?thesis by simp
  qed
  then have "\<not> is_space (hd s)" using trim_front_hd [of s] ne by simp
  ultimately show ?thesis by simp
qed

lemma load_text_Nil [simp]: "load_text [] st = st"
  by (simp add: load_text.simps)

lemma load_text_line:
  "CHR 0x0A \<notin> set l \<Longrightarrow> load_text (l @ CHR 0x0A # r) st = load_text r (load_line l st)"
  by (subst load_text.simps) simp

lemma load_line_blank [simp]: "load_line [] st = st"
  by (cases st) (simp add: load_line_def trim_def)

lemma bracket_no_space: "\<not> is_space CHR ''[''" "\<not> is_space CHR '']''" "\<not> is_space CHR ''=''"
  by (simp_all add: is_space_def)

lemma load_line_section:
  assumes "trim sec = sec" and "CHR '']'' \<notin> set sec"
  shows "load_line (''['' @ sec @ '']'') (sec0, ini) = (sec, ini)"
proof -
  let ?s = "''['' @ sec @ '']''"
  have t: "trim ?s = ?s" by (rule trim_id) (simp add: bracket_no_space)
  have f: "find_char CHR '']'' ?s = Some (Suc (length sec))"
    using find_char_append [of "CHR '']''" "''['' @ sec" "[]"] assms(2) by simp
  show ?thesis unfolding load_line_def prod.case Let_def t f
    by (simp add: assms(1))
qed

lemma load_line_entry:
  assumes "entry_ok e"
  shows "load_line (e_key e @ ''='' @ e_value e) (sec, ini) =
    (sec, ini_set ini (sec, e_key e) (e_value e))"
proof -
  let ?s = "e_key e @ ''='' @ e_value e"
  have k: "e_key e \<noteq> []" "trim (e_key e) = e_key e" "trim (e_value e) = e_value e"
    and eq: "CHR ''='' \<notin> set (e_key e)"
    and h: "hd ?s \<noteq> CHR '';''" "hd ?s \<noteq> CHR ''#''" "hd ?s \<noteq> CHR ''[''"
    using assms by (auto simp: entry_ok_def)
  have "\<not> is_space (last ?s)"
    using trim_ends [OF k(3)] by (cases "e_value e = []") (auto simp: bracket_no_space)
  then have t: "trim ?s = ?s"
    using trim_ends [OF k(2,1)] k(1) by (intro trim_id) simp
  have f: "find_char CHR ''='' ?s = Some (length (e_key e))"
    using find_char_append [OF eq] by simp
  have ne: "?s \<noteq> []" by simp
  show ?thesis unfolding load_line_def prod.case Let_def t f option.case
    using h k by simp
qed

definition group_kvs :: "ini \<Rightarrow> string \<Rightarrow> ((string \<times> string) \<times> string) list" where
  "group_kvs es sec =
     map (\<lambda>e. ((sec, e_key e), e_value e)) (filter (\<lambda>e. iequals (e_section e) sec) es)"

lemma load_entries:
  "\<forall>e \<in> set es. entry_ok e \<Longrightarrow>
   load_text (concat (map entry_line es) @ r) (sec, ini) =
     load_text r (sec, ini.put_list ini (map (\<lambda>e. ((sec, e_key e), e_value e)) es))"
proof (induction es arbitrary: ini)
  case (Cons e es)
  have nl: "CHR 0x0A \<notin> set (e_key e @ ''='' @ e_value e)"
    using Cons.prems by (auto simp: entry_ok_def)
  have "concat (map entry_line (e # es)) @ r =
      (e_key e @ ''='' @ e_value e) @ CHR 0x0A # (concat (map entry_line es) @ r)"
    by (simp add: entry_line_def)
  then have "load_text (concat (map entry_line (e # es)) @ r) (sec, ini) =
      load_text (concat (map entry_line es) @ r) (load_line (e_key e @ ''='' @ e_value e) (sec, ini))"
    by (simp only: load_text_line [OF nl])
  also have "\<dots> = load_text (concat (map entry_line es) @ r)
      (sec, ini_set ini (sec, e_key e) (e_value e))"
    using Cons.prems load_line_entry [of e sec ini] by simp
  finally show ?case using Cons by (simp add: ini.put_list_def)
qed (simp add: ini.put_list_def)

lemma load_group:
  assumes "\<forall>e \<in> set es. entry_ok e" and "trim sec = sec" and "CHR 0x0A \<notin> set sec"
    and "CHR '']'' \<notin> set sec"
  shows "load_text (save_group es sec @ r) (sec0, ini) =
    load_text r (sec, ini.put_list ini (group_kvs es sec))"
proof -
  let ?es = "filter (\<lambda>e. iequals (e_section e) sec) es"
  have nl: "CHR 0x0A \<notin> set (''['' @ sec @ '']'')" using assms(3) by auto
  have "save_group es sec @ r =
      (''['' @ sec @ '']'') @ CHR 0x0A # (concat (map entry_line ?es) @ [] @ CHR 0x0A # r)"
    by (simp add: save_group_def)
  then have "load_text (save_group es sec @ r) (sec0, ini) =
      load_text (concat (map entry_line ?es) @ [] @ CHR 0x0A # r) (sec, ini)"
    by (simp only: load_text_line [OF nl] load_line_section [OF assms(2,4)])
  also have "\<dots> = load_text ([] @ CHR 0x0A # r) (sec, ini.put_list ini (group_kvs es sec))"
    using assms(1) by (subst load_entries) (auto simp: group_kvs_def)
  finally show ?thesis by (simp only: load_text_line list.set empty_iff not_False_eq_True load_line_blank)
qed

definition saved_kvs :: "ini \<Rightarrow> nat list \<Rightarrow> ((string \<times> string) \<times> string) list" where
  "saved_kvs es ns =
     concat (map (\<lambda>i. if section_seen es i then [] else group_kvs es (e_section (es ! i))) ns)"

lemma load_saved:
  "\<forall>e \<in> set es. entry_ok e \<Longrightarrow> \<forall>i \<in> set ns. i < length es \<Longrightarrow>
   snd (load_text (concat (map (\<lambda>i. if section_seen es i then []
       else save_group es (e_section (es ! i))) ns)) st) = ini.put_list (snd st) (saved_kvs es ns)"
proof (induction ns arbitrary: st)
  case Nil
  show ?case by (simp add: saved_kvs_def ini.put_list_def)
next
  case (Cons i ns)
  obtain sec0 ini where st: "st = (sec0, ini)" by fastforce
  have ok: "entry_ok (es ! i)" using Cons.prems by simp
  show ?case
  proof (cases "section_seen es i")
    case True
    then show ?thesis using Cons by (simp add: saved_kvs_def)
  next
    case False
    let ?sec = "e_section (es ! i)"
    have "load_text (save_group es ?sec @ concat (map (\<lambda>i. if section_seen es i then []
        else save_group es (e_section (es ! i))) ns)) st = load_text (concat (map (\<lambda>i.
        if section_seen es i then [] else save_group es (e_section (es ! i))) ns))
        (?sec, ini.put_list ini (group_kvs es ?sec))"
      unfolding st using ok Cons.prems by (intro load_group) (auto simp: entry_ok_def)
    with False Cons st show ?thesis
      by (simp add: saved_kvs_def ini.put_list_def)
  qed
qed

lemma first_of_section:
  "i < length es \<Longrightarrow>
   \<exists>j \<le> i. \<not> section_seen es j \<and> iequals (e_section (es ! j)) (e_section (es ! i))"
proof (induction i rule: less_induct)
  case (less i)
  show ?case
  proof (cases "section_seen es i")
    case True
    then obtain j where j: "j < i" "iequals (e_section (es ! j)) (e_section (es ! i))"
      by (auto simp: section_seen_def list_ex_iff in_set_conv_nth)
    then show ?thesis using less.IH [OF j(1)] less.prems
      by (meson iequals_trans less_or_eq_imp_le order.strict_trans order_trans)
  qed auto
qed

lemma saved_kvs_iff:
  "(k, v) \<in> set (saved_kvs es [0..<length es]) \<longleftrightarrow>
     (\<exists>i < length es. \<not> section_seen es i \<and>
       (\<exists>e \<in> set es. iequals (e_section e) (e_section (es ! i)) \<and>
          k = (e_section (es ! i), e_key e) \<and> v = e_value e))"
  by (auto simp: saved_kvs_def group_kvs_def)

lemma get_saved:
  assumes "ini_wf es"
  shows "ini_get (ini.put_list [] (saved_kvs es [0..<length es])) j = ini_get es j"
proof (cases "ini_find es j")
  case None
  have no: "\<not> same_key (key_of e) j" if "e \<in> set es" for e
    using None that by (induction es) (auto split: if_splits)
  have "\<forall>(k, v) \<in> set (saved_kvs es [0..<length es]). \<not> same_key k j"
    using no by (fastforce simp: saved_kvs_iff same_key_def iequals_iff)
  from ini.get_put_list_other [OF this, of "[]"] None show ?thesis by (simp add: ini_get_def)
next
  case (Some e)
  have e: "e \<in> set es" "same_key (key_of e) j"
    using Some by (induction es) (auto split: if_splits)
  then obtain i where i: "i < length es" "es ! i = e" by (auto simp: in_set_conv_nth)
  obtain f where f: "f \<le> i" "\<not> section_seen es f" "iequals (e_section (es ! f)) (e_section e)"
    using first_of_section [OF i(1)] i(2) by auto
  have mem: "((e_section (es ! f), e_key e), e_value e) \<in> set (saved_kvs es [0..<length es])"
    unfolding saved_kvs_iff using f i e(1) by (intro exI [of _ f]) (auto simp: iequals_iff)
  have same: "same_key (e_section (es ! f), e_key e) j"
    using f(3) e(2) by (simp add: same_key_def iequals_iff)
  have func: "\<forall>p \<in> set (saved_kvs es [0..<length es]). \<forall>q \<in> set (saved_kvs es [0..<length es]).
      same_key (fst p) (fst q) \<longrightarrow> snd p = snd q"
  proof (intro ballI impI)
    fix p q assume pq: "p \<in> set (saved_kvs es [0..<length es])"
      "q \<in> set (saved_kvs es [0..<length es])" "same_key (fst p) (fst q)"
    obtain a where a: "a \<in> set es" "same_key (key_of a) (fst p)" "snd p = e_value a"
      using pq(1) by (cases p rule: prod.exhaust) (auto simp: saved_kvs_iff same_key_def)
    obtain b where b: "b \<in> set es" "same_key (key_of b) (fst q)" "snd q = e_value b"
      using pq(2) by (cases q rule: prod.exhaust) (auto simp: saved_kvs_iff same_key_def)
    have "same_key (key_of a) (key_of b)"
      using a(2) b(2) pq(3) by (auto simp: same_key_def iequals_iff)
    then have "a = b" using ini_wf_unique [OF assms a(1) b(1)] by simp
    then show "snd p = snd q" using a b by simp
  qed
  from ini.get_put_list [OF func mem same, of "[]"] Some show ?thesis by (simp add: ini_get_def)
qed

lemma load_save_text:
  assumes "ini_wf es" and "\<forall>e \<in> set es. entry_ok e"
  shows "ini.agree (snd (load_text (save_text es) ([], []))) es"
  using load_saved [OF assms(2), of "[0..<length es]" "([], [])"] get_saved [OF assms(1)]
  by (simp add: ini.agree_def save_text_def)

lemma load_after_save:
  assumes "healthy s" and "ini_wf es" and "\<forall>e \<in> set es. entry_ok e"
    and "ini_save es path s = (Inr (), s')"
  shows "\<exists>es'. ini_load path s' = Inr es' \<and> ini_wf es' \<and> (\<forall>k. ini_get es' k = ini_get es k)"
proof -
  have "read_all path s' = Inr (as_bytes (save_text es))"
    using assms(1,4) by (simp add: ini_save_def read_after_write)
  then show ?thesis
    using load_save_text [OF assms(2,3)] ini_wf_load_text [of "([], [])" "save_text es"]
    by (simp add: ini_load_def ini.agree_def)
qed

subsection \<open>Properties\<close>

text \<open>
  C25: saving a store and loading the file again gives the same value for every section and
  key, in any spelling, and the loaded store again holds each key once.
\<close>

theorem ini_roundtrip:
  assumes "healthy s" and "ini_wf es" and "\<forall>e \<in> set es. entry_ok e"
    and "ini_save es path s = (Inr (), s')"
  shows "\<exists>es'. ini_load path s' = Inr es' \<and> ini_wf es' \<and> (\<forall>k. ini_get es' k = ini_get es k)"
  using assms by (rule load_after_save)

definition demo_ini :: ini where
  "demo_ini = ini_set (ini_set (ini_set [] (''A'', ''x'') ''1'') (''B'', ''y'') ''two'') (''a'', ''z'') []"

definition empty_vfs :: vfs where
  "empty_vfs = \<lparr>nodes = [], cwd = [], fails = (\<lambda>_ _. 0), stream_buf = 8192\<rparr>"

lemma ini_roundtrip_witness:
  "\<exists>es'. ini_load ''/s.ini'' (snd (ini_save demo_ini ''/s.ini'' empty_vfs)) = Inr es' \<and>
     ini_get es' (''B'', ''Y'') = Some ''two''"
proof -
  have h: "healthy empty_vfs" by (simp add: healthy_def empty_vfs_def)
  have w: "ini_wf demo_ini" unfolding demo_ini_def by (intro ini_wf_set ini_wf_Nil)
  have e: "\<forall>e \<in> set demo_ini. entry_ok e"
    unfolding list_all_iff [symmetric] by code_simp
  have "fst (ini_save demo_ini ''/s.ini'' empty_vfs) = Inr ()" by code_simp
  then have s: "ini_save demo_ini ''/s.ini'' empty_vfs =
      (Inr (), snd (ini_save demo_ini ''/s.ini'' empty_vfs))" by (metis prod.collapse)
  have g: "ini_get demo_ini (''B'', ''Y'') = Some ''two''" by code_simp
  from ini_roundtrip [OF h w e s] g show ?thesis by auto
qed

text \<open>Loading any file gives a store that holds each section and key at most once.\<close>

theorem ini_load_distinct:
  assumes "ini_load path s = Inr es"
  shows "ini_wf es"
  using assms by (rule ini_load_wf)

lemma ini_load_distinct_witness:
  "ini_wf (snd (load_text ''[A]x=1'' ([], []))) \<and>
   ini_load ''/f'' (put_node [''f''] (File []) empty_vfs) = Inr [] \<and> ini_wf []"
proof -
  have l: "ini_load ''/f'' (put_node [''f''] (File []) empty_vfs) = Inr []" by code_simp
  from ini_load_distinct [OF l] l show ?thesis by (simp add: ini_wf_load_text)
qed

end
