(* ===== verification/Log.thy ===== *)
theory Log
  imports Fs
begin

text \<open>
  \<^verbatim>\<open>core/src/vc_log.cpp\<close>: the process-wide log sink. Its globals are the record \<open>log_state\<close>,
  together with what has been written to the two standard streams; the file system is passed
  along. The mutex makes each function one atomic step, which is what a function here is.
  The broken-down local time is an argument of \<open>log_write\<close>.
\<close>

subsection \<open>Levels and configuration\<close>

datatype level = Trace | Debug | Info | Succ_level | Warn | Error_level

definition level_num :: "level \<Rightarrow> nat" where
  "level_num l =
     (case l of Trace \<Rightarrow> 0 | Debug \<Rightarrow> 1 | Info \<Rightarrow> 2 | Succ_level \<Rightarrow> 3 | Warn \<Rightarrow> 4 | Error_level \<Rightarrow> 5)"

lemma level_num_inj: "level_num a = level_num b \<longleftrightarrow> a = b"
  by (cases a; cases b) (simp_all add: level_num_def)

instantiation level :: linorder
begin

definition less_eq_level :: "level \<Rightarrow> level \<Rightarrow> bool" where
  "less_eq_level a b \<longleftrightarrow> level_num a \<le> level_num b"

definition less_level :: "level \<Rightarrow> level \<Rightarrow> bool" where
  "less_level a b \<longleftrightarrow> level_num a < level_num b"

instance
  by standard (auto simp: less_eq_level_def less_level_def level_num_inj)

end

record log_config =
  cfg_level :: level
  cfg_enabled :: bool
  console :: bool
  show_event_type :: bool
  time_precision :: bool
  file_path :: string
  max_file_size_mb :: int
  max_rotate_files :: int

definition default_log_config :: log_config where
  "default_log_config =
     \<lparr>cfg_level = Info, cfg_enabled = True, console = True, show_event_type = True,
      time_precision = True, file_path = [], max_file_size_mb = 10, max_rotate_files = 10\<rparr>"

definition kMaxMessageBytes :: nat where
  "kMaxMessageBytes = 8192"

definition level_tag :: "level \<Rightarrow> string" where
  "level_tag l =
     (case l of
        Trace \<Rightarrow> ''TRACE'' | Debug \<Rightarrow> ''DEBUG'' | Info \<Rightarrow> ''INFO '' | Succ_level \<Rightarrow> ''SUCC ''
      | Warn \<Rightarrow> ''WARN '' | Error_level \<Rightarrow> ''ERROR'')"

definition level_from_str :: "string \<Rightarrow> level" where
  "level_from_str s =
     (if iequals s ''LOG_TRACE'' \<or> iequals s ''TRACE'' then Trace
      else if iequals s ''LOG_DEBUG'' \<or> iequals s ''DEBUG'' then Debug
      else if iequals s ''LOG_INFO'' \<or> iequals s ''INFO'' then Info
      else if iequals s ''LOG_WARN'' \<or> iequals s ''WARN'' then Warn
      else if iequals s ''LOG_ERROR'' \<or> iequals s ''ERROR'' then Error_level
      else Info)"

definition effective :: "level \<Rightarrow> level" where
  "effective lvl = (if lvl = Succ_level then Info else lvl)"

subsection \<open>Sanitising a message\<close>

definition hex_upper_digit :: "nat \<Rightarrow> char" where
  "hex_upper_digit d = ''0123456789ABCDEF'' ! d"

definition escape_control :: "char \<Rightarrow> string" where
  "escape_control c =
     (if c = CHR 0x0A then [CHR 0x5C, CHR ''n'']
      else if c = CHR 0x0D then [CHR 0x5C, CHR ''r'']
      else if c = CHR 0x09 then [CHR 0x5C, CHR ''t'']
      else if ord c < 0x20 \<or> ord c = 0x7F
      then [CHR 0x5C, CHR ''x'', hex_upper_digit (ord c div 16), hex_upper_digit (ord c mod 16)]
      else [c])"

fun append_escaped :: "string \<Rightarrow> string \<Rightarrow> string" where
  "append_escaped out [] = out"
| "append_escaped out (c # cs) = append_escaped (out @ escape_control c) cs"

definition kSecretKeys :: "string list" where
  "kSecretKeys = [''sb-hc-token'', ''sig'', ''password'', ''accesskey'', ''sharedaccesssignature'']"

definition secret_key_len :: "string \<Rightarrow> nat" where
  "secret_key_len rest =
     (case find (istarts_with rest) kSecretKeys of None \<Rightarrow> 0 | Some k \<Rightarrow> length k)"

definition blank :: "char \<Rightarrow> bool" where
  "blank c \<longleftrightarrow> c = CHR '' '' \<or> c = CHR 0x09"

definition value_char :: "bool \<Rightarrow> char \<Rightarrow> bool" where
  "value_char quoted c =
     (if quoted then c \<noteq> CHR 0x22
      else c \<noteq> CHR ''&'' \<and> c \<noteq> CHR '','' \<and> c \<noteq> CHR ''}'' \<and> c \<noteq> CHR '' '')"

text \<open>
  The text behind a key and its separator, if there is one: the cursor \<^verbatim>\<open>j\<close> after
  \<^verbatim>\<open>out.append(...); j++\<close>, as the rest of the input.
\<close>

definition after_separator :: "string \<Rightarrow> string option" where
  "after_separator r =
     (let r = (if r \<noteq> [] \<and> hd r = CHR 0x22 then tl r else r);
          r = dropWhile blank r
      in if r = [] \<or> (hd r \<noteq> CHR ''='' \<and> hd r \<noteq> CHR '':'') then None else Some (tl r))"

text \<open>The masked value, and the input behind it.\<close>

definition mask_value :: "string \<Rightarrow> string \<times> string" where
  "mask_value r =
     (let r = dropWhile blank r;
          quoted = (r \<noteq> [] \<and> hd r = CHR 0x22);
          r = (if quoted then tl r else r);
          v = takeWhile (value_char quoted) r;
          r = dropWhile (value_char quoted) r
      in (if v \<noteq> []
          then (if quoted then [CHR 0x22] else []) @ ''***'' @
               (if quoted \<and> r \<noteq> [] then [CHR 0x22] else [])
          else [],
          if quoted \<and> r \<noteq> [] then tl r else r))"

lemma after_separator_length: "after_separator r = Some t \<Longrightarrow> length t < length r"
proof -
  assume a: "after_separator r = Some t"
  let ?r = "if r \<noteq> [] \<and> hd r = CHR 0x22 then tl r else r"
  have "t = tl (dropWhile blank ?r)" "dropWhile blank ?r \<noteq> []"
    using a by (auto simp: after_separator_def Let_def split: if_splits)
  moreover have "length (dropWhile blank ?r) \<le> length ?r" by (rule length_dropWhile_le)
  moreover have "length ?r \<le> length r" by simp
  ultimately show ?thesis by (cases "dropWhile blank ?r") auto
qed

lemma mask_value_length: "length (snd (mask_value r)) \<le> length r"
proof -
  let ?r1 = "dropWhile blank r"
  let ?q = "?r1 \<noteq> [] \<and> hd ?r1 = CHR 0x22"
  let ?r2 = "if ?q then tl ?r1 else ?r1"
  let ?r3 = "dropWhile (value_char ?q) ?r2"
  have "snd (mask_value r) = (if ?q \<and> ?r3 \<noteq> [] then tl ?r3 else ?r3)"
    by (simp add: mask_value_def Let_def)
  then have "length (snd (mask_value r)) \<le> length ?r3" by simp
  also have "\<dots> \<le> length ?r2" by (rule length_dropWhile_le)
  also have "\<dots> \<le> length ?r1" by simp
  also have "\<dots> \<le> length r" by (rule length_dropWhile_le)
  finally show ?thesis .
qed

function mask_secrets :: "string \<Rightarrow> string" where
  "mask_secrets [] = []"
| "mask_secrets (c # cs) =
     (let n = secret_key_len (c # cs)
      in if n = 0 then c # mask_secrets cs
         else (case after_separator (drop n (c # cs)) of
                 None \<Rightarrow> c # mask_secrets cs
               | Some r \<Rightarrow>
                   take (length (c # cs) - length r) (c # cs) @ fst (mask_value r) @
                   mask_secrets (snd (mask_value r))))"
  by pat_completeness auto
termination
proof (relation "measure length", goal_cases)
  case (4 c cs n r)
  then have "length r < length (drop n (c # cs))" using after_separator_length by blast
  then show ?case using mask_value_length [of r] by simp
qed auto

definition sanitise :: "string \<Rightarrow> string" where
  "sanitise msg =
     (let out = mask_secrets (append_escaped [] msg)
      in if kMaxMessageBytes < length out
         then take kMaxMessageBytes out @ '' ... [truncated '' @
              to_string (length out - kMaxMessageBytes) @ '' bytes]''
         else out)"

subsection \<open>The sink\<close>

record log_state =
  g_cfg :: log_config
  g_file :: "string list option"
  g_init :: bool
  g_written :: u64
  g_file_broken :: bool
  out_stream :: string
  err_stream :: string

definition log_start :: log_state where
  "log_start =
     \<lparr>g_cfg = default_log_config, g_file = None, g_init = False, g_written = 0,
      g_file_broken = False, out_stream = [], err_stream = []\<rparr>"

text \<open>\<^verbatim>\<open>fopen(path, "ab")\<close>: the node appended to, created when it does not exist.\<close>

definition fopen_append :: "string \<Rightarrow> vfs \<Rightarrow> string list option \<times> vfs" where
  "fopen_append path s =
     (case resolve s path of
        Inl e \<Rightarrow> (None, s)
      | Inr k \<Rightarrow>
          if fails s OpenOp k \<noteq> 0 then (None, s)
          else (case node_at s k of
                  Some Dir \<Rightarrow> (None, s)
                | Some (File d) \<Rightarrow> (Some k, s)
                | None \<Rightarrow> if fails s CreateOp k \<noteq> 0 then (None, s)
                          else (Some k, put_node k (File []) s)))"

definition file_size :: "string list \<Rightarrow> vfs \<Rightarrow> nat" where
  "file_size k s = (case node_at s k of Some (File d) \<Rightarrow> length d | _ \<Rightarrow> 0)"

text \<open>\<^verbatim>\<open>fprintf\<close> and \<^verbatim>\<open>fflush\<close>: the count \<^verbatim>\<open>fprintf\<close> returns (\<^const>\<open>None\<close>: negative), the tree.\<close>

definition file_print :: "string list \<Rightarrow> string \<Rightarrow> vfs \<Rightarrow> nat option \<times> vfs" where
  "file_print k line s =
     (case node_at s k of
        Some (File d) \<Rightarrow>
          if fails s WriteOp k \<noteq> 0
          then (if stream_buf s \<le> length line then None else Some (length line), s)
          else (Some (length line), put_node k (File (d @ as_bytes line)) s)
      | _ \<Rightarrow> (Some (length line), s))"

definition log_init :: "log_config \<Rightarrow> log_state \<Rightarrow> vfs \<Rightarrow> status \<times> log_state \<times> vfs" where
  "log_init cfg g s =
     (let g = g\<lparr>g_file := None, g_cfg := cfg, g_written := 0, g_file_broken := False\<rparr>
      in if cfg_enabled cfg \<and> file_path cfg \<noteq> []
         then (case fopen_append (file_path cfg) s of
                 (None, s) \<Rightarrow> (Err Io, g\<lparr>g_init := True\<rparr>, s)
               | (Some k, s) \<Rightarrow>
                   (Inr (), g\<lparr>g_file := Some k, g_written := word_of_nat (file_size k s),
                              g_init := True\<rparr>, s))
         else (Inr (), g\<lparr>g_init := True\<rparr>, s))"

definition log_shutdown :: "log_state \<Rightarrow> log_state" where
  "log_shutdown g = g\<lparr>g_file := None, g_init := False, g_written := 0\<rparr>"

definition log_enabled :: "level \<Rightarrow> log_state \<Rightarrow> bool" where
  "log_enabled lvl g =
     (if \<not> g_init g then True
      else if \<not> cfg_enabled (g_cfg g) then False
      else cfg_level (g_cfg g) \<le> effective lvl)"

definition rotated :: "string \<Rightarrow> nat \<Rightarrow> string" where
  "rotated base i = base @ ''.'' @ to_string i"

text \<open>The loop over \<^verbatim>\<open>i = n - 1, ..., 1\<close>.\<close>

fun shift_files :: "string \<Rightarrow> nat \<Rightarrow> vfs \<Rightarrow> vfs" where
  "shift_files base 0 s = s"
| "shift_files base (Suc i) s =
     shift_files base i (snd (std_rename s (rotated base (Suc i)) (rotated base (Suc i + 1))))"

definition rotate_count :: "log_config \<Rightarrow> nat" where
  "rotate_count cfg = (if 0 < max_rotate_files cfg then nat (max_rotate_files cfg) else 5)"

definition rotate_if_needed :: "log_state \<Rightarrow> vfs \<Rightarrow> log_state \<times> vfs" where
  "rotate_if_needed g s =
     (let cfg = g_cfg g
      in if g_file g = None \<or> max_file_size_mb cfg \<le> 0 then (g, s)
         else if g_written g < word_of_int (max_file_size_mb cfg) * 1024 * 1024 then (g, s)
         else
           (let base = file_path cfg;
                n = rotate_count cfg;
                (_, _, s) = std_remove s (rotated base n);
                s = shift_files base (n - 1) s;
                (_, s) = std_rename s base (rotated base 1);
                (f, s) = fopen_append base s;
                g = g\<lparr>g_file := f, g_written := 0\<rparr>
            in if f = None \<and> \<not> g_file_broken g
               then (g\<lparr>g_file_broken := True,
                       err_stream := err_stream g @ ''vc::log: cannot reopen '' @ c_str base @
                         '' after rotation; file logging disabled'' @ [CHR 0x0A]\<rparr>, s)
               else (g, s)))"

record local_time =
  lt_year :: int
  lt_month :: int
  lt_day :: int
  lt_hour :: int
  lt_minute :: int
  lt_second :: int
  lt_millisecond :: int

text \<open>\<^verbatim>\<open>%0wd\<close>\<close>

definition fmt_0d :: "nat \<Rightarrow> int \<Rightarrow> string" where
  "fmt_0d w i =
     (let ds = to_string (nat \<bar>i\<bar>)
      in if i < 0 then ''-'' @ replicate (w - 1 - length ds) CHR ''0'' @ ds
         else replicate (w - length ds) CHR ''0'' @ ds)"

definition timestamp :: "log_config \<Rightarrow> local_time \<Rightarrow> string" where
  "timestamp cfg t =
     take 39 (fmt_0d 4 (lt_year t) @ ''-'' @ fmt_0d 2 (lt_month t) @ ''-'' @ fmt_0d 2 (lt_day t) @
       '' '' @ fmt_0d 2 (lt_hour t) @ '':'' @ fmt_0d 2 (lt_minute t) @ '':'' @
       fmt_0d 2 (lt_second t) @
       (if time_precision cfg then ''.'' @ fmt_0d 3 (lt_millisecond t) else []))"

definition log_line :: "log_config \<Rightarrow> local_time \<Rightarrow> level \<Rightarrow> string \<Rightarrow> string" where
  "log_line cfg t lvl msg =
     (if show_event_type cfg
      then timestamp cfg t @ '' ['' @ level_tag lvl @ ''] '' @ msg @ [CHR 0x0A]
      else timestamp cfg t @ '' '' @ msg @ [CHR 0x0A])"

definition log_write ::
  "local_time \<Rightarrow> level \<Rightarrow> string \<Rightarrow> log_state \<Rightarrow> vfs \<Rightarrow> log_state \<times> vfs" where
  "log_write now lvl msg g s =
     (let out = sanitise msg
      in if \<not> g_init g then (g\<lparr>err_stream := err_stream g @ out @ [CHR 0x0A]\<rparr>, s)
         else if \<not> cfg_enabled (g_cfg g) then (g, s)
         else if effective lvl < cfg_level (g_cfg g) then (g, s)
         else
           (let line = log_line (g_cfg g) now lvl out;
                g = (if \<not> console (g_cfg g) then g
                     else if Warn \<le> effective lvl
                     then g\<lparr>err_stream := err_stream g @ line\<rparr>
                     else g\<lparr>out_stream := out_stream g @ line\<rparr>)
            in (case g_file g of
                  None \<Rightarrow> (g, s)
                | Some k \<Rightarrow>
                    (let (n, s) = file_print k line s;
                         g = (case n of Some m \<Rightarrow> g\<lparr>g_written := g_written g + word_of_nat m\<rparr>
                                      | None \<Rightarrow> g)
                     in rotate_if_needed g s))))"

text \<open>\<^verbatim>\<open>message\<close>: formatting is skipped when the level is suppressed.\<close>

definition log_message ::
  "local_time \<Rightarrow> level \<Rightarrow> string \<Rightarrow> log_state \<Rightarrow> vfs \<Rightarrow> log_state \<times> vfs" where
  "log_message now lvl formatted g s =
     (if \<not> log_enabled lvl g then (g, s) else log_write now lvl formatted g s)"

subsection \<open>A written line has no control characters and a bounded length\<close>

definition printable :: "char \<Rightarrow> bool" where
  "printable c \<longleftrightarrow> 0x20 \<le> ord c \<and> ord c \<noteq> 0x7F"

lemma hex_upper_digit_printable:
  "list_all (\<lambda>n. printable (hex_upper_digit n)) [0..<16]"
  by code_simp

lemma escape_control_printable: "c' \<in> set (escape_control c) \<Longrightarrow> printable c'"
proof -
  assume m: "c' \<in> set (escape_control c)"
  have h: "printable (hex_upper_digit n)" if "n < 16" for n
    using hex_upper_digit_printable that by (simp add: list_all_iff)
  have "ord c div 16 < 16" "ord c mod 16 < 16"
    using ord_less_256 [of c] by (simp_all add: less_mult_imp_div_less)
  then have h2: "printable (hex_upper_digit (ord c div 16))" "printable (hex_upper_digit (ord c mod 16))"
    using h by blast+
  have p: "printable CHR 0x5C" "printable CHR ''n''" "printable CHR ''r''" "printable CHR ''t''"
    "printable CHR ''x''" by (simp_all add: printable_def)
  show ?thesis
  proof (cases "ord c < 0x20 \<or> ord c = 0x7F")
    case True
    then show ?thesis using m p h2 by (auto simp only: escape_control_def set_simps split: if_split_asm)
  next
    case False
    then have "c \<noteq> CHR 0x0A" "c \<noteq> CHR 0x0D" "c \<noteq> CHR 0x09" by auto
    with False m have "c' = c" by (simp add: escape_control_def)
    with False show ?thesis by (simp add: printable_def)
  qed
qed

lemma append_escaped_concat: "append_escaped out s = out @ concat (map escape_control s)"
  by (induction s arbitrary: out) simp_all

lemma append_escaped_printable: "c \<in> set (append_escaped [] s) \<Longrightarrow> printable c"
  by (auto simp: append_escaped_concat dest: escape_control_printable)

lemma mask_value_set: "set (fst (mask_value r)) \<subseteq> {CHR 0x22, CHR ''*''}"
  by (auto simp: mask_value_def Let_def)

lemma set_dropWhile_subset: "set (dropWhile p xs) \<subseteq> set xs"
  by (meson set_dropWhileD subsetI)

lemma set_tl_subset: "set (tl xs) \<subseteq> set xs"
  by (cases xs) auto

lemma set_if_tl: "set (if b then tl xs else xs) \<subseteq> set xs"
  by (simp add: set_tl_subset)

lemma mask_value_rest: "set (snd (mask_value r)) \<subseteq> set r"
proof -
  let ?r1 = "dropWhile blank r"
  let ?q = "?r1 \<noteq> [] \<and> hd ?r1 = CHR 0x22"
  let ?r2 = "if ?q then tl ?r1 else ?r1"
  let ?r3 = "dropWhile (value_char ?q) ?r2"
  have "snd (mask_value r) = (if ?q \<and> ?r3 \<noteq> [] then tl ?r3 else ?r3)"
    by (simp add: mask_value_def Let_def)
  then have "set (snd (mask_value r)) \<subseteq> set ?r3" by (simp only: set_if_tl)
  also have "\<dots> \<subseteq> set ?r2" by (rule set_dropWhile_subset)
  also have "\<dots> \<subseteq> set ?r1" by (rule set_if_tl)
  also have "\<dots> \<subseteq> set r" by (rule set_dropWhile_subset)
  finally show ?thesis .
qed

lemma after_separator_set: "after_separator r = Some t \<Longrightarrow> set t \<subseteq> set r"
proof -
  assume a: "after_separator r = Some t"
  let ?r = "if r \<noteq> [] \<and> hd r = CHR 0x22 then tl r else r"
  have "t = tl (dropWhile blank ?r)"
    using a by (auto simp: after_separator_def Let_def split: if_splits)
  then have "set t \<subseteq> set ?r"
    using set_tl_subset [of "dropWhile blank ?r"] set_dropWhile_subset [of blank ?r] by blast
  then show ?thesis using set_tl_subset [of r] by (auto split: if_splits)
qed

lemma mask_secrets_set: "set (mask_secrets s) \<subseteq> insert CHR 0x22 (insert CHR ''*'' (set s))"
proof (induction s rule: mask_secrets.induct)
  case (2 c cs)
  let ?n = "secret_key_len (c # cs)"
  show ?case
  proof (cases "?n = 0 \<or> after_separator (drop ?n (c # cs)) = None")
    case True
    then have "mask_secrets (c # cs) = c # mask_secrets cs" by (auto simp: Let_def)
    moreover have "set (mask_secrets cs) \<subseteq> insert CHR 0x22 (insert CHR ''*'' (set cs))"
      using True 2(1,2) by auto
    ultimately show ?thesis by auto
  next
    case False
    then obtain r where r: "after_separator (drop ?n (c # cs)) = Some r" "?n \<noteq> 0" by auto
    then have m: "mask_secrets (c # cs) = take (length (c # cs) - length r) (c # cs) @
        fst (mask_value r) @ mask_secrets (snd (mask_value r))" by (simp add: Let_def)
    have "set r \<subseteq> set (c # cs)"
      using after_separator_set [OF r(1)] set_drop_subset [of ?n "c # cs"] by blast
    then have "set (snd (mask_value r)) \<subseteq> set (c # cs)" using mask_value_rest [of r] by blast
    moreover have "set (take k (c # cs)) \<subseteq> set (c # cs)" for k by (rule set_take_subset)
    ultimately show ?thesis
      unfolding m using 2(3) [OF refl r(2,1)] mask_value_set [of r] by fastforce
  qed
qed simp

lemma mask_secrets_printable:
  "\<forall>c \<in> set s. printable c \<Longrightarrow> c \<in> set (mask_secrets s) \<Longrightarrow> printable c"
  using mask_secrets_set [of s] by (auto simp: printable_def)

lemma digit_printable: "is_digit c \<Longrightarrow> printable c"
  by (auto simp: is_digit_def in_range_def printable_def)

definition truncation_note :: "nat \<Rightarrow> string" where
  "truncation_note n = '' ... [truncated '' @ to_string n @ '' bytes]''"

lemma truncation_note_printable: "c \<in> set (truncation_note n) \<Longrightarrow> printable c"
proof -
  have "list_all printable '' ... [truncated ''" "list_all printable '' bytes]''" by code_simp+
  then show "c \<in> set (truncation_note n) \<Longrightarrow> printable c"
    unfolding truncation_note_def list_all_iff
    by (metis Un_iff digit_printable set_append to_string_digits)
qed

lemma sanitise_eq:
  "sanitise msg =
     (let out = mask_secrets (append_escaped [] msg)
      in if kMaxMessageBytes < length out
         then take kMaxMessageBytes out @ truncation_note (length out - kMaxMessageBytes) else out)"
  by (simp only: sanitise_def truncation_note_def)

lemma sanitise_printable: "c \<in> set (sanitise msg) \<Longrightarrow> printable c"
proof -
  let ?out = "mask_secrets (append_escaped [] msg)"
  have p: "printable c" if "c \<in> set ?out" for c
    using mask_secrets_printable append_escaped_printable that by blast
  assume "c \<in> set (sanitise msg)"
  then consider "c \<in> set ?out" | "c \<in> set (truncation_note (length ?out - kMaxMessageBytes))"
    by (auto simp: sanitise_eq Let_def split: if_splits dest: in_set_takeD)
  then show ?thesis by cases (use p truncation_note_printable in blast)+
qed

lemma sanitise_length:
  "length (sanitise msg) \<le> kMaxMessageBytes +
     length (truncation_note (length (mask_secrets (append_escaped [] msg)) - kMaxMessageBytes))"
  by (simp add: sanitise_eq Let_def)

lemma length_if_tl:
  "length (if b \<and> xs \<noteq> [] then tl xs else xs) + (if b \<and> xs \<noteq> [] then 1 else 0) = length xs"
  by (cases xs) auto

lemma mask_value_grows: "length (fst (mask_value r)) + 3 * length (snd (mask_value r)) \<le> 3 * length r"
proof -
  let ?r1 = "dropWhile blank r"
  let ?q = "?r1 \<noteq> [] \<and> hd ?r1 = CHR 0x22"
  let ?r2 = "if ?q then tl ?r1 else ?r1"
  let ?v = "takeWhile (value_char ?q) ?r2"
  let ?r3 = "dropWhile (value_char ?q) ?r2"
  have "length ?r1 \<le> length r" by (rule length_dropWhile_le)
  moreover have "length ?r2 + (if ?q then 1 else 0) = length ?r1" by (cases ?r1) auto
  moreover have "length ?v + length ?r3 = length ?r2"
    by (metis length_append takeWhile_dropWhile_id)
  moreover have "length (fst (mask_value r)) \<le>
      (if ?v = [] then 0 else 3 + (if ?q then 1 + (if ?r3 = [] then 0 else 1) else 0))"
    by (simp add: mask_value_def Let_def)
  moreover have "length (snd (mask_value r)) + (if ?q \<and> ?r3 \<noteq> [] then 1 else 0) = length ?r3"
  proof -
    have "snd (mask_value r) = (if ?q \<and> ?r3 \<noteq> [] then tl ?r3 else ?r3)"
      by (simp add: mask_value_def Let_def)
    then show ?thesis by (simp only: length_if_tl)
  qed
  moreover have "?v \<noteq> [] \<Longrightarrow> 1 \<le> length ?v" by (cases ?v) simp_all
  ultimately show ?thesis by (auto split: if_splits)
qed

lemma mask_secrets_length: "length (mask_secrets s) \<le> 3 * length s"
proof (induction s rule: mask_secrets.induct)
  case (2 c cs)
  let ?s = "c # cs"
  show ?case
  proof (cases "secret_key_len ?s = 0 \<or> after_separator (drop (secret_key_len ?s) ?s) = None")
    case True
    then show ?thesis using 2 by (auto simp: Let_def)
  next
    case False
    then obtain r where r: "after_separator (drop (secret_key_len ?s) ?s) = Some r" by auto
    have le: "length r \<le> length ?s" using after_separator_length [OF r] by simp
    have IH: "length (mask_secrets (snd (mask_value r))) \<le> 3 * length (snd (mask_value r))"
      using "2.IH"(3) False r by simp
    have "mask_secrets ?s = take (length ?s - length r) ?s @ fst (mask_value r) @
        mask_secrets (snd (mask_value r))" using False r by (simp add: Let_def)
    then have "length (mask_secrets ?s) =
        length ?s - length r + length (fst (mask_value r)) + length (mask_secrets (snd (mask_value r)))"
      by simp
    then show ?thesis using IH mask_value_grows [of r] le by linarith
  qed
qed simp

lemma append_escaped_length: "length (append_escaped [] s) \<le> 4 * length s"
proof -
  have "length (escape_control c) \<le> 4" for c by (simp add: escape_control_def)
  then have "length (concat (map escape_control s)) \<le> 4 * length s"
  proof (induction s)
    case (Cons c s)
    from Cons.prems [of c] Cons.IH [OF Cons.prems] show ?case by simp
  qed simp
  then show ?thesis by (simp add: append_escaped_concat)
qed

lemma to_string_length: "n < 10 ^ Suc k \<Longrightarrow> length (to_string n) \<le> Suc k"
proof (induction k arbitrary: n)
  case 0
  then show ?case by (simp add: to_string.simps)
next
  case (Suc k)
  have "n div 10 < 10 ^ Suc k" using Suc.prems by (simp add: div_less_iff_less_mult)
  from Suc.IH [OF this] show ?case by (subst to_string.simps) simp
qed

lemma sanitise_bounded:
  assumes "length msg < 2 ^ 60"
  shows "length (sanitise msg) \<le> kMaxMessageBytes + 43"
proof -
  let ?n = "length (mask_secrets (append_escaped [] msg)) - kMaxMessageBytes"
  have "length (mask_secrets (append_escaped [] msg)) \<le> 12 * length msg"
    using mask_secrets_length [of "append_escaped [] msg"] append_escaped_length [of msg] by linarith
  then have "?n < 10 ^ Suc 19" using assms by simp
  then have "length (truncation_note ?n) \<le> 43"
    using to_string_length [of ?n 19] by (simp add: truncation_note_def)
  then show ?thesis using sanitise_length [of msg] by linarith
qed

subsection \<open>Secrets are masked\<close>

definition no_key_in :: "string \<Rightarrow> string \<Rightarrow> bool" where
  "no_key_in pre s \<longleftrightarrow> (\<forall>i < length pre. secret_key_len (drop i pre @ s) = 0)"

lemma mask_prefix: "no_key_in pre s \<Longrightarrow> mask_secrets (pre @ s) = pre @ mask_secrets s"
proof (induction pre)
  case (Cons c pre)
  have "secret_key_len ((c # pre) @ s) = 0"
    using Cons.prems unfolding no_key_in_def by (metis drop0 length_greater_0_conv list.distinct(1))
  moreover have "no_key_in pre s"
    unfolding no_key_in_def
  proof (intro allI impI)
    fix i assume "i < length pre"
    then show "secret_key_len (drop i pre @ s) = 0"
      using Cons.prems unfolding no_key_in_def by (metis Suc_less_eq drop_Suc_Cons length_Cons)
  qed
  ultimately show ?case using Cons.IH by simp
qed simp

lemma secret_keys_lower:
  "list_all (\<lambda>k. map to_lower k = k \<and> k \<noteq> []) kSecretKeys"
  by code_simp

lemma secret_keys_free:
  "list_all (\<lambda>k. list_all (\<lambda>k'. prefix k' k \<longrightarrow> k' = k) kSecretKeys) kSecretKeys"
  by code_simp

lemma keys_no_sep:
  "list_all (\<lambda>k. CHR ''='' \<notin> set k \<and> CHR 0x22 \<notin> set k) kSecretKeys"
  by code_simp

lemma prefix_before_sep:
  "c \<notin> set k' \<Longrightarrow> prefix k' (k @ c # t) \<longleftrightarrow> prefix k' k"
proof
  assume c: "c \<notin> set k'" and "prefix k' (k @ c # t)"
  then have "prefix k' k \<or> (\<exists>us. k' = k @ us \<and> prefix us (c # t))" by (simp add: prefix_append)
  with c show "prefix k' k" by (auto simp: prefix_Cons)
qed (simp add: prefix_append)

lemma to_lower_sep: "to_lower CHR ''='' = CHR ''=''" "to_lower CHR 0x22 = CHR 0x22"
  by (simp_all add: to_lower_def is_upper_def in_range_def)

lemma secret_key_len_key:
  assumes "k \<in> set kSecretKeys" and "iequals key k" and "sep = CHR ''='' \<or> sep = CHR 0x22"
  shows "secret_key_len (key @ sep # t) = length key"
proof -
  have low: "map to_lower k' = k'" if "k' \<in> set kSecretKeys" for k'
    using secret_keys_lower that by (auto simp: list_all_iff)
  have key: "map to_lower key = k" using assms(1,2) low by (simp add: iequals_iff)
  have "istarts_with (key @ sep # t) k' \<longleftrightarrow> k' = k" if "k' \<in> set kSecretKeys" for k'
  proof -
    have "sep \<notin> set k'" using keys_no_sep that assms(3) by (auto simp: list_all_iff)
    then have "istarts_with (key @ sep # t) k' \<longleftrightarrow> prefix k' k"
      using assms(3) by (auto simp: istarts_with_iff low [OF that] key to_lower_sep prefix_before_sep)
    also have "\<dots> \<longleftrightarrow> k' = k"
      using secret_keys_free assms(1) that by (auto simp: list_all_iff)
    finally show ?thesis .
  qed
  then have "find (istarts_with (key @ sep # t)) kSecretKeys = find (\<lambda>k'. k' = k) kSecretKeys"
    by (intro find_cong) auto
  also have "\<dots> = Some k" using assms(1)
    by (metis (mono_tags, lifting) find_None_iff find_Some_iff not_None_eq)
  finally have "secret_key_len (key @ sep # t) = length k" by (simp add: secret_key_len_def)
  then show ?thesis using key by (metis length_map)
qed

lemma mask_step:
  assumes "secret_key_len s = n" and "0 < n" and "n \<le> length s"
    and "after_separator (drop n s) = Some r"
  shows "mask_secrets s = take (length s - length r) s @ fst (mask_value r) @
    mask_secrets (snd (mask_value r))"
  using assms by (cases s) (auto simp: Let_def)

lemma takeWhile_stop:
  "\<forall>c \<in> set v. p c \<Longrightarrow> r = [] \<or> \<not> p (hd r) \<Longrightarrow> takeWhile p (v @ r) = v \<and> dropWhile p (v @ r) = r"
  by (cases r) (auto simp: takeWhile_append dropWhile_append)


lemma mask_value_json:
  assumes "v \<noteq> []" and "CHR 0x22 \<notin> set v"
  shows "mask_value (CHR 0x22 # v @ CHR 0x22 # rest) = ([CHR 0x22] @ ''***'' @ [CHR 0x22], rest)"
proof -
  have d: "dropWhile blank (CHR 0x22 # v @ CHR 0x22 # rest) = CHR 0x22 # v @ CHR 0x22 # rest"
    by (simp add: blank_def)
  have "\<forall>c \<in> set v. value_char True c" using assms(2) by (auto simp: value_char_def)
  moreover have "CHR 0x22 # rest = [] \<or> \<not> value_char True (hd (CHR 0x22 # rest))"
    by (simp add: value_char_def)
  ultimately have "takeWhile (value_char True) (v @ CHR 0x22 # rest) = v"
    "dropWhile (value_char True) (v @ CHR 0x22 # rest) = CHR 0x22 # rest"
    by (blast dest: takeWhile_stop)+
  moreover have "\<not> blank CHR 0x22" "\<not> value_char True CHR 0x22"
    by (simp_all add: blank_def value_char_def)
  ultimately show ?thesis using assms(1) by (simp add: mask_value_def d Let_def)
qed


lemma mask_json:
  assumes "k \<in> set kSecretKeys" and "iequals key k"
    and "v \<noteq> []" and "CHR 0x22 \<notin> set v"
    and "no_key_in pre (key @ [CHR 0x22, CHR '':'', CHR 0x22] @ v @ [CHR 0x22] @ rest)"
  shows "mask_secrets (pre @ key @ [CHR 0x22, CHR '':'', CHR 0x22] @ v @ [CHR 0x22] @ rest) =
    pre @ key @ [CHR 0x22, CHR '':'', CHR 0x22] @ ''***'' @ [CHR 0x22] @ mask_secrets rest"
proof -
  let ?r = "CHR 0x22 # v @ CHR 0x22 # rest"
  let ?s = "key @ CHR 0x22 # CHR '':'' # ?r"
  have "key \<noteq> []" using assms(1,2) secret_keys_lower by (auto simp: list_all_iff iequals_iff)
  moreover have "after_separator (drop (length key) ?s) = Some ?r"
    by (simp add: after_separator_def blank_def)
  ultimately have "mask_secrets ?s = take (length ?s - length ?r) ?s @
      fst (mask_value ?r) @ mask_secrets (snd (mask_value ?r))"
    using secret_key_len_key [OF assms(1,2), of "CHR 0x22" "CHR '':'' # ?r"]
    by (intro mask_step) auto
  then have "mask_secrets ?s = key @ [CHR 0x22, CHR '':'', CHR 0x22] @ ''***'' @ [CHR 0x22] @ mask_secrets rest"
    using mask_value_json [OF assms(3,4), of rest] by simp
  with mask_prefix [of pre ?s] assms(5) show ?thesis by simp
qed

subsection \<open>Levels\<close>

lemma log_write_suppressed: "\<not> log_enabled lvl g \<Longrightarrow> log_write now lvl msg g s = (g, s)"
  by (auto simp: log_write_def log_enabled_def Let_def not_le split: if_splits)

lemma log_message_eq: "log_message now lvl msg g s = log_write now lvl msg g s"
  by (simp add: log_message_def log_write_suppressed)

subsection \<open>Properties\<close>

text \<open>
  C18: whatever a caller logs, the text that reaches the sink holds no control character, so a
  payload cannot forge a log line, and is at most 8192 bytes plus the truncation note of at most
  43 (for any message that fits the address space).
\<close>

theorem log_line_safe:
  assumes "length msg < 2 ^ 60"
  shows "(\<forall>c \<in> set (sanitise msg). printable c) \<and> length (sanitise msg) \<le> kMaxMessageBytes + 43"
  using sanitise_printable sanitise_bounded [OF assms] by blast

lemma log_line_safe_witness:
  "printable (hd (sanitise ''x'')) \<and> length (sanitise ''x'') \<le> kMaxMessageBytes + 43"
proof -
  have "hd (sanitise ''x'') \<in> set (sanitise ''x'')" by code_simp
  with log_line_safe [of "''x''"] show ?thesis by simp
qed



text \<open>The same for a secret in a JSON document: the quoted value is replaced as a whole.\<close>

theorem log_masks_json:
  assumes "k \<in> set kSecretKeys" and "iequals key k"
    and "v \<noteq> []" and "CHR 0x22 \<notin> set v"
    and "no_key_in pre (key @ [CHR 0x22, CHR '':'', CHR 0x22] @ v @ [CHR 0x22] @ rest)"
  shows "mask_secrets (pre @ key @ [CHR 0x22, CHR '':'', CHR 0x22] @ v @ [CHR 0x22] @ rest) =
    pre @ key @ [CHR 0x22, CHR '':'', CHR 0x22] @ ''***'' @ [CHR 0x22] @ mask_secrets rest"
  using assms by (rule mask_json)

lemma log_masks_json_witness:
  "mask_secrets ([CHR 0x22] @ ''Password'' @ [CHR 0x22, CHR '':'', CHR 0x22] @ ''pw'' @ [CHR 0x22] @ ''}'') =
     [CHR 0x22] @ ''Password'' @ [CHR 0x22, CHR '':'', CHR 0x22] @ ''***'' @ [CHR 0x22] @ mask_secrets ''}''"
proof (rule log_masks_json [where k = "''password''"])
  show "iequals ''Password'' ''password''" by code_simp
  have "list_all (\<lambda>i. secret_key_len (drop i [CHR 0x22] @ ''Password'' @
      [CHR 0x22, CHR '':'', CHR 0x22] @ ''pw'' @ [CHR 0x22] @ ''}'') = 0) [0..<length [CHR 0x22]]"
    by code_simp
  then show "no_key_in [CHR 0x22] (''Password'' @ [CHR 0x22, CHR '':'', CHR 0x22] @ ''pw'' @ [CHR 0x22] @ ''}'')"
    by (simp only: no_key_in_def list_all_iff atLeastLessThan_iff set_upt le0 simp_thms Ball_def)
qed (simp_all add: kSecretKeys_def)

text \<open>
  A message below the configured level, or with logging disabled, changes neither the
  log's state nor the file system, and the early test of \<^verbatim>\<open>message\<close> never drops a line that
  \<^verbatim>\<open>write\<close> would have emitted.
\<close>

theorem log_level_filter:
  "(log_enabled lvl g \<or> log_write now lvl msg g s = (g, s)) \<and>
   log_message now lvl msg g s = log_write now lvl msg g s"
  using log_write_suppressed log_message_eq by blast

end
