(* ===== verification/Transport.thy ===== *)
theory Transport
  imports Common "HOL-Library.AList"
begin

text \<open>
  The byte stream of \<^verbatim>\<open>vc_transport.h\<close> and the services of \<^verbatim>\<open>vc_os.h\<close> the protocols use. The
  C++ concept \<^verbatim>\<open>Transport\<close> is the record \<open>net\<close> of operations over a world \<^typ>\<open>'w\<close> that holds
  every connection; a transport object is a handle \<^typ>\<open>'t\<close>. What a protocol may rely on is the
  locale \<open>transport\<close>: the bytes written and the bytes still to be read of a handle. Its model
  in the code is \<^verbatim>\<open>vc_scripted_transport\<close>.
\<close>

subsection \<open>The interface\<close>

record ('w, 't) net =
  tsend :: "'t \<Rightarrow> bytes \<Rightarrow> 'w \<Rightarrow> status \<times> 'w"
  trecv :: "'t \<Rightarrow> nat \<Rightarrow> int \<Rightarrow> 'w \<Rightarrow> bytes result \<times> 'w"
  tclose :: "'t \<Rightarrow> 'w \<Rightarrow> 'w"
  tvalid :: "'t \<Rightarrow> 'w \<Rightarrow> bool"
  monotonic_ms :: "'w \<Rightarrow> u64 \<times> 'w"
  random_bytes :: "nat \<Rightarrow> 'w \<Rightarrow> bytes result \<times> 'w"

locale transport =
  fixes net :: "('w, 't) net"
    and sent :: "'t \<Rightarrow> 'w \<Rightarrow> bytes"
    and pending :: "'t \<Rightarrow> 'w \<Rightarrow> bytes"
  assumes send_Inr: "tsend net t d w = (Inr u, w') \<Longrightarrow> sent t w' = sent t w @ d"
    and send_pending: "tsend net t d w = (r, w') \<Longrightarrow> pending t w' = pending t w"
    and send_valid: "tsend net t d w = (r, w') \<Longrightarrow> tvalid net t w' = tvalid net t w"
    and recv_Inr: "trecv net t n ms w = (Inr bs, w') \<Longrightarrow>
      pending t w = bs @ pending t w' \<and> length bs \<le> n"
    and recv_Inl: "trecv net t n ms w = (Inl e, w') \<Longrightarrow> pending t w' = pending t w"
    and recv_sent: "trecv net t n ms w = (q, w') \<Longrightarrow> sent t w' = sent t w"
    and recv_valid: "trecv net t n ms w = (q, w') \<Longrightarrow> tvalid net t w' = tvalid net t w"
    and recv_ready: "tvalid net t w \<Longrightarrow> pending t w \<noteq> [] \<Longrightarrow> 0 < n \<Longrightarrow>
      \<exists>b bs w'. trecv net t n ms w = (Inr (b # bs), w')"
    and clock_keeps: "monotonic_ms net w = (now, w') \<Longrightarrow>
      sent t w' = sent t w \<and> pending t w' = pending t w \<and> tvalid net t w' = tvalid net t w"
    and random_keeps: "random_bytes net n w = (q, w') \<Longrightarrow>
      sent t w' = sent t w \<and> pending t w' = pending t w \<and> tvalid net t w' = tvalid net t w"
    and random_length: "random_bytes net n w = (Inr bs, w') \<Longrightarrow> length bs = n"

subsection \<open>The scripted wire\<close>

record wire =
  w_in :: bytes
  w_out :: bytes
  read_pos :: nat
  w_closed :: bool
  w_eof :: bool
  fail_send :: bool

definition new_wire :: wire where
  "new_wire = \<lparr>w_in = [], w_out = [], read_pos = 0, w_closed = False, w_eof = False, fail_send = False\<rparr>"

definition push_incoming :: "bytes \<Rightarrow> wire \<Rightarrow> wire" where
  "push_incoming data w = w\<lparr>w_in := w_in w @ data\<rparr>"

definition push_incoming_text :: "string \<Rightarrow> wire \<Rightarrow> wire" where
  "push_incoming_text s w = w\<lparr>w_in := w_in w @ as_bytes s\<rparr>"

definition outgoing_text :: "wire \<Rightarrow> string" where
  "outgoing_text w = as_view (w_out w)"

definition clear_outgoing :: "wire \<Rightarrow> wire" where
  "clear_outgoing w = w\<lparr>w_out := []\<rparr>"

definition set_eof :: "wire \<Rightarrow> wire" where
  "set_eof w = w\<lparr>w_eof := True\<rparr>"

definition fail_next_send :: "wire \<Rightarrow> wire" where
  "fail_next_send w = w\<lparr>fail_send := True\<rparr>"

definition unread :: "wire \<Rightarrow> nat" where
  "unread w = length (w_in w) - read_pos w"

definition wire_close :: "wire \<Rightarrow> wire" where
  "wire_close w = w\<lparr>w_closed := True\<rparr>"

definition wire_send :: "bytes \<Rightarrow> wire \<Rightarrow> status \<times> wire" where
  "wire_send data w =
     (if w_closed w then (Err Closed, w)
      else if fail_send w then (Err Io, w\<lparr>fail_send := False\<rparr>)
      else (Inr (), w\<lparr>w_out := w_out w @ data\<rparr>))"

definition wire_recv :: "nat \<Rightarrow> wire \<Rightarrow> bytes result \<times> wire" where
  "wire_recv sz w =
     (if w_closed w then (Err Closed, w)
      else
        (let avail = length (w_in w) - read_pos w
         in if avail = 0 then (if w_eof w then Inr [] else Err Timeout, w)
            else
              (let n = min avail sz
               in (Inr (take n (drop (read_pos w) (w_in w))),
                   w\<lparr>read_pos := read_pos w + n\<rparr>))))"

text \<open>
  A world of such wires: a handle is the shared pointer a \<^verbatim>\<open>ScriptedTransport\<close> holds, null when
  default constructed. Each look at the clock advances it by \<open>tick\<close>.
\<close>

record scripted =
  wires :: "(nat \<times> wire) list"
  clock :: u64
  tick :: u64
  rng_seed :: nat
  rng_ok :: bool

definition wire_of :: "nat option \<Rightarrow> 'a scripted_scheme \<Rightarrow> wire option" where
  "wire_of t s = (case t of None \<Rightarrow> None | Some i \<Rightarrow> map_of (wires s) i)"

definition put_wire :: "nat \<Rightarrow> wire \<Rightarrow> 'a scripted_scheme \<Rightarrow> 'a scripted_scheme" where
  "put_wire i w s = s\<lparr>wires := AList.update i w (wires s)\<rparr>"

definition scripted_send :: "nat option \<Rightarrow> bytes \<Rightarrow> 'a scripted_scheme \<Rightarrow> status \<times> 'a scripted_scheme" where
  "scripted_send t data s =
     (case wire_of t s of
        None \<Rightarrow> (Err Closed, s)
      | Some w \<Rightarrow> (let (r, w') = wire_send data w in (r, put_wire (the t) w' s)))"

definition scripted_recv ::
  "nat option \<Rightarrow> nat \<Rightarrow> int \<Rightarrow> 'a scripted_scheme \<Rightarrow> bytes result \<times> 'a scripted_scheme" where
  "scripted_recv t sz timeout_ms s =
     (case wire_of t s of
        None \<Rightarrow> (Err Closed, s)
      | Some w \<Rightarrow> (let (r, w') = wire_recv sz w in (r, put_wire (the t) w' s)))"

definition scripted_close :: "nat option \<Rightarrow> 'a scripted_scheme \<Rightarrow> 'a scripted_scheme" where
  "scripted_close t s =
     (case wire_of t s of None \<Rightarrow> s | Some w \<Rightarrow> put_wire (the t) (wire_close w) s)"

definition scripted_valid :: "nat option \<Rightarrow> 'a scripted_scheme \<Rightarrow> bool" where
  "scripted_valid t s = (case wire_of t s of None \<Rightarrow> False | Some w \<Rightarrow> \<not> w_closed w)"

definition scripted_clock :: "'a scripted_scheme \<Rightarrow> u64 \<times> 'a scripted_scheme" where
  "scripted_clock s = (clock s, s\<lparr>clock := clock s + tick s\<rparr>)"

definition scripted_random :: "nat \<Rightarrow> 'a scripted_scheme \<Rightarrow> bytes result \<times> 'a scripted_scheme" where
  "scripted_random n s =
     (if rng_ok s
      then (Inr (map (\<lambda>i. word_of_nat (rng_seed s + i)) [0..<n]), s\<lparr>rng_seed := rng_seed s + n\<rparr>)
      else (Err Fail, s))"

definition scripted_net :: "('a scripted_scheme, nat option) net" where
  "scripted_net =
     \<lparr>tsend = scripted_send, trecv = scripted_recv, tclose = scripted_close,
      tvalid = scripted_valid, monotonic_ms = scripted_clock, random_bytes = scripted_random\<rparr>"

subsection \<open>The wire keeps the contract\<close>

definition wire_sent :: "nat option \<Rightarrow> 'a scripted_scheme \<Rightarrow> bytes" where
  "wire_sent t s = (case wire_of t s of None \<Rightarrow> [] | Some w \<Rightarrow> w_out w)"

definition wire_pending :: "nat option \<Rightarrow> 'a scripted_scheme \<Rightarrow> bytes" where
  "wire_pending t s = (case wire_of t s of None \<Rightarrow> [] | Some w \<Rightarrow> drop (read_pos w) (w_in w))"

lemma wire_of_put [simp]: "wire_of (Some i) (put_wire i w s) = Some w"
  by (simp add: wire_of_def put_wire_def update_conv)

lemma wire_of_other [simp]:
  "wire_of t (s\<lparr>clock := c\<rparr>) = wire_of t s" "wire_of t (s\<lparr>rng_seed := n\<rparr>) = wire_of t s"
  by (cases t; simp add: wire_of_def)+

lemma wire_of_SomeE:
  assumes "wire_of t s = Some w"
  obtains i where "t = Some i"
  using assms by (cases t) (auto simp: wire_of_def)

lemma wire_recv_pending:
  "wire_recv n w = (Inr bs, w') \<Longrightarrow>
     drop (read_pos w) (w_in w) = bs @ drop (read_pos w') (w_in w') \<and> length bs \<le> n"
proof -
  assume r: "wire_recv n w = (Inr bs, w')"
  let ?u = "drop (read_pos w) (w_in w)"
  show ?thesis
  proof (cases "length (w_in w) - read_pos w = 0")
    case True
    with r show ?thesis by (auto simp: wire_recv_def split: if_splits)
  next
    case False
    let ?n = "min (length (w_in w) - read_pos w) n"
    have bs: "bs = take ?n ?u" and w': "w' = w\<lparr>read_pos := read_pos w + ?n\<rparr>"
      using r False by (auto simp: wire_recv_def Let_def split: if_splits)
    have "drop (read_pos w') (w_in w') = drop ?n ?u" by (simp add: w' add.commute)
    then have "?u = bs @ drop (read_pos w') (w_in w')"
      unfolding bs by (metis append_take_drop_id)
    moreover have "length bs \<le> n" by (simp add: bs)
    ultimately show ?thesis by blast
  qed
qed

lemma wire_recv_frame:
  "wire_recv n w = (r, w') \<Longrightarrow> w_out w' = w_out w \<and> w_closed w' = w_closed w \<and> w_in w' = w_in w"
  by (auto simp: wire_recv_def Let_def split: if_splits)

lemma wire_recv_Inl: "wire_recv n w = (Inl e, w') \<Longrightarrow> w' = w"
  by (auto simp: wire_recv_def Let_def split: if_splits)

lemma wire_send_frame:
  "wire_send d w = (r, w') \<Longrightarrow>
     w_in w' = w_in w \<and> read_pos w' = read_pos w \<and> w_closed w' = w_closed w \<and>
     w_out w' = w_out w @ (if r = Inr () then d else [])"
  by (auto simp: wire_send_def split: if_splits)

lemma wire_recv_ready:
  assumes "\<not> w_closed w" and "drop (read_pos w) (w_in w) \<noteq> []" and "0 < n"
  shows "\<exists>b bs w'. wire_recv n w = (Inr (b # bs), w')"
proof -
  let ?u = "drop (read_pos w) (w_in w)"
  have "take (min (length (w_in w) - read_pos w) n) ?u \<noteq> []" using assms by simp
  then obtain b bs where "take (min (length (w_in w) - read_pos w) n) ?u = b # bs"
    by (meson neq_Nil_conv)
  then show ?thesis using assms by (simp add: wire_recv_def Let_def)
qed

interpretation scripted: transport scripted_net wire_sent wire_pending
proof (unfold_locales, goal_cases)
  case (1 t d w u w')
  then show ?case
    by (cases "wire_of t w")
      (auto simp: scripted_net_def scripted_send_def wire_sent_def elim!: wire_of_SomeE
        split: prod.splits dest: wire_send_frame)
next
  case (2 t d w r w')
  then show ?case
    by (cases "wire_of t w")
      (auto simp: scripted_net_def scripted_send_def wire_pending_def elim!: wire_of_SomeE
        split: prod.splits dest: wire_send_frame)
next
  case (3 t d w r w')
  then show ?case
    by (cases "wire_of t w")
      (auto simp: scripted_net_def scripted_send_def scripted_valid_def elim!: wire_of_SomeE
        split: prod.splits dest: wire_send_frame)
next
  case (4 t n ms w bs w')
  then show ?case
    by (cases "wire_of t w")
      (auto simp: scripted_net_def scripted_recv_def wire_pending_def elim!: wire_of_SomeE
        split: prod.splits dest: wire_recv_pending)
next
  case (5 t n ms w e w')
  then show ?case
    by (cases "wire_of t w")
      (auto simp: scripted_net_def scripted_recv_def wire_pending_def elim!: wire_of_SomeE
        split: prod.splits dest: wire_recv_Inl)
next
  case (6 t n ms w r w')
  then show ?case
    by (cases "wire_of t w")
      (auto simp: scripted_net_def scripted_recv_def wire_sent_def elim!: wire_of_SomeE
        split: prod.splits dest: wire_recv_frame)
next
  case (7 t n ms w r w')
  then show ?case
    by (cases "wire_of t w")
      (auto simp: scripted_net_def scripted_recv_def scripted_valid_def elim!: wire_of_SomeE
        split: prod.splits dest: wire_recv_frame)
next
  case (8 t w n ms)
  then obtain x where x: "wire_of t w = Some x" "\<not> w_closed x" "drop (read_pos x) (w_in x) \<noteq> []"
    by (auto simp: scripted_net_def scripted_valid_def wire_pending_def split: option.splits)
  from wire_recv_ready [OF x(2,3) 8(3)] x(1) show ?case
    by (auto simp: scripted_net_def scripted_recv_def)
next
  case (9 w now w' t)
  then show ?case
    by (auto simp: scripted_net_def scripted_clock_def wire_sent_def wire_pending_def scripted_valid_def)
next
  case (10 n w r w' t)
  then show ?case
    by (auto simp: scripted_net_def scripted_random_def wire_sent_def wire_pending_def
        scripted_valid_def split: if_splits)
next
  case (11 n w bs w')
  then show ?case
    by (auto simp: scripted_net_def scripted_random_def split: if_splits)
qed

subsection \<open>Operations that succeed\<close>

lemma put_wire_clock [simp]: "tick (put_wire i w s) = tick s" "clock (put_wire i w s) = clock s"
  by (simp_all add: put_wire_def)

lemma scripted_send_ok:
  assumes "wire_of t s = Some x" and "\<not> w_closed x" and "\<not> fail_send x"
  shows "\<exists>s'. scripted_send t d s = (Inr (), s') \<and>
    wire_of t s' = Some (x\<lparr>w_out := w_out x @ d\<rparr>) \<and> tick s' = tick s \<and> clock s' = clock s"
  using assms by (cases t) (auto simp: scripted_send_def wire_send_def wire_of_def put_wire_def update_conv)

text \<open>A wire that is open and will not fail, on a machine with random numbers.\<close>

definition open_wire :: "nat option \<Rightarrow> 'a scripted_scheme \<Rightarrow> bool" where
  "open_wire t s \<longleftrightarrow>
     rng_ok s \<and> (\<exists>x. wire_of t s = Some x \<and> \<not> w_closed x \<and> \<not> fail_send x)"

lemma open_wire_send:
  assumes "open_wire t s"
  obtains s' where "tsend scripted_net t d s = (Inr (), s')" "open_wire t s'"
proof -
  obtain x where x: "wire_of t s = Some x" "\<not> w_closed x" "\<not> fail_send x" and r: "rng_ok s"
    using assms by (auto simp: open_wire_def)
  from scripted_send_ok [OF x, of d] obtain s' where s': "scripted_send t d s = (Inr (), s')"
    "wire_of t s' = Some (x\<lparr>w_out := w_out x @ d\<rparr>)" by blast
  have "rng_ok s' = rng_ok s"
    using s'(1) by (auto simp: scripted_send_def put_wire_def split: option.splits prod.splits)
  then have "open_wire t s'" using s'(2) x r by (simp add: open_wire_def)
  with that show ?thesis using s'(1) by (simp add: scripted_net_def)
qed

lemma open_wire_random:
  assumes "open_wire t s"
  obtains bs s' where "random_bytes scripted_net n s = (Inr bs, s')" "open_wire t s'"
  using assms that by (auto simp: open_wire_def scripted_net_def scripted_random_def)

end
