(* ===== verification/Ws.thy ===== *)
theory Ws
  imports Transport Base64
begin

text \<open>
  \<^verbatim>\<open>core/src/vc_ws.cpp\<close>: the WebSocket client over any \<^const>\<open>tsend\<close> / \<^const>\<open>trecv\<close>
  transport. A \<open>ws\<close> is the object's three fields; every operation returns the object and the
  world it leaves. The receive loop is split into one step per turn of its \<^verbatim>\<open>for (;;)\<close>; the loop
  itself is a partial function, \<^const>\<open>None\<close> when it never returns.
\<close>

record 't ws =
  ws_transport :: 't
  ws_in :: bytes
  ws_closed :: bool

datatype msg_type = Msg_Text | Msg_Binary | Msg_Close

record message =
  m_type :: msg_type
  m_payload :: bytes

record frame =
  f_opcode :: u8
  f_fin :: bool
  f_payload :: bytes

definition kFragSize :: nat where "kFragSize = 60 * 1024"
definition kMaxMsg :: u64 where "kMaxMsg = 64 * 1024 * 1024"
definition kHdrTimeout :: u64 where "kHdrTimeout = 15000"

definition kChunk :: nat where "kChunk = 8192"

definition crlf :: string where
  "crlf = [CHR 0x0D, CHR 0x0A]"

definition ws_find :: "bytes \<Rightarrow> string \<Rightarrow> nat option" where
  "ws_find hay needle =
     (if needle = [] \<or> length hay < length needle then None
      else find_sub (as_bytes needle) hay)"

text \<open>\<^verbatim>\<open>static_cast<int>\<close> of a 64-bit difference.\<close>

definition to_int32 :: "u64 \<Rightarrow> int" where
  "to_int32 x = sint (ucast x :: u32)"

subsection \<open>Reading and the upgrade\<close>

definition read_more ::
  "('w, 't) net \<Rightarrow> int \<Rightarrow> 't ws \<Rightarrow> 'w \<Rightarrow> nat result \<times> 't ws \<times> 'w" where
  "read_more net timeout_ms ws w =
     (case trecv net (ws_transport ws) kChunk timeout_ms w of
        (Inl e, w) \<Rightarrow> (Inl e, ws, w)
      | (Inr bs, w) \<Rightarrow>
          if bs = [] then (Err Closed, ws, w)
          else (Inr (length bs), ws\<lparr>ws_in := ws_in ws @ bs\<rparr>, w))"

definition upgrade_request :: "string \<Rightarrow> string \<Rightarrow> string \<Rightarrow> string \<Rightarrow> string" where
  "upgrade_request host path_and_query extra_headers key =
     ''GET '' @ path_and_query @ '' HTTP/1.1'' @ crlf @
     ''Host: '' @ host @ crlf @
     ''Upgrade: websocket'' @ crlf @
     ''Connection: Upgrade'' @ crlf @
     ''Sec-WebSocket-Key: '' @ key @ crlf @
     ''Sec-WebSocket-Version: 13'' @ crlf @
     extra_headers @ crlf"

text \<open>One turn of the loop that waits for the header block: go on, or the outcome.\<close>

definition header_step ::
  "('w, 't) net \<Rightarrow> u64 \<Rightarrow> 't ws \<times> 'w \<Rightarrow> 't ws \<times> 'w + nat result \<times> 't ws \<times> 'w" where
  "header_step net deadline st =
     (let (ws, w) = st
      in case ws_find (ws_in ws) (crlf @ crlf) of
           Some hdr_end \<Rightarrow> Inr (Inr hdr_end, ws, w)
         | None \<Rightarrow>
             (let (now, w) = monotonic_ms net w
              in if now \<ge> deadline then Inr (Err Timeout, ws, w)
                 else (case read_more net (to_int32 (deadline - now)) ws w of
                         (Inl _, ws, w) \<Rightarrow> Inr (Err Io, ws, w)
                       | (Inr _, ws, w) \<Rightarrow> Inl (ws, w))))"

partial_function (option) header_loop ::
  "('w, 't) net \<Rightarrow> u64 \<Rightarrow> 't ws \<times> 'w \<Rightarrow> (nat result \<times> 't ws \<times> 'w) option" where
  "header_loop net deadline st =
     (case header_step net deadline st of
        Inl st' \<Rightarrow> header_loop net deadline st'
      | Inr r \<Rightarrow> Some r)"

definition ws_upgrade ::
  "('w, 't) net \<Rightarrow> 't \<Rightarrow> string \<Rightarrow> string \<Rightarrow> string \<Rightarrow> int \<Rightarrow> 'w \<Rightarrow> ('t ws result \<times> 'w) option" where
  "ws_upgrade net t host path_and_query extra_headers timeout_ms w =
     (let ws = \<lparr>ws_transport = t, ws_in = [], ws_closed = False\<rparr>
      in case random_bytes net 16 w of
           (Inl _, w) \<Rightarrow> Some (Err Fail, w)
         | (Inr nonce, w) \<Rightarrow>
             (let key = base64_encode nonce;
                  req = upgrade_request host path_and_query extra_headers key
              in case tsend net t (as_bytes req) w of
                   (Inl _, w) \<Rightarrow> Some (Err Io, w)
                 | (Inr _, w) \<Rightarrow>
                     (let hdr_budget = (if 0 < timeout_ms then word_of_int timeout_ms else kHdrTimeout);
                          (now, w) = monotonic_ms net w
                      in case header_loop net (now + hdr_budget) (ws, w) of
                           None \<Rightarrow> None
                         | Some (Inl e, ws, w) \<Rightarrow> Some (Inl e, w)
                         | Some (Inr hdr_end, ws, w) \<Rightarrow>
                             if \<not> istarts_with (as_view (ws_in ws)) ''HTTP/1.1 101'' \<and>
                                \<not> istarts_with (as_view (ws_in ws)) ''HTTP/1.0 101''
                             then Some (Err Protocol, w)
                             else Some (Inr (ws\<lparr>ws_in := drop (hdr_end + 4) (ws_in ws)\<rparr>), w))))"

subsection \<open>Sending\<close>

definition len_bytes :: "u8 \<Rightarrow> u64 \<Rightarrow> bytes" where
  "len_bytes mbit len =
     (if len < 126 then [mbit OR ucast len]
      else if len \<le> 0xFFFF then [mbit OR 126, ucast (drop_bit 8 len), ucast len]
      else (mbit OR 127) # map (\<lambda>i. ucast (drop_bit (i * 8) len)) (rev [0..<8]))"

definition first_byte :: "u8 \<Rightarrow> bool \<Rightarrow> u8" where
  "first_byte opcode fin = (if fin then 0x80 else 0x00) OR opcode"

text \<open>The XOR of \<^verbatim>\<open>data[off + i]\<close> with \<^verbatim>\<open>mask[(off + i) & 3]\<close>.\<close>

fun mask_from :: "bytes \<Rightarrow> nat \<Rightarrow> bytes \<Rightarrow> bytes" where
  "mask_from mk off [] = []"
| "mask_from mk off (b # bs) = (b XOR mk ! (off mod 4)) # mask_from mk (off + 1) bs"

function send_chunks ::
  "('w, 't) net \<Rightarrow> 't \<Rightarrow> bytes \<Rightarrow> nat \<Rightarrow> bytes \<Rightarrow> 'w \<Rightarrow> status \<times> 'w" where
  "send_chunks net t mk off data w =
     (if data = [] then (Inr (), w)
      else
        (let n = min (length data) kChunk
         in case tsend net t (mask_from mk off (take n data)) w of
              (Inl _, w) \<Rightarrow> (Err Io, w)
            | (Inr _, w) \<Rightarrow> send_chunks net t mk (off + n) (drop n data) w))"
  by pat_completeness auto
termination
  by (relation "measure (\<lambda>(net, t, mk, off, data, w). length data)") (auto simp: kChunk_def)

declare send_chunks.simps [simp del]

definition send_frame ::
  "('w, 't) net \<Rightarrow> 't \<Rightarrow> u8 \<Rightarrow> bool \<Rightarrow> bytes \<Rightarrow> 'w \<Rightarrow> status \<times> 'w" where
  "send_frame net t opcode fin data w =
     (let hdr = first_byte opcode fin # len_bytes 0x80 (word_of_nat (length data))
      in case random_bytes net 4 w of
           (Inl _, w) \<Rightarrow> (Err Fail, w)
         | (Inr mk, w) \<Rightarrow>
             (case tsend net t (hdr @ mk) w of
                (Inl _, w) \<Rightarrow> (Err Io, w)
              | (Inr _, w) \<Rightarrow> send_chunks net t mk 0 data w))"

text \<open>The fragmenting loop of \<^verbatim>\<open>send\<close>.\<close>

function send_frags ::
  "('w, 't) net \<Rightarrow> 't \<Rightarrow> u8 \<Rightarrow> bool \<Rightarrow> bytes \<Rightarrow> 'w \<Rightarrow> status \<times> 'w" where
  "send_frags net t opcode is_first data w =
     (if data = [] then (Inr (), w)
      else
        (let n = min (length data) kFragSize;
             fin = (n = length data)
         in case send_frame net t (if is_first then opcode else 0) fin (take n data) w of
              (Inl e, w) \<Rightarrow> (Inl e, w)
            | (Inr _, w) \<Rightarrow> send_frags net t opcode False (drop n data) w))"
  by pat_completeness auto
termination
  by (relation "measure (\<lambda>(net, t, opcode, f, data, w). length data)") (auto simp: kFragSize_def)

declare send_frags.simps [simp del]

definition ws_send ::
  "('w, 't) net \<Rightarrow> msg_type \<Rightarrow> bytes \<Rightarrow> 't ws \<Rightarrow> 'w \<Rightarrow> status \<times> 'w" where
  "ws_send net type data ws w =
     (if ws_closed ws then (Err Closed, w)
      else
        (let opcode = (if type = Msg_Text then 1 else 2)
         in if length data \<le> kFragSize then send_frame net (ws_transport ws) opcode True data w
            else send_frags net (ws_transport ws) opcode True data w))"

definition send_ping :: "('w, 't) net \<Rightarrow> 't ws \<Rightarrow> 'w \<Rightarrow> status \<times> 'w" where
  "send_ping net ws w =
     (if ws_closed ws then (Err Closed, w) else send_frame net (ws_transport ws) 0x9 True [] w)"

definition send_close :: "('w, 't) net \<Rightarrow> u16 \<Rightarrow> 't ws \<Rightarrow> 'w \<Rightarrow> status \<times> 'w" where
  "send_close net c ws w =
     (if ws_closed ws then (Err Closed, w)
      else send_frame net (ws_transport ws) 0x8 True [ucast (drop_bit 8 c), ucast c] w)"

subsection \<open>Parsing a frame\<close>

definition be_fold :: "bytes \<Rightarrow> u64" where
  "be_fold bs = foldl (\<lambda>len b. push_bit 8 len OR ucast b) 0 bs"

text \<open>The payload length and the position behind it; \<^const>\<open>None\<close> when more bytes are needed.\<close>

definition frame_len :: "bytes \<Rightarrow> (u64 \<times> nat) option" where
  "frame_len p =
     (let len = ucast (p ! 1 AND 0x7F)
      in if len = 126
         then (if length p < 2 + 2 then None
               else Some (push_bit 8 (ucast (p ! 2)) OR ucast (p ! 3), 4))
         else if len = 127
         then (if length p < 2 + 8 then None else Some (be_fold (take 8 (drop 2 p)), 10))
         else Some (len, 2))"

definition parse_frame :: "bytes \<Rightarrow> (frame option \<times> bytes) result" where
  "parse_frame p =
     (if length p < 2 then Inr (None, p)
      else
        (let fin = (p ! 0 AND 0x80 \<noteq> 0);
             opcode = p ! 0 AND 0x0F;
             masked = (p ! 1 AND 0x80 \<noteq> 0)
         in case frame_len p of
              None \<Rightarrow> Inr (None, p)
            | Some (len, pos) \<Rightarrow>
                if len > kMaxMsg then Err Protocol
                else if masked \<and> length p < pos + 4 then Inr (None, p)
                else
                  (let mk = take 4 (drop pos p);
                       pos = (if masked then pos + 4 else pos)
                   in if length p < pos + unat len then Inr (None, p)
                      else
                        (let raw = take (unat len) (drop pos p)
                         in Inr (Some \<lparr>f_opcode = opcode, f_fin = fin,
                                       f_payload = (if masked then mask_from mk 0 raw else raw)\<rparr>,
                                 drop (pos + unat len) p)))))"

subsection \<open>Receiving\<close>

text \<open>The locals of \<^verbatim>\<open>recv\<close> that live across turns of its loop.\<close>

record assembly =
  a_msg :: bytes
  a_opcode :: u8
  a_fragmented :: bool

definition no_assembly :: assembly where
  "no_assembly = \<lparr>a_msg = [], a_opcode = 0, a_fragmented = False\<rparr>"

definition mk_message :: "msg_type \<Rightarrow> bytes \<Rightarrow> message" where
  "mk_message ty d = \<lparr>m_type = ty, m_payload = d\<rparr>"

definition data_type :: "u8 \<Rightarrow> msg_type" where
  "data_type opcode = (if opcode = 1 then Msg_Text else Msg_Binary)"

type_synonym ('w, 't) recv_state = "assembly \<times> 't ws \<times> 'w"
type_synonym ('w, 't) recv_outcome = "message result \<times> 't ws \<times> 'w"

text \<open>The switch over the opcode of a complete frame.\<close>

definition handle_frame ::
  "('w, 't) net \<Rightarrow> frame \<Rightarrow> ('w, 't) recv_state \<Rightarrow> ('w, 't) recv_state + ('w, 't) recv_outcome"
where
  "handle_frame net f st =
     (let (a, ws, w) = st; t = ws_transport ws
      in if f_opcode f = 0x9
         then (let (_, w) = send_frame net t 0xA True (f_payload f) w in Inl (a, ws, w))
         else if f_opcode f = 0xA then Inl (a, ws, w)
         else if f_opcode f = 0x8
         then (let (_, w) = send_frame net t 0x8 True (take 2 (f_payload f)) w
               in Inr (Inr (mk_message Msg_Close (f_payload f)), ws\<lparr>ws_closed := True\<rparr>, w))
         else if f_opcode f = 0x0
         then (if \<not> a_fragmented a then Inr (Err Protocol, ws, w)
               else
                 (let msg = a_msg a @ f_payload f
                  in if f_fin f then Inr (Inr (mk_message (data_type (a_opcode a)) msg), ws, w)
                     else Inl (a\<lparr>a_msg := msg\<rparr>, ws, w)))
         else if f_opcode f = 0x1 \<or> f_opcode f = 0x2
         then (if a_fragmented a then Inr (Err Protocol, ws, w)
               else if f_fin f
               then Inr (Inr (mk_message (data_type (f_opcode f)) (f_payload f)), ws, w)
               else Inl (a\<lparr>a_fragmented := True, a_opcode := f_opcode f,
                           a_msg := a_msg a @ f_payload f\<rparr>, ws, w))
         else Inr (Err Protocol, ws, w))"

definition recv_step ::
  "('w, 't) net \<Rightarrow> int \<Rightarrow> u64 \<Rightarrow> ('w, 't) recv_state \<Rightarrow>
     ('w, 't) recv_state + ('w, 't) recv_outcome"
where
  "recv_step net timeout_ms deadline st =
     (let (a, ws, w) = st
      in case parse_frame (ws_in ws) of
           Inl e \<Rightarrow> Inr (Inl e, ws, w)
         | Inr (Some f, rest) \<Rightarrow> handle_frame net f (a, ws\<lparr>ws_in := rest\<rparr>, w)
         | Inr (None, _) \<Rightarrow>
             (let (now, w) = monotonic_ms net w
              in if 0 \<le> timeout_ms \<and> now \<ge> deadline then Inr (Err Timeout, ws, w)
                 else
                   (let wait = (if timeout_ms < 0 then 60000 else to_int32 (deadline - now))
                    in case read_more net wait ws w of
                         (Inr _, ws, w) \<Rightarrow> Inl (a, ws, w)
                       | (Inl e, ws, w) \<Rightarrow>
                           if error_is e Timeout
                           then (if timeout_ms < 0 then Inl (a, ws, w)
                                 else Inr (Err Timeout, ws, w))
                           else Inr (Inl e, ws\<lparr>ws_closed := True\<rparr>, w))))"

partial_function (option) recv_loop ::
  "('w, 't) net \<Rightarrow> int \<Rightarrow> u64 \<Rightarrow> ('w, 't) recv_state \<Rightarrow> ('w, 't) recv_outcome option" where
  "recv_loop net timeout_ms deadline st =
     (case recv_step net timeout_ms deadline st of
        Inl st' \<Rightarrow> recv_loop net timeout_ms deadline st'
      | Inr r \<Rightarrow> Some r)"

definition ws_recv ::
  "('w, 't) net \<Rightarrow> int \<Rightarrow> 't ws \<Rightarrow> 'w \<Rightarrow> ('w, 't) recv_outcome option" where
  "ws_recv net timeout_ms ws w =
     (if ws_closed ws then Some (Err Closed, ws, w)
      else
        (let (now, w) = monotonic_ms net w;
             deadline = now + word_of_int (if timeout_ms < 0 then 0 else timeout_ms)
         in recv_loop net timeout_ms deadline (no_assembly, ws, w)))"

definition ws_close :: "('w, 't) net \<Rightarrow> 't ws \<Rightarrow> 'w \<Rightarrow> 't ws \<times> 'w" where
  "ws_close net ws w =
     (ws\<lparr>ws_in := [], ws_closed := True\<rparr>, tclose net (ws_transport ws) w)"

definition ws_valid :: "('w, 't) net \<Rightarrow> 't ws \<Rightarrow> 'w \<Rightarrow> bool" where
  "ws_valid net ws w = tvalid net (ws_transport ws) w"

text \<open>
  \<^verbatim>\<open>ws_connect\<close>: \<^verbatim>\<open>Socket::connect\<close> and \<^verbatim>\<open>Tls::connect\<close> are platform code, here the
  arguments \<open>dial\<close> and \<open>tls\<close>.
\<close>

definition ws_connect ::
  "('w, 't) net \<Rightarrow> (string \<Rightarrow> int \<Rightarrow> int \<Rightarrow> 'w \<Rightarrow> 's result \<times> 'w) \<Rightarrow>
   ('s \<Rightarrow> string \<Rightarrow> int \<Rightarrow> 'w \<Rightarrow> 't result \<times> 'w) \<Rightarrow>
   string \<Rightarrow> int \<Rightarrow> string \<Rightarrow> string \<Rightarrow> int \<Rightarrow> 'w \<Rightarrow> ('t ws result \<times> 'w) option"
where
  "ws_connect net dial tls host port path_and_query extra_headers timeout_ms w =
     (case dial host port timeout_ms w of
        (Inl e, w) \<Rightarrow> Some (Inl e, w)
      | (Inr sock, w) \<Rightarrow>
          (case tls sock host timeout_ms w of
             (Inl e, w) \<Rightarrow> Some (Inl e, w)
           | (Inr t, w) \<Rightarrow> ws_upgrade net t host path_and_query extra_headers timeout_ms w))"

end
