(* ===== verification/Ws_Facts.thy ===== *)
theory Ws_Facts
  imports Ws
begin

text \<open>
  What holds of \<^verbatim>\<open>vc_ws.cpp\<close>: the frame codec, what a successful send puts on the wire, and
  that receiving from a wire, in whatever pieces the bytes arrive, refines the delivery of
  whole frames. The statements about a transport are proved from its contract.
\<close>

subsection \<open>The frame codec\<close>

definition enc_frame :: "bytes option \<Rightarrow> frame \<Rightarrow> bytes" where
  "enc_frame mko f =
     first_byte (f_opcode f) (f_fin f) #
     (case mko of
        None \<Rightarrow> len_bytes 0 (word_of_nat (length (f_payload f))) @ f_payload f
      | Some mk \<Rightarrow> len_bytes 0x80 (word_of_nat (length (f_payload f))) @ mk @
                    mask_from mk 0 (f_payload f))"

definition frame_ok :: "frame \<Rightarrow> bool" where
  "frame_ok f \<longleftrightarrow> f_opcode f < 16 \<and> length (f_payload f) \<le> unat kMaxMsg"

definition mask_ok :: "bytes option \<Rightarrow> bool" where
  "mask_ok mko \<longleftrightarrow> (case mko of None \<Rightarrow> True | Some mk \<Rightarrow> length mk = 4)"

lemma length_mask_from [simp]: "length (mask_from mk off d) = length d"
  by (induction mk off d rule: mask_from.induct) auto

lemma mask_from_eq_Nil [simp]: "mask_from mk off d = [] \<longleftrightarrow> d = []"
  by (cases d) auto

lemma mask_from_involution [simp]: "mask_from mk off (mask_from mk off d) = d"
  by (induction mk off d rule: mask_from.induct) (auto simp: xor.assoc)

lemma mask_from_append:
  "mask_from mk off (a @ b) = mask_from mk off a @ mask_from mk (off + length a) b"
  by (induction mk off a rule: mask_from.induct) auto

lemma be_step:
  fixes v :: u64
  shows "push_bit 8 (drop_bit (k + 8) v) OR ucast (ucast (drop_bit k v) :: u8) = drop_bit k v"
proof (rule bit_word_eqI)
  fix n assume "n < LENGTH(64)"
  then show "bit (push_bit 8 (drop_bit (k + 8) v) OR ucast (ucast (drop_bit k v) :: u8)) n =
      bit (drop_bit k v) n"
    by (cases "n < 8") (simp_all add: bit_simps)
qed

lemma be_fold_bytes: "be_fold (map (\<lambda>i. ucast (drop_bit (i * 8) v)) (rev [0..<8])) = v"
proof -
  have z: "drop_bit 64 v = 0" by (rule bit_word_eqI) (simp add: bit_simps)
  have "rev [0..<8] = [7, 6, 5, 4, 3, 2, 1, 0::nat]" by (simp add: upt_rec)
  then show ?thesis
    using be_step [of 56 v] be_step [of 48 v] be_step [of 40 v] be_step [of 32 v]
      be_step [of 24 v] be_step [of 16 v] be_step [of 8 v] be_step [of 0 v] z
    by (simp add: be_fold_def)
qed

lemma two_bytes: "len \<le> 0xFFFF \<Longrightarrow>
  push_bit 8 (ucast (ucast (drop_bit 8 len) :: u8)) OR ucast (ucast len :: u8) = (len :: u64)"
proof -
  assume le: "len \<le> 0xFFFF"
  have "unat (drop_bit 16 len) = 0"
    using le by (simp add: unat_drop_bit_eq word_le_nat_alt drop_bit_eq_div [of 16 "unat len"])
  then have "drop_bit 16 len = 0" by (simp only: unat_eq_zero)
  then show ?thesis using be_step [of 8 len] be_step [of 0 len] by simp
qed

text \<open>The two header bytes, checked value by value.\<close>

lemma len7_table:
  "list_all (\<lambda>n. let x = word_of_nat n :: u8 in
     (0x80 OR x) AND 0x7F = x \<and> (0x80 OR x) AND 0x80 \<noteq> 0 \<and> x AND 0x7F = x \<and> x AND 0x80 = 0)
   [0..<128]"
  by code_simp

lemma opcode_table:
  "list_all (\<lambda>n. let x = word_of_nat n :: u8 in
     (0x80 OR x) AND 0x0F = x \<and> (0x80 OR x) AND 0x80 \<noteq> 0 \<and> (0 OR x) AND 0x0F = x \<and>
     (0 OR x) AND 0x80 = 0) [0..<16]"
  by code_simp

lemma len7:
  fixes x :: u8
  assumes "x < 128"
  shows "(0x80 OR x) AND 0x7F = x" "(0x80 OR x) AND 0x80 \<noteq> 0" "x AND 0x7F = x" "x AND 0x80 = 0"
proof -
  have "unat x \<in> set [0..<128]" using assms by (simp add: word_less_nat_alt)
  from len7_table [unfolded list_all_iff, rule_format, OF this]
  show "(0x80 OR x) AND 0x7F = x" "(0x80 OR x) AND 0x80 \<noteq> 0" "x AND 0x7F = x" "x AND 0x80 = 0"
    by (simp_all add: Let_def)
qed

lemma first_byte_fields:
  assumes "opcode < 16"
  shows "first_byte opcode fin AND 0x0F = opcode" "(first_byte opcode fin AND 0x80 \<noteq> 0) = fin"
proof -
  have "unat opcode \<in> set [0..<16]" using assms by (simp add: word_less_nat_alt)
  from opcode_table [unfolded list_all_iff, rule_format, OF this]
  show "first_byte opcode fin AND 0x0F = opcode" "(first_byte opcode fin AND 0x80 \<noteq> 0) = fin"
    by (auto simp: first_byte_def Let_def)
qed

lemma small_len:
  assumes "len < (126 :: u64)"
  shows "(ucast len :: u8) < 128" "ucast (ucast len :: u8) = len"
proof -
  have u: "unat len < 126" using assms by (simp add: word_less_nat_alt)
  then have "unat (ucast len :: u8) = unat len" by (simp add: unsigned_ucast_eq take_bit_nat_eq_self)
  then show "(ucast len :: u8) < 128" using u by (simp add: word_less_nat_alt)
  have "unat (take_bit 8 len) = unat len"
    using u by (simp add: unsigned_take_bit_eq take_bit_nat_eq_self)
  then have "take_bit 8 len = len" by (simp only: word_unat_eq_iff)
  then show "ucast (ucast len :: u8) = len" by (simp add: word_eq_iff_unsigned unsigned_ucast_eq)
qed

lemma len_bytes_masked:
  assumes "mbit = 0 \<or> mbit = 0x80"
  shows "(hd (len_bytes mbit len) AND 0x80 \<noteq> 0) = (mbit = 0x80)"
  using assms small_len [of len] len7 [of "ucast len"]
  by (auto simp: len_bytes_def)

lemma len_bytes_ne [simp]: "len_bytes mbit len \<noteq> []"
  by (simp add: len_bytes_def)

lemma len_bytes_length: "length (len_bytes mbit len) =
  (if len < 126 then 1 else if len \<le> 0xFFFF then 3 else 9)"
  by (simp add: len_bytes_def)

text \<open>The value of the second byte's low bits tells the three forms apart.\<close>

lemma len_bytes_code:
  assumes "mbit = 0 \<or> mbit = 0x80"
  shows "ucast (hd (len_bytes mbit len) AND 0x7F) =
    (if len < 126 then len else if len \<le> 0xFFFF then 126 else (127 :: u64))"
  using assms small_len [of len] len7 [of "ucast len"]
  by (auto simp: len_bytes_def)

lemma frame_len_enc:
  assumes "mbit = 0 \<or> mbit = 0x80"
  shows "frame_len (b # len_bytes mbit len @ x) = Some (len, 1 + length (len_bytes mbit len))"
proof -
  let ?p = "b # len_bytes mbit len @ x"
  have n1: "?p ! 1 = hd (len_bytes mbit len)"
    by (simp add: nth_append hd_conv_nth)
  note code = len_bytes_code [OF assms, of len]
  show ?thesis
  proof (cases "len < 126")
    case True
    then have "len \<noteq> 126" "len \<noteq> 127" by auto
    with True show ?thesis
      unfolding frame_len_def n1 code Let_def by (simp add: len_bytes_length)
  next
    case ge: False
    show ?thesis
    proof (cases "len \<le> 0xFFFF")
      case True
      have "?p ! 2 = ucast (drop_bit 8 len)" "?p ! 3 = ucast len" "length ?p \<ge> 4"
        using ge True by (simp_all add: len_bytes_def nth_append numeral_eq_Suc)
      with ge True two_bytes [OF True] show ?thesis
        unfolding frame_len_def n1 code Let_def by (simp add: len_bytes_length)
    next
      case False
      have t: "take 8 (drop 2 ?p) = map (\<lambda>i. ucast (drop_bit (i * 8) len)) (rev [0..<8])"
        using ge False by (simp add: len_bytes_def)
      have l: "length ?p \<ge> 10" using ge False by (simp add: len_bytes_length)
      show ?thesis
        unfolding frame_len_def n1 code Let_def t be_fold_bytes
        using ge False l by (simp add: len_bytes_length)
    qed
  qed
qed

lemma frame_len_cut:
  assumes "mbit = 0 \<or> mbit = 0x80" and "2 \<le> length p"
    and "prefix p (b # len_bytes mbit len @ x)" and "length p < 1 + length (len_bytes mbit len)"
  shows "frame_len p = None"
proof -
  from assms(3) obtain y where y: "b # len_bytes mbit len @ x = p @ y" by (auto elim: prefixE)
  have "p ! 1 = (p @ y) ! 1" using assms(2) by (simp add: nth_append)
  also have "\<dots> = (b # len_bytes mbit len @ x) ! 1" by (simp only: y)
  also have "\<dots> = hd (len_bytes mbit len)" by (simp add: nth_append hd_conv_nth)
  finally have n1: "p ! 1 = hd (len_bytes mbit len)" .
  show ?thesis
    unfolding frame_len_def n1 len_bytes_code [OF assms(1)] Let_def
    using assms(2,4) by (auto simp: len_bytes_length split: if_splits)
qed

lemma payload_len:
  assumes "length d \<le> unat kMaxMsg"
  shows "unat (word_of_nat (length d) :: u64) = length d" "\<not> word_of_nat (length d) > kMaxMsg"
proof -
  have "unat kMaxMsg = 67108864" by (simp add: kMaxMsg_def)
  with assms show u: "unat (word_of_nat (length d) :: u64) = length d"
    by (simp add: unat_of_nat)
  then show "\<not> word_of_nat (length d) > kMaxMsg" using assms by (simp add: word_less_nat_alt)
qed

lemma parse_frame_enc:
  assumes "frame_ok f" and "mask_ok mko"
  shows "parse_frame (enc_frame mko f @ x) = Inr (Some f, x)"
proof -
  let ?d = "f_payload f"
  let ?len = "word_of_nat (length ?d) :: u64"
  have op: "f_opcode f < 16" and len: "unat ?len = length ?d" "\<not> ?len > kMaxMsg"
    using assms(1) payload_len [of ?d] by (auto simp: frame_ok_def)
  have cut: "take (length l) (drop k (p @ l @ y)) = l \<and> drop (k + length l) (p @ l @ y) = y"
    if "length p = k" for p l y :: bytes and k using that by simp
  show ?thesis
  proof (cases mko)
    case None
    let ?h = "first_byte (f_opcode f) (f_fin f) # len_bytes 0 ?len"
    have p: "enc_frame mko f @ x = ?h @ ?d @ x" by (simp add: enc_frame_def None)
    have fl: "frame_len (?h @ ?d @ x) = Some (?len, length ?h)"
      using frame_len_enc [of 0 "first_byte (f_opcode f) (f_fin f)" ?len "?d @ x"] by simp
    have m: "\<not> (?h @ ?d @ x) ! 1 AND 0x80 \<noteq> 0"
      using len_bytes_masked [of 0 ?len] by (simp add: nth_append hd_conv_nth)
    have l2: "\<not> length (?h @ ?d @ x) < 2"
      by (simp add: len_bytes_length)
    show ?thesis
      using cut [where p = ?h and k = "length ?h" and l = ?d and y = x] first_byte_fields [OF op] len(2) l2
      unfolding p parse_frame_def Let_def fl
      by (simp only: if_False m option.case prod.case len(1) refl) (simp add: m)
  next
    case (Some mk)
    let ?h = "first_byte (f_opcode f) (f_fin f) # len_bytes 0x80 ?len"
    let ?e = "mask_from mk 0 ?d"
    have mk: "length mk = 4" using assms(2) Some by (simp add: mask_ok_def)
    have p: "enc_frame mko f @ x = ?h @ mk @ ?e @ x" by (simp add: enc_frame_def Some)
    have fl: "frame_len (?h @ mk @ ?e @ x) = Some (?len, length ?h)"
      using frame_len_enc [of "0x80" "first_byte (f_opcode f) (f_fin f)" ?len "mk @ ?e @ x"] by simp
    have m: "(?h @ mk @ ?e @ x) ! 1 AND 0x80 \<noteq> 0"
      using len_bytes_masked [of "0x80" ?len] by (simp add: nth_append hd_conv_nth)
    have l2: "\<not> length (?h @ mk @ ?e @ x) < 2"
      by (simp add: len_bytes_length)
    have tk: "take 4 (drop (length ?h) (?h @ mk @ ?e @ x)) = mk" using mk by simp
    show ?thesis
      using cut [where p = "?h @ mk" and k = "length ?h + 4" and l = ?e and y = x] first_byte_fields [OF op] len(2) l2 mk
      unfolding p parse_frame_def Let_def fl option.case prod.case tk
      by (simp only: if_False if_True m append_assoc len(1)) (simp add: m)
  qed
qed

text \<open>A frame that has not arrived in full is never delivered, and nothing is consumed.\<close>

lemma parse_frame_cut:
  assumes "frame_ok f" and "mask_ok mko" and "strict_prefix p (enc_frame mko f)"
  shows "parse_frame p = Inr (None, p)"
proof (cases "length p < 2")
  case True
  then show ?thesis by (simp add: parse_frame_def)
next
  case l2: False
  let ?d = "f_payload f"
  let ?len = "word_of_nat (length ?d) :: u64"
  let ?mbit = "if mko = None then 0 else 0x80 :: u8"
  let ?b = "first_byte (f_opcode f) (f_fin f)"
  let ?tail = "case mko of None \<Rightarrow> ?d | Some mk \<Rightarrow> mk @ mask_from mk 0 ?d"
  have mbit: "?mbit = 0 \<or> ?mbit = 0x80" by simp
  have len: "unat ?len = length ?d" "\<not> ?len > kMaxMsg"
    using assms(1) payload_len [of ?d] by (auto simp: frame_ok_def)
  have e: "enc_frame mko f = ?b # len_bytes ?mbit ?len @ ?tail"
    by (simp add: enc_frame_def split: option.split)
  have pre: "prefix p (?b # len_bytes ?mbit ?len @ ?tail)"
    using assms(3) unfolding e by (simp add: strict_prefix_def)
  have lt: "length p < 1 + length (len_bytes ?mbit ?len) + length ?tail"
    using prefix_length_less [OF assms(3)] unfolding e by simp
  show ?thesis
  proof (cases "length p < 1 + length (len_bytes ?mbit ?len)")
    case True
    have "frame_len p = None"
      using frame_len_cut [OF mbit _ pre True] l2 by simp
    then show ?thesis by (simp add: parse_frame_def Let_def)
  next
    case False
    have "prefix (?b # len_bytes ?mbit ?len) p"
      by (rule prefix_length_prefix [OF _ pre]) (use False in simp_all)
    then obtain x where p: "p = ?b # len_bytes ?mbit ?len @ x" by (auto elim: prefixE)
    have fl: "frame_len p = Some (?len, 1 + length (len_bytes ?mbit ?len))"
      unfolding p by (rule frame_len_enc [OF mbit])
    have m: "(p ! 1 AND 0x80 \<noteq> 0) = (mko \<noteq> None)"
      using len_bytes_masked [OF mbit, of ?len] unfolding p by (simp add: nth_append hd_conv_nth)
    show ?thesis
    proof (cases mko)
      case None
      have "length p < 1 + length (len_bytes ?mbit ?len) + unat ?len"
        using lt None len(1) by simp
      then show ?thesis using l2 m None len(2)
        unfolding parse_frame_def Let_def fl option.case prod.case by simp
    next
      case (Some mk)
      then have "length mk = 4" using assms(2) by (simp add: mask_ok_def)
      then have "length p < 1 + length (len_bytes ?mbit ?len) + 4 + unat ?len"
        using lt Some len(1) by simp
      then show ?thesis using l2 m Some len(2)
        unfolding parse_frame_def Let_def fl option.case prod.case by simp
    qed
  qed
qed

lemma parse_frame_shrinks: "parse_frame p = Inr (Some f, r) \<Longrightarrow> length r + 2 \<le> length p"
  by (auto simp: parse_frame_def frame_len_def Let_def split: if_splits option.splits)

subsection \<open>Frames and their delivery\<close>

definition mk_frame :: "u8 \<Rightarrow> bool \<Rightarrow> bytes \<Rightarrow> frame" where
  "mk_frame opcode fin d = \<lparr>f_opcode = opcode, f_fin = fin, f_payload = d\<rparr>"

text \<open>The frames a message is sent as.\<close>

function frag_frames :: "u8 \<Rightarrow> bool \<Rightarrow> bytes \<Rightarrow> frame list" where
  "frag_frames opcode is_first d =
     (if d = [] then []
      else mk_frame (if is_first then opcode else 0) (length d \<le> kFragSize) (take kFragSize d) #
           frag_frames opcode False (drop kFragSize d))"
  by pat_completeness auto
termination
  by (relation "measure (\<lambda>(opcode, i, d). length d)") (auto simp: kFragSize_def)

declare frag_frames.simps [simp del]

definition message_frames :: "u8 \<Rightarrow> bytes \<Rightarrow> frame list" where
  "message_frames opcode d =
     (if length d \<le> kFragSize then [mk_frame opcode True d] else frag_frames opcode True d)"

text \<open>
  What \<^verbatim>\<open>recv\<close> promises, on whole frames: control frames in between are skipped, a
  fragmented message is put together, a close ends the wait.
\<close>

definition frame_effect :: "assembly \<Rightarrow> frame \<Rightarrow> assembly + message result" where
  "frame_effect a f =
     (if f_opcode f = 0x9 \<or> f_opcode f = 0xA then Inl a
      else if f_opcode f = 0x8 then Inr (Inr (mk_message Msg_Close (f_payload f)))
      else if f_opcode f = 0x0
      then (if \<not> a_fragmented a then Inr (Err Protocol)
            else if f_fin f
            then Inr (Inr (mk_message (data_type (a_opcode a)) (a_msg a @ f_payload f)))
            else Inl (a\<lparr>a_msg := a_msg a @ f_payload f\<rparr>))
      else if f_opcode f = 0x1 \<or> f_opcode f = 0x2
      then (if a_fragmented a then Inr (Err Protocol)
            else if f_fin f then Inr (Inr (mk_message (data_type (f_opcode f)) (f_payload f)))
            else Inl (a\<lparr>a_fragmented := True, a_opcode := f_opcode f,
                        a_msg := a_msg a @ f_payload f\<rparr>))
      else Inr (Err Protocol))"

fun deliver :: "assembly \<Rightarrow> frame list \<Rightarrow> (message result \<times> frame list) option" where
  "deliver a [] = None"
| "deliver a (f # fs) =
     (case frame_effect a f of Inl a' \<Rightarrow> deliver a' fs | Inr r \<Rightarrow> Some (r, fs))"

lemma deliver_frags:
  "d \<noteq> [] \<Longrightarrow> opcode = 1 \<or> opcode = 2 \<Longrightarrow> is_first = (\<not> a_fragmented a) \<Longrightarrow>
   (is_first \<longrightarrow> a_msg a = []) \<Longrightarrow> (\<not> is_first \<longrightarrow> a_opcode a = opcode) \<Longrightarrow>
   deliver a (frag_frames opcode is_first d @ fs) =
     Some (Inr (mk_message (data_type opcode) (a_msg a @ d)), fs)"
proof (induction opcode is_first d arbitrary: a rule: frag_frames.induct)
  case (1 opcode is_first d)
  show ?case
  proof (cases "length d \<le> kFragSize")
    case True
    then show ?thesis
      using "1.prems" by (subst frag_frames.simps)
        (auto simp: mk_frame_def frame_effect_def frag_frames.simps)
  next
    case False
    let ?f = "mk_frame (if is_first then opcode else 0) False (take kFragSize d)"
    have "frame_effect a ?f = Inl \<lparr>a_msg = a_msg a @ take kFragSize d, a_opcode = opcode,
        a_fragmented = True\<rparr>"
      using "1.prems" by (auto simp: frame_effect_def mk_frame_def)
    moreover have "deliver \<lparr>a_msg = a_msg a @ take kFragSize d, a_opcode = opcode, a_fragmented = True\<rparr>
        (frag_frames opcode False (drop kFragSize d) @ fs) =
        Some (Inr (mk_message (data_type opcode) ((a_msg a @ take kFragSize d) @ drop kFragSize d)), fs)"
      using "1.prems" False by (subst "1.IH") auto
    ultimately show ?thesis
      using "1.prems" False by (subst frag_frames.simps) simp
  qed
qed

lemma deliver_message:
  assumes "opcode = 1 \<or> opcode = 2"
  shows "deliver no_assembly (message_frames opcode d @ fs) =
    Some (Inr (mk_message (data_type opcode) d), fs)"
proof (cases "length d \<le> kFragSize")
  case True
  then show ?thesis
    using assms by (auto simp: message_frames_def mk_frame_def frame_effect_def no_assembly_def)
next
  case False
  then have "d \<noteq> []" by auto
  with False assms show ?thesis
    using deliver_frags [of d opcode True no_assembly fs]
    by (simp add: message_frames_def no_assembly_def)
qed

lemma frag_frames_ok:
  "opcode = 1 \<or> opcode = 2 \<Longrightarrow> f \<in> set (frag_frames opcode is_first d) \<Longrightarrow> frame_ok f"
proof (induction opcode is_first d rule: frag_frames.induct)
  case (1 opcode is_first d)
  show ?case
  proof (cases "f \<in> set (frag_frames opcode False (drop kFragSize d)) \<and> d \<noteq> []")
    case True
    then show ?thesis using 1 by blast
  next
    case False
    then have "f = mk_frame (if is_first then opcode else 0) (length d \<le> kFragSize) (take kFragSize d)"
      using "1.prems" by (subst (asm) (2) frag_frames.simps) (auto split: if_splits)
    then show ?thesis
      using "1.prems"(1) by (auto simp: frame_ok_def mk_frame_def kFragSize_def kMaxMsg_def)
  qed
qed

lemma message_frames_ok:
  assumes "opcode = 1 \<or> opcode = 2" and "f \<in> set (message_frames opcode d)"
  shows "frame_ok f"
proof (cases "length d \<le> kFragSize")
  case True
  then have "f = mk_frame opcode True d" using assms(2) by (simp add: message_frames_def)
  then show ?thesis
    using True assms(1) by (auto simp: frame_ok_def mk_frame_def kFragSize_def kMaxMsg_def)
next
  case False
  then show ?thesis using assms frag_frames_ok by (simp add: message_frames_def)
qed

text \<open>Pings and pongs may come at any point of a message.\<close>

definition is_control :: "frame \<Rightarrow> bool" where
  "is_control f \<longleftrightarrow> f_opcode f = 0x9 \<or> f_opcode f = 0xA"

lemma deliver_control:
  "deliver a fs = Some (r, rest) \<Longrightarrow> fs = filter (\<lambda>f. \<not> is_control f) gs \<Longrightarrow>
     \<exists>rest'. deliver a gs = Some (r, rest') \<and> rest = filter (\<lambda>f. \<not> is_control f) rest'"
proof (induction gs arbitrary: a fs)
  case (Cons g gs)
  show ?case
  proof (cases "is_control g")
    case True
    then have "frame_effect a g = Inl a" by (simp add: frame_effect_def is_control_def)
    with Cons True show ?thesis by simp
  next
    case False
    then show ?thesis using Cons by (cases "frame_effect a g") auto
  qed
qed simp

lemma handle_frame_effect:
  "handle_frame net f (a, ws, w) =
     (let w' = (if f_opcode f = 0x9 then snd (send_frame net (ws_transport ws) 0xA True (f_payload f) w)
                else if f_opcode f = 0x8
                then snd (send_frame net (ws_transport ws) 0x8 True (take 2 (f_payload f)) w)
                else w)
      in case frame_effect a f of
           Inl a' \<Rightarrow> Inl (a', ws, w')
         | Inr r \<Rightarrow> Inr (r, if f_opcode f = 0x8 then ws\<lparr>ws_closed := True\<rparr> else ws, w'))"
  by (auto simp: handle_frame_def frame_effect_def Let_def split: prod.split)

text \<open>The bytes of a sequence of frames, each masked or not.\<close>

definition wire_bytes :: "(bytes option \<times> frame) list \<Rightarrow> bytes" where
  "wire_bytes mfs = concat (map (\<lambda>(mko, f). enc_frame mko f) mfs)"

definition wire_ok :: "(bytes option \<times> frame) list \<Rightarrow> bool" where
  "wire_ok mfs \<longleftrightarrow> (\<forall>(mko, f) \<in> set mfs. mask_ok mko \<and> frame_ok f)"

lemma enc_frame_ne [simp]: "enc_frame mko f \<noteq> []"
  by (simp add: enc_frame_def)

lemma enc_frame_send:
  "enc_frame (Some mk) (mk_frame opcode fin d) =
     (first_byte opcode fin # len_bytes 0x80 (word_of_nat (length d)) @ mk) @ mask_from mk 0 d"
  by (simp add: enc_frame_def mk_frame_def)

subsection \<open>Over any transport\<close>

lemma recv_step_open:
  "recv_step net ms dl (a, ws, w) = Inl (a', ws', w') \<Longrightarrow> ws_closed ws' = ws_closed ws"
  "recv_step net ms dl (a, ws, w) = Inr (Inr m, ws', w') \<Longrightarrow> m_type m \<noteq> Msg_Close \<Longrightarrow>
     ws_closed ws' = ws_closed ws"
  by (auto simp: recv_step_def handle_frame_def read_more_def mk_message_def Let_def
      split: prod.splits sum.splits option.splits if_splits)

lemma recv_loop_open:
  assumes "recv_loop net ms dl st = Some y"
  shows "\<forall>m. fst y = Inr m \<longrightarrow> m_type m \<noteq> Msg_Close \<longrightarrow>
    ws_closed (fst (snd y)) = ws_closed (fst (snd st))"
proof (rule recv_loop.raw_induct
    [where P = "\<lambda>n m d s y. \<forall>q. fst y = Inr q \<longrightarrow> m_type q \<noteq> Msg_Close \<longrightarrow>
      ws_closed (fst (snd y)) = ws_closed (fst (snd s))", OF _ assms], intro allI impI, goal_cases)
  case (1 loop n m d s y q)
  obtain a ws w where s: "s = (a, ws, w)" by (cases s)
  obtain q' ws2 w2 where y: "y = (q', ws2, w2)" by (cases y)
  show ?case
  proof (cases "recv_step n m d s")
    case (Inl s1)
    obtain a1 ws1 w1 where s1: "s1 = (a1, ws1, w1)" by (cases s1)
    have "loop n m d s1 = Some y" using 1(2) Inl by simp
    from 1(1) [OF this] 1(3,4) have "ws_closed (fst (snd y)) = ws_closed ws1" by (simp add: s1)
    then show ?thesis using recv_step_open(1) [of n m d a ws w] Inl s s1 by auto
  next
    case (Inr o1)
    then have "o1 = y" using 1 by simp
    then show ?thesis using recv_step_open(2) [of n m d a ws w] 1(3,4) Inr s y by auto
  qed
qed

lemma ws_recv_open:
  assumes "ws_recv net ms ws w = Some (Inr m, ws', w')" and "m_type m \<noteq> Msg_Close"
  shows "\<not> ws_closed ws'"
  using assms
  by (auto simp: ws_recv_def Let_def split: prod.splits if_splits dest!: recv_loop_open)

context transport
begin

definition keeps :: "'t \<Rightarrow> 'w \<Rightarrow> 'w \<Rightarrow> bool" where
  "keeps t w w' \<longleftrightarrow> pending t w' = pending t w \<and> tvalid net t w' = tvalid net t w"

lemma keeps_refl [simp]: "keeps t w w"
  by (simp add: keeps_def)

lemma keeps_trans: "keeps t w w' \<Longrightarrow> keeps t w' w'' \<Longrightarrow> keeps t w w''"
  by (simp add: keeps_def)

lemma send_keeps: "tsend net t d w = (r, w') \<Longrightarrow> keeps t w w'"
  using send_pending send_valid by (auto simp: keeps_def)

lemma random_keeps': "random_bytes net n w = (q, w') \<Longrightarrow> keeps t w w'"
  using random_keeps by (auto simp: keeps_def)

lemma send_chunks_keeps: "send_chunks net t mk off d w = (r, w') \<Longrightarrow> keeps t w w'"
proof (induction "length d" arbitrary: d off w rule: less_induct)
  case less
  show ?case
  proof (cases "d = []")
    case True
    then show ?thesis using less.prems by (simp add: send_chunks.simps)
  next
    case False
    let ?n = "min (length d) kChunk"
    obtain q w1 where s: "tsend net t (mask_from mk off (take ?n d)) w = (q, w1)" by fastforce
    note k = send_keeps [OF s]
    show ?thesis
    proof (cases q)
      case (Inl e)
      with less.prems False s k show ?thesis by (subst (asm) send_chunks.simps) (simp add: Let_def)
    next
      case (Inr u)
      have "send_chunks net t mk (off + ?n) (drop ?n d) w1 = (r, w')"
        using less.prems False s Inr by (subst (asm) send_chunks.simps) (simp add: Let_def)
      moreover have "length (drop ?n d) < length d" using False by (simp add: kChunk_def)
      ultimately have "keeps t w1 w'" using less.hyps by blast
      with k show ?thesis by (rule keeps_trans)
    qed
  qed
qed

lemma send_chunks_sent:
  "send_chunks net t mk off d w = (Inr (), w') \<Longrightarrow> sent t w' = sent t w @ mask_from mk off d"
proof (induction "length d" arbitrary: d off w rule: less_induct)
  case less
  show ?case
  proof (cases "d = []")
    case True
    then show ?thesis using less.prems by (simp add: send_chunks.simps)
  next
    case False
    let ?n = "min (length d) kChunk"
    obtain q w1 where s: "tsend net t (mask_from mk off (take ?n d)) w = (q, w1)" by fastforce
    then obtain u where q: "q = Inr u"
      using less.prems False by (subst (asm) send_chunks.simps) (auto simp: Let_def split: sum.splits)
    have "send_chunks net t mk (off + ?n) (drop ?n d) w1 = (Inr (), w')"
      using less.prems False s q by (subst (asm) send_chunks.simps) (simp add: Let_def)
    moreover have "length (drop ?n d) < length d" using False by (simp add: kChunk_def)
    ultimately have "sent t w' = sent t w1 @ mask_from mk (off + ?n) (drop ?n d)"
      using less.hyps by blast
    also have "sent t w1 = sent t w @ mask_from mk off (take ?n d)" using send_Inr s q by blast
    also have "(sent t w @ mask_from mk off (take ?n d)) @ mask_from mk (off + ?n) (drop ?n d) =
        sent t w @ mask_from mk off (take ?n d @ drop ?n d)"
      using mask_from_append [of mk off "take ?n d" "drop ?n d"] by simp
    finally show ?thesis by simp
  qed
qed

lemma send_frame_keeps: "send_frame net t opcode fin d w = (r, w') \<Longrightarrow> keeps t w w'"
  using random_keeps' send_keeps send_chunks_keeps
  by (fastforce simp: send_frame_def Let_def split: prod.splits sum.splits intro: keeps_trans)

lemma send_frame_sent:
  assumes "send_frame net t opcode fin d w = (Inr (), w')"
  shows "\<exists>mk. length mk = 4 \<and> sent t w' = sent t w @ enc_frame (Some mk) (mk_frame opcode fin d)"
proof -
  let ?hdr = "first_byte opcode fin # len_bytes 0x80 (word_of_nat (length d))"
  obtain q w1 where r: "random_bytes net 4 w = (q, w1)" by fastforce
  then obtain mk where q: "q = Inr mk" using assms by (cases q) (simp_all add: send_frame_def Let_def)
  obtain q2 w2 where s: "tsend net t (?hdr @ mk) w1 = (q2, w2)" by fastforce
  then obtain u where q2: "q2 = Inr u"
    using assms r q by (cases q2) (simp_all add: send_frame_def Let_def)
  have c: "send_chunks net t mk 0 d w2 = (Inr (), w')"
    using assms r q s q2 by (simp add: send_frame_def Let_def)
  have "sent t w' = (sent t w @ ?hdr @ mk) @ mask_from mk 0 d"
    using send_chunks_sent [OF c] send_Inr s q2 random_keeps r by metis
  moreover have "length mk = 4" using random_length r q by blast
  ultimately show ?thesis by (auto simp: enc_frame_send)
qed

lemma send_frags_keeps: "send_frags net t opcode is_first d w = (r, w') \<Longrightarrow> keeps t w w'"
proof (induction "length d" arbitrary: d is_first w rule: less_induct)
  case less
  show ?case
  proof (cases "d = []")
    case True
    then show ?thesis using less.prems by (simp add: send_frags.simps)
  next
    case False
    let ?n = "min (length d) kFragSize"
    obtain q w1 where s: "send_frame net t (if is_first then opcode else 0) (?n = length d)
        (take ?n d) w = (q, w1)" by fastforce
    note k = send_frame_keeps [OF s]
    show ?thesis
    proof (cases q)
      case (Inl e)
      with less.prems False s k show ?thesis by (subst (asm) send_frags.simps) (simp add: Let_def)
    next
      case (Inr u)
      have "send_frags net t opcode False (drop ?n d) w1 = (r, w')"
        using less.prems False s Inr by (subst (asm) send_frags.simps) (simp add: Let_def)
      moreover have "length (drop ?n d) < length d" using False by (simp add: kFragSize_def)
      ultimately have "keeps t w1 w'" using less.hyps by blast
      with k show ?thesis by (rule keeps_trans)
    qed
  qed
qed

definition sent_frames :: "'t \<Rightarrow> frame list \<Rightarrow> 'w \<Rightarrow> 'w \<Rightarrow> bool" where
  "sent_frames t fs w w' \<longleftrightarrow>
     (\<exists>mks. length mks = length fs \<and> (\<forall>mk \<in> set mks. length mk = 4) \<and>
        sent t w' = sent t w @ wire_bytes (zip (map Some mks) fs))"

lemma sent_frames_Nil: "sent_frames t [] w w"
  by (simp add: sent_frames_def wire_bytes_def)

lemma sent_frames_Cons:
  assumes "length mk = 4" and "sent t w1 = sent t w @ enc_frame (Some mk) f"
    and "sent_frames t fs w1 w'"
  shows "sent_frames t (f # fs) w w'"
proof -
  from assms(3) obtain mks where m: "length mks = length fs" "\<forall>mk \<in> set mks. length mk = 4"
    "sent t w' = sent t w1 @ wire_bytes (zip (map Some mks) fs)" by (auto simp: sent_frames_def)
  have "sent t w' = sent t w @ wire_bytes (zip (map Some (mk # mks)) (f # fs))"
    using m(3) assms(2) by (simp add: wire_bytes_def)
  with m(1,2) assms(1) show ?thesis
    unfolding sent_frames_def by (intro exI [of _ "mk # mks"]) simp
qed

lemma send_frags_sent:
  "send_frags net t opcode is_first d w = (Inr (), w') \<Longrightarrow>
     sent_frames t (frag_frames opcode is_first d) w w'"
proof (induction "length d" arbitrary: d is_first w rule: less_induct)
  case less
  show ?case
  proof (cases "d = []")
    case True
    then show ?thesis
      using less.prems by (simp add: send_frags.simps frag_frames.simps sent_frames_Nil)
  next
    case False
    let ?n = "min (length d) kFragSize"
    let ?op = "if is_first then opcode else 0"
    obtain q w1 where s: "send_frame net t ?op (?n = length d) (take ?n d) w = (q, w1)" by fastforce
    then obtain u where q: "q = Inr u"
      using less.prems False by (subst (asm) send_frags.simps) (auto simp: Let_def split: sum.splits)
    have r: "send_frags net t opcode False (drop ?n d) w1 = (Inr (), w')"
      using less.prems False s q by (subst (asm) send_frags.simps) (simp add: Let_def)
    have "length (drop ?n d) < length d" using False by (simp add: kFragSize_def)
    from less.hyps [OF this r]
    have f: "sent_frames t (frag_frames opcode False (drop ?n d)) w1 w'" .
    have s': "send_frame net t ?op (?n = length d) (take ?n d) w = (Inr (), w1)" using s q by simp
    from send_frame_sent [OF this] obtain mk where mk: "length mk = 4"
      "sent t w1 = sent t w @ enc_frame (Some mk) (mk_frame ?op (?n = length d) (take ?n d))" by blast
    have n: "(?n = length d) = (length d \<le> kFragSize)" "take ?n d = take kFragSize d"
      "drop ?n d = drop kFragSize d" by (auto simp: min_def)
    have "frag_frames opcode is_first d =
        mk_frame ?op (?n = length d) (take ?n d) # frag_frames opcode False (drop ?n d)"
      unfolding n using False by (subst frag_frames.simps) simp
    then show ?thesis using sent_frames_Cons [OF mk f] by simp
  qed
qed

lemma ws_send_sent:
  assumes "ws_send net ty d ws w = (Inr (), w')"
  shows "sent_frames (ws_transport ws) (message_frames (if ty = Msg_Text then 1 else 2) d) w w'"
proof (cases "length d \<le> kFragSize")
  case True
  then have "send_frame net (ws_transport ws) (if ty = Msg_Text then 1 else 2) True d w = (Inr (), w')"
    using assms by (simp add: ws_send_def Let_def split: if_splits)
  from send_frame_sent [OF this] obtain mk where "length mk = 4"
    "sent (ws_transport ws) w' = sent (ws_transport ws) w @
      enc_frame (Some mk) (mk_frame (if ty = Msg_Text then 1 else 2) True d)" by blast
  from sent_frames_Cons [OF this sent_frames_Nil] True show ?thesis by (simp add: message_frames_def)
next
  case False
  then have "send_frags net (ws_transport ws) (if ty = Msg_Text then 1 else 2) True d w = (Inr (), w')"
    using assms by (simp add: ws_send_def Let_def split: if_splits)
  from send_frags_sent [OF this] False show ?thesis by (simp add: message_frames_def)
qed

lemma ws_send_keeps: "ws_send net ty d ws w = (r, w') \<Longrightarrow> keeps (ws_transport ws) w w'"
  by (auto simp: ws_send_def Let_def split: if_splits dest: send_frame_keeps send_frags_keeps)

lemma read_more_Inr:
  assumes "read_more net ms ws w = (Inr n, ws', w')"
  shows "\<exists>bs. bs \<noteq> [] \<and> pending (ws_transport ws) w = bs @ pending (ws_transport ws) w' \<and>
    ws' = ws\<lparr>ws_in := ws_in ws @ bs\<rparr> \<and>
    tvalid net (ws_transport ws) w' = tvalid net (ws_transport ws) w"
proof -
  obtain q w1 where t: "trecv net (ws_transport ws) kChunk ms w = (q, w1)" by fastforce
  with assms obtain bs where q: "q = Inr bs" by (cases q) (auto simp: read_more_def)
  with t assms have "bs \<noteq> []" "ws' = ws\<lparr>ws_in := ws_in ws @ bs\<rparr>" "w1 = w'"
    by (auto simp: read_more_def split: if_splits)
  with recv_Inr t q recv_valid show ?thesis by blast
qed

lemma read_more_ready:
  assumes "tvalid net (ws_transport ws) w" and "pending (ws_transport ws) w \<noteq> []"
  shows "\<exists>n ws' w'. read_more net ms ws w = (Inr n, ws', w')"
proof -
  have "0 < kChunk" by (simp add: kChunk_def)
  with recv_ready assms obtain b bs w' where
    "trecv net (ws_transport ws) kChunk ms w = (Inr (b # bs), w')" by metis
  then show ?thesis by (simp add: read_more_def)
qed

text \<open>Receiving: a frame is taken off the front of the bytes read and still to be read.\<close>

definition stream :: "'t ws \<Rightarrow> 'w \<Rightarrow> bytes" where
  "stream ws w = ws_in ws @ pending (ws_transport ws) w"

definition backlog :: "'t ws \<Rightarrow> 'w \<Rightarrow> nat" where
  "backlog ws w = 2 * length (pending (ws_transport ws) w) + length (ws_in ws)"

lemma handle_frame_keeps:
  assumes "handle_frame net f (a, ws, w) = Inl (a', ws', w')"
  shows "frame_effect a f = Inl a'" "ws' = ws" "keeps (ws_transport ws) w w'"
proof -
  show "frame_effect a f = Inl a'" "ws' = ws"
    using assms by (auto simp: handle_frame_effect Let_def split: sum.splits)
  show "keeps (ws_transport ws) w w'"
    using assms by (cases "send_frame net (ws_transport ws) 0xA True (f_payload f) w")
      (auto simp: handle_frame_effect Let_def frame_effect_def split: sum.splits if_splits
        dest: send_frame_keeps)
qed

lemma handle_frame_done:
  assumes "frame_effect a f = Inr r"
  shows "\<exists>ws' w'. handle_frame net f (a, ws, w) = Inr (r, ws', w') \<and> ws_in ws' = ws_in ws \<and>
    ws_transport ws' = ws_transport ws \<and> keeps (ws_transport ws) w w'"
proof -
  obtain q1 w1 where 1: "send_frame net (ws_transport ws) 0x8 True (take 2 (f_payload f)) w = (q1, w1)"
    by fastforce
  obtain q2 w2 where 2: "send_frame net (ws_transport ws) 0xA True (f_payload f) w = (q2, w2)"
    by fastforce
  show ?thesis
    using assms send_frame_keeps [OF 1] send_frame_keeps [OF 2] 1 2
    by (simp add: handle_frame_effect Let_def)
qed

lemma recv_step_read:
  assumes "parse_frame (ws_in ws) = Inr (None, ws_in ws)" and "ms < 0"
    and "tvalid net (ws_transport ws) w" and "pending (ws_transport ws) w \<noteq> []"
  shows "\<exists>ws' w'. recv_step net ms dl (a, ws, w) = Inl (a, ws', w') \<and> stream ws' w' = stream ws w \<and>
    backlog ws' w' < backlog ws w \<and> ws_transport ws' = ws_transport ws \<and>
    tvalid net (ws_transport ws) w'"
proof -
  let ?t = "ws_transport ws"
  obtain now w1 where c: "monotonic_ms net w = (now, w1)" by fastforce
  have k: "pending ?t w1 = pending ?t w" "tvalid net ?t w1 = tvalid net ?t w"
    using clock_keeps [OF c] by auto
  with assms read_more_ready obtain n ws' w' where
    r: "read_more net 60000 ws w1 = (Inr n, ws', w')" by metis
  from read_more_Inr [OF r] obtain bs where bs: "bs \<noteq> []"
    "pending ?t w1 = bs @ pending ?t w'" "ws' = ws\<lparr>ws_in := ws_in ws @ bs\<rparr>"
    "tvalid net ?t w' = tvalid net ?t w1" by blast
  have "recv_step net ms dl (a, ws, w) = Inl (a, ws', w')"
    using assms(1,2) c r by (simp add: recv_step_def Let_def)
  moreover have "stream ws' w' = stream ws w" using bs k by (simp add: stream_def)
  moreover have "backlog ws' w' < backlog ws w"
  proof -
    have "length (pending ?t w) = length bs + length (pending ?t w')" using bs(2) k(1) by simp
    then show ?thesis using bs(1,3) by (simp add: backlog_def)
  qed
  ultimately show ?thesis using bs k assms(3) by auto
qed

lemma recv_loop_deliver:
  assumes "deliver a (map snd mfs) = Some (r, rest)" and "wire_ok mfs"
    and "stream ws w = wire_bytes mfs @ tail" and "tvalid net (ws_transport ws) w" and "ms < 0"
  shows "\<exists>ws' w' used mfs'. recv_loop net ms dl (a, ws, w) = Some (r, ws', w') \<and>
    mfs = used @ mfs' \<and> map snd mfs' = rest \<and> stream ws' w' = wire_bytes mfs' @ tail \<and>
    ws_transport ws' = ws_transport ws \<and> tvalid net (ws_transport ws) w'"
  using assms
proof (induction "backlog ws w" arbitrary: a ws w mfs rule: less_induct)
  case less
  let ?t = "ws_transport ws"
  obtain mko f mfs1 where m: "mfs = (mko, f) # mfs1"
    using less.prems(1) by (cases mfs) auto
  have ok: "frame_ok f" "mask_ok mko" "wire_ok mfs1"
    using less.prems(2) by (auto simp: m wire_ok_def)
  have st: "ws_in ws @ pending ?t w = enc_frame mko f @ (wire_bytes mfs1 @ tail)"
    using less.prems(3) by (simp add: m wire_bytes_def stream_def)
  show ?case
  proof (cases "prefix (enc_frame mko f) (ws_in ws)")
    case True
    then obtain rest1 where r1: "ws_in ws = enc_frame mko f @ rest1" by (auto elim: prefixE)
    let ?ws = "ws\<lparr>ws_in := rest1\<rparr>"
    have pf: "parse_frame (ws_in ws) = Inr (Some f, rest1)"
      unfolding r1 by (rule parse_frame_enc [OF ok(1,2)])
    have step: "recv_step net ms dl (a, ws, w) = handle_frame net f (a, ?ws, w)"
      by (simp add: recv_step_def pf)
    have stream1: "stream ?ws w = wire_bytes mfs1 @ tail" using st r1 by (simp add: stream_def)
    show ?thesis
    proof (cases "frame_effect a f")
      case (Inr r')
      from handle_frame_done [OF this, of ?ws w] obtain ws' w' where
        h: "handle_frame net f (a, ?ws, w) = Inr (r', ws', w')" "ws_in ws' = rest1"
          "ws_transport ws' = ?t" "keeps ?t w w'" by auto
      have "r' = r" "map snd mfs1 = rest" using less.prems(1) Inr by (simp_all add: m)
      moreover have "stream ws' w' = wire_bytes mfs1 @ tail"
        using stream1 h by (simp add: stream_def keeps_def)
      moreover have "recv_loop net ms dl (a, ws, w) = Some (r', ws', w')"
        using h(1) step by (subst recv_loop.simps) simp
      moreover have "mfs = [(mko, f)] @ mfs1" by (simp add: m)
      moreover have "tvalid net ?t w'" using h(4) less.prems(4) by (simp add: keeps_def)
      ultimately show ?thesis using h(3) by blast
    next
      case (Inl a')
      have d: "deliver a' (map snd mfs1) = Some (r, rest)" using less.prems(1) Inl by (simp add: m)
      obtain a'' ws' w' where h: "handle_frame net f (a, ?ws, w) = Inl (a'', ws', w')"
        using Inl by (auto simp: handle_frame_effect Let_def)
      note hk = handle_frame_keeps [OF h]
      have a: "a'' = a'" using hk(1) Inl by simp
      have s': "stream ws' w' = wire_bytes mfs1 @ tail"
        using stream1 hk(2,3) by (simp add: stream_def keeps_def)
      have "backlog ws' w' < backlog ws w"
        using hk(2,3) r1 by (simp add: backlog_def keeps_def)
      from less.hyps [OF this d ok(3) s'] hk(2,3) less.prems(4,5) obtain ws'' w'' used mfs' where
        "recv_loop net ms dl (a', ws', w') = Some (r, ws'', w'')" "mfs1 = used @ mfs'"
        "map snd mfs' = rest" "stream ws'' w'' = wire_bytes mfs' @ tail"
        "ws_transport ws'' = ?t" "tvalid net ?t w''"
        by (auto simp: keeps_def)
      moreover have "recv_loop net ms dl (a, ws, w) = recv_loop net ms dl (a', ws', w')"
        using step h a by (subst recv_loop.simps) simp
      moreover have "mfs = ((mko, f) # used) @ mfs'" using \<open>mfs1 = used @ mfs'\<close> m by simp
      ultimately show ?thesis by metis
    qed
  next
    case False
    have cut: "strict_prefix (ws_in ws) (enc_frame mko f)"
      using st False prefix_same_cases [of "ws_in ws" "enc_frame mko f @ wire_bytes mfs1 @ tail" "enc_frame mko f"]
      by (metis prefixI strict_prefixI)
    have pf: "parse_frame (ws_in ws) = Inr (None, ws_in ws)"
      by (rule parse_frame_cut [OF ok(1,2) cut])
    have "pending ?t w \<noteq> []"
      using st prefix_length_less [OF cut] by (metis append_Nil2 length_append not_add_less1)
    from recv_step_read [OF pf less.prems(5,4) this, of dl a] obtain ws' w' where
      s: "recv_step net ms dl (a, ws, w) = Inl (a, ws', w')" "stream ws' w' = stream ws w"
        "backlog ws' w' < backlog ws w" "ws_transport ws' = ?t" "tvalid net ?t w'" by blast
    from less.hyps [OF s(3) less.prems(1,2)] s less.prems(3,5)
    obtain ws'' w'' used mfs' where
      "recv_loop net ms dl (a, ws', w') = Some (r, ws'', w'')" "mfs = used @ mfs'"
      "map snd mfs' = rest" "stream ws'' w'' = wire_bytes mfs' @ tail"
      "ws_transport ws'' = ?t" "tvalid net ?t w''" by auto
    then show ?thesis using s(1) by (subst recv_loop.simps) auto
  qed
qed

lemma ws_recv_deliver:
  assumes "deliver no_assembly (map snd mfs) = Some (r, rest)" and "wire_ok mfs"
    and "stream ws w = wire_bytes mfs @ tail" and "tvalid net (ws_transport ws) w"
    and "\<not> ws_closed ws" and "ms < 0"
  shows "\<exists>ws' w' used mfs'. ws_recv net ms ws w = Some (r, ws', w') \<and>
    mfs = used @ mfs' \<and> map snd mfs' = rest \<and> stream ws' w' = wire_bytes mfs' @ tail \<and>
    ws_transport ws' = ws_transport ws \<and> tvalid net (ws_transport ws) w'"
proof -
  obtain now w1 where c: "monotonic_ms net w = (now, w1)" by fastforce
  have "stream ws w1 = wire_bytes mfs @ tail" "tvalid net (ws_transport ws) w1"
    using clock_keeps [OF c] assms(3,4) by (auto simp: stream_def)
  from recv_loop_deliver [OF assms(1,2) this assms(6)] c assms(5) show ?thesis
    by (simp add: ws_recv_def Let_def)
qed

text \<open>With a time limit every wait ends: the peer's bytes run out or something is returned.\<close>

lemma recv_step_progress:
  assumes "recv_step net ms dl (a, ws, w) = Inl (a', ws', w')" and "0 \<le> ms"
  shows "backlog ws' w' < backlog ws w"
proof (cases "parse_frame (ws_in ws)")
  case (Inl e)
  then show ?thesis using assms(1) by (simp add: recv_step_def)
next
  case (Inr p)
  obtain fo rest where p: "p = (fo, rest)" by fastforce
  show ?thesis
  proof (cases fo)
    case (Some f)
    have h: "handle_frame net f (a, ws\<lparr>ws_in := rest\<rparr>, w) = Inl (a', ws', w')"
      using assms(1) Inr p Some by (simp add: recv_step_def)
    from handle_frame_keeps [OF h] parse_frame_shrinks [of "ws_in ws" f rest] Inr p Some
    show ?thesis by (simp add: backlog_def keeps_def)
  next
    case None
    obtain now w1 where c: "monotonic_ms net w = (now, w1)" by fastforce
    have k: "pending (ws_transport ws) w1 = pending (ws_transport ws) w"
      using clock_keeps [OF c] by auto
    obtain n where r: "read_more net (to_int32 (dl - now)) ws w1 = (Inr n, ws', w')"
      using assms Inr p None c
      by (auto simp: recv_step_def Let_def split: if_splits prod.splits sum.splits)
    from read_more_Inr [OF r] obtain bs where bs: "bs \<noteq> []"
      "pending (ws_transport ws) w1 = bs @ pending (ws_transport ws) w'"
      "ws' = ws\<lparr>ws_in := ws_in ws @ bs\<rparr>" by blast
    have "length (pending (ws_transport ws) w) =
        length bs + length (pending (ws_transport ws) w')" using bs(2) k by simp
    then show ?thesis using bs(1,3) by (simp add: backlog_def)
  qed
qed

lemma recv_loop_returns: "0 \<le> ms \<Longrightarrow> recv_loop net ms dl (a, ws, w) \<noteq> None"
proof (induction "backlog ws w" arbitrary: a ws w rule: less_induct)
  case less
  show ?case
  proof (cases "recv_step net ms dl (a, ws, w)")
    case (Inl st)
    obtain a' ws' w' where st: "st = (a', ws', w')" by (cases st) auto
    have "recv_loop net ms dl (a', ws', w') \<noteq> None"
      using less recv_step_progress Inl st by blast
    then show ?thesis using Inl st by (subst recv_loop.simps) simp
  qed (subst recv_loop.simps, simp)
qed

lemma ws_recv_returns: "0 \<le> ms \<Longrightarrow> ws_recv net ms ws w \<noteq> None"
  using recv_loop_returns
  by (cases "monotonic_ms net w") (simp add: ws_recv_def Let_def del: not_None_eq)

lemma header_loop_returns: "header_loop net dl (ws, w) \<noteq> None"
proof (induction "backlog ws w" arbitrary: ws w rule: less_induct)
  case less
  show ?case
  proof (cases "header_step net dl (ws, w)")
    case (Inl st)
    obtain ws' w' where st: "st = (ws', w')" by (cases st) auto
    obtain now w1 where c: "monotonic_ms net w = (now, w1)" by fastforce
    have k: "pending (ws_transport ws) w1 = pending (ws_transport ws) w"
      using clock_keeps [OF c] by auto
    obtain n where r: "read_more net (to_int32 (dl - now)) ws w1 = (Inr n, ws', w')"
      using Inl st c
      by (auto simp: header_step_def Let_def split: if_splits prod.splits sum.splits option.splits)
    from read_more_Inr [OF r] obtain bs where bs: "bs \<noteq> []"
      "pending (ws_transport ws) w1 = bs @ pending (ws_transport ws) w'"
      "ws' = ws\<lparr>ws_in := ws_in ws @ bs\<rparr>" by blast
    have "length (pending (ws_transport ws) w) =
        length bs + length (pending (ws_transport ws) w')" using bs(2) k by simp
    then have "backlog ws' w' < backlog ws w" using bs(1,3) by (simp add: backlog_def)
    from less [OF this] show ?thesis using Inl st by (subst header_loop.simps) simp
  qed (subst header_loop.simps, simp)
qed

lemma ws_upgrade_returns: "ws_upgrade net t host pq hdrs ms w \<noteq> None"
proof -
  have "header_loop net dl (ws, w) = None \<Longrightarrow> False" for dl ws w
    using header_loop_returns by blast
  then show ?thesis
    by (auto simp: ws_upgrade_def Let_def split: prod.splits sum.splits option.splits)
qed

text \<open>What one side sends, the other receives.\<close>

lemma sent_frames_append:
  assumes "sent_frames t fs w w1" and "sent_frames t gs w1 w2"
  shows "sent_frames t (fs @ gs) w w2"
proof -
  obtain ms ns where "length ms = length fs" "\<forall>mk \<in> set ms. length mk = 4"
    "sent t w1 = sent t w @ wire_bytes (zip (map Some ms) fs)"
    and "length ns = length gs" "\<forall>mk \<in> set ns. length mk = 4"
    "sent t w2 = sent t w1 @ wire_bytes (zip (map Some ns) gs)"
    using assms by (auto simp: sent_frames_def)
  then show ?thesis
    unfolding sent_frames_def by (intro exI [of _ "ms @ ns"]) (auto simp: wire_bytes_def)
qed

text \<open>Reading the first of the messages a peer has sent leaves the frames of the others.\<close>

lemma recv_first:
  assumes "sent_frames t (message_frames (if ty = Msg_Text then 1 else 2) d @ fs) w w'"
    and "sent t w = []" and "ty \<noteq> Msg_Close" and "\<forall>f \<in> set fs. frame_ok f"
    and "ws_in ws = []" and "\<not> ws_closed ws" and "tvalid net (ws_transport ws) v"
    and "pending (ws_transport ws) v = sent t w'" and "ms < 0"
  shows "\<exists>ws' v' mfs. ws_recv net ms ws v = Some (Inr (mk_message ty d), ws', v') \<and>
    wire_ok mfs \<and> map snd mfs = fs \<and> stream ws' v' = wire_bytes mfs \<and> \<not> ws_closed ws' \<and>
    tvalid net (ws_transport ws') v'"
proof -
  let ?op = "if ty = Msg_Text then 1 else 2 :: u8"
  let ?fs = "message_frames ?op d @ fs"
  obtain mks where m: "length mks = length ?fs" "\<forall>mk \<in> set mks. length mk = 4"
    "sent t w' = wire_bytes (zip (map Some mks) ?fs)"
    using assms(1,2) by (auto simp: sent_frames_def)
  let ?mfs = "zip (map Some mks) ?fs"
  have fs: "map snd ?mfs = ?fs" using m(1) by simp
  have op: "?op = 1 \<or> ?op = 2" by simp
  have ty: "data_type ?op = ty" using assms(3) by (cases ty) (simp_all add: data_type_def)
  have d: "deliver no_assembly (map snd ?mfs) = Some (Inr (mk_message ty d), fs)"
    using deliver_message [OF op, of d fs] unfolding fs ty by simp
  have ok: "wire_ok ?mfs"
    unfolding wire_ok_def
  proof safe
    fix mko f assume "(mko, f) \<in> set ?mfs"
    then have "mko \<in> set (map Some mks)" "f \<in> set ?fs" by (auto elim: in_set_zipE)
    then show "mask_ok mko" "frame_ok f"
      using m(2) message_frames_ok [OF op] assms(4) by (auto simp: mask_ok_def)
  qed
  have s: "stream ws v = wire_bytes ?mfs @ []" using assms(5,8) m(3) by (simp add: stream_def)
  from ws_recv_deliver [OF d ok s assms(7,6,9)] obtain ws' v' used mfs where
    r: "ws_recv net ms ws v = Some (Inr (mk_message ty d), ws', v')" "?mfs = used @ mfs"
    "map snd mfs = fs" "stream ws' v' = wire_bytes mfs @ []" "ws_transport ws' = ws_transport ws"
    "tvalid net (ws_transport ws) v'" by blast
  have "wire_ok mfs" using ok r(2) by (simp add: wire_ok_def)
  then show ?thesis
    using r ws_recv_open [OF r(1)] assms(3) by (auto simp: mk_message_def)
qed

lemma recv_last:
  assumes "wire_ok mfs" and "map snd mfs = message_frames (if ty = Msg_Text then 1 else 2) d"
    and "ty \<noteq> Msg_Close" and "stream ws v = wire_bytes mfs"
    and "\<not> ws_closed ws" and "tvalid net (ws_transport ws) v" and "ms < 0"
  shows "\<exists>ws' v'. ws_recv net ms ws v = Some (Inr (mk_message ty d), ws', v') \<and> stream ws' v' = []"
proof -
  let ?op = "if ty = Msg_Text then 1 else 2 :: u8"
  have op: "?op = 1 \<or> ?op = 2" by simp
  have ty: "data_type ?op = ty" using assms(3) by (cases ty) (simp_all add: data_type_def)
  have d: "deliver no_assembly (map snd mfs) = Some (Inr (mk_message ty d), [])"
    using deliver_message [OF op, of d "[]"] unfolding assms(2) ty by simp
  have s: "stream ws v = wire_bytes mfs @ []" using assms(4) by simp
  from ws_recv_deliver [OF d assms(1) s assms(6,5,7)] show ?thesis
    by (auto simp: wire_bytes_def)
qed

lemma send_recv:
  assumes "ws_send net ty d wsA wA = (Inr (), wA')" and "sent (ws_transport wsA) wA = []"
    and "ty \<noteq> Msg_Close"
    and "ws_in wsB = []" and "\<not> ws_closed wsB" and "tvalid net (ws_transport wsB) wB"
    and "pending (ws_transport wsB) wB = sent (ws_transport wsA) wA'" and "ms < 0"
  shows "\<exists>wsB' wB'. ws_recv net ms wsB wB = Some (Inr (mk_message ty d), wsB', wB') \<and>
    stream wsB' wB' = []"
proof -
  have "sent_frames (ws_transport wsA)
      (message_frames (if ty = Msg_Text then 1 else 2) d @ []) wA wA'"
    using ws_send_sent [OF assms(1)] by simp
  from recv_first [OF this assms(2,3) _ assms(4-8)] show ?thesis by (auto simp: wire_bytes_def)
qed

end

subsection \<open>Sending over an open wire succeeds\<close>

lemma open_send_chunks:
  "open_wire t s \<Longrightarrow> \<exists>s'. send_chunks scripted_net t mk off d s = (Inr (), s') \<and> open_wire t s'"
proof (induction "length d" arbitrary: off d s rule: less_induct)
  case less
  let ?n = "min (length d) kChunk"
  show ?case
  proof (cases "d = []")
    case False
    obtain s1 where s1: "tsend scripted_net t (mask_from mk off (take ?n d)) s = (Inr (), s1)"
      "open_wire t s1" using open_wire_send [OF less.prems] by blast
    have "length (drop ?n d) < length d" using False by (simp add: kChunk_def)
    from less.hyps [OF this s1(2), of "off + ?n"] show ?thesis
      using False s1(1) by (subst send_chunks.simps) (simp add: Let_def)
  qed (use less.prems in \<open>subst send_chunks.simps, simp\<close>)
qed

lemma open_send_frame:
  assumes "open_wire t s"
  shows "\<exists>s'. send_frame scripted_net t opcode fin d s = (Inr (), s') \<and> open_wire t s'"
proof -
  obtain mk s1 where 1: "random_bytes scripted_net 4 s = (Inr mk, s1)" "open_wire t s1"
    using open_wire_random [OF assms] by blast
  let ?hdr = "first_byte opcode fin # len_bytes 0x80 (word_of_nat (length d))"
  obtain s2 where 2: "tsend scripted_net t (?hdr @ mk) s1 = (Inr (), s2)" "open_wire t s2"
    using open_wire_send [OF 1(2)] by blast
  from open_send_chunks [OF 2(2), of mk 0 d] 1(1) 2(1) show ?thesis
    by (auto simp: send_frame_def Let_def)
qed

lemma open_send_frags:
  "open_wire t s \<Longrightarrow>
     \<exists>s'. send_frags scripted_net t opcode is_first d s = (Inr (), s') \<and> open_wire t s'"
proof (induction "length d" arbitrary: is_first d s rule: less_induct)
  case less
  let ?n = "min (length d) kFragSize"
  show ?case
  proof (cases "d = []")
    case False
    obtain s1 where s1: "send_frame scripted_net t (if is_first then opcode else 0) (?n = length d)
        (take ?n d) s = (Inr (), s1)" "open_wire t s1"
      using open_send_frame [OF less.prems] by blast
    have "length (drop ?n d) < length d" using False by (simp add: kFragSize_def)
    from less.hyps [OF this s1(2), of False] show ?thesis
      using False s1(1) by (subst send_frags.simps) (simp add: Let_def)
  qed (use less.prems in \<open>subst send_frags.simps, simp\<close>)
qed

lemma open_ws_send:
  assumes "open_wire (ws_transport ws) s" and "\<not> ws_closed ws"
  shows "\<exists>s'. ws_send scripted_net ty d ws s = (Inr (), s') \<and> open_wire (ws_transport ws) s'"
  using assms open_send_frame open_send_frags by (simp add: ws_send_def Let_def) blast

subsection \<open>A time-out in the middle of a fragmented message\<close>

text \<open>
  The fragments received so far are locals of \<^verbatim>\<open>recv\<close>: when it times out they are gone, and
  the continuation that arrives later is refused as a protocol error.
\<close>

lemma recv_timeout_drops:
  fixes s :: "'a scripted_scheme"
  assumes "ws_in ws = enc_frame None (mk_frame 1 False d)" and "length d \<le> unat kMaxMsg"
    and "\<not> ws_closed ws" and "0 \<le> ms"
    and "wire_of (ws_transport ws) s = Some x" and "drop (read_pos x) (w_in x) = []"
    and "\<not> w_closed x" and "\<not> w_eof x"
  shows "\<exists>s'. ws_recv scripted_net ms ws s = Some (Err Timeout, ws\<lparr>ws_in := []\<rparr>, s')"
proof -
  let ?f = "mk_frame 1 False d"
  let ?ws = "ws\<lparr>ws_in := []\<rparr>"
  let ?a = "\<lparr>a_msg = d, a_opcode = 1, a_fragmented = True\<rparr>"
  have ok: "frame_ok ?f" using assms(2) by (simp add: frame_ok_def mk_frame_def)
  have 1: "recv_step scripted_net ms dl (no_assembly, ws, s1) = Inl (?a, ?ws, s1)" for dl and s1 :: "'a scripted_scheme"
    using parse_frame_enc [OF ok, of None "[]"] assms(1)
    by (simp add: recv_step_def mask_ok_def handle_frame_def mk_frame_def no_assembly_def)
  have keep: "wire_of (ws_transport ws) (s1\<lparr>clock := c\<rparr>) = wire_of (ws_transport ws) s1" for s1 :: "'a scripted_scheme" and c
    by simp
  have 2: "\<exists>s2. recv_step scripted_net ms dl (?a, ?ws, s1) = Inr (Err Timeout, ?ws, s2)"
    if "wire_of (ws_transport ws) s1 = Some x" for dl and s1 :: "'a scripted_scheme"
  proof -
    have "wire_recv kChunk x = (Err Timeout, x)" using assms(6-8) by (simp add: wire_recv_def)
    then have "read_more scripted_net m ?ws (s1\<lparr>clock := c\<rparr>) =
        (Err Timeout, ?ws, put_wire (the (ws_transport ws)) x (s1\<lparr>clock := c\<rparr>))" for m c
      using that by (simp add: read_more_def scripted_net_def scripted_recv_def)
    moreover have "parse_frame [] = Inr (None, [])" by (simp add: parse_frame_def)
    ultimately show ?thesis
      using assms(4) by (simp add: recv_step_def scripted_net_def scripted_clock_def Let_def)
  qed
  have "\<exists>s'. recv_loop scripted_net ms dl (no_assembly, ws, s1) = Some (Err Timeout, ?ws, s')"
    if "wire_of (ws_transport ws) s1 = Some x" for dl and s1 :: "'a scripted_scheme"
    using 1 [of dl s1] 2 [OF that, of dl] by (auto simp: recv_loop.simps)
  then show ?thesis
    using assms(3,5) by (simp add: ws_recv_def scripted_net_def scripted_clock_def Let_def)
qed

lemma recv_orphan_continuation:
  assumes "ws_in ws = enc_frame None (mk_frame 0 fin d)" and "length d \<le> unat kMaxMsg"
    and "\<not> ws_closed ws"
  shows "\<exists>s'. ws_recv net ms ws s = Some (Err Protocol, ws\<lparr>ws_in := []\<rparr>, s')"
proof -
  let ?f = "mk_frame 0 fin d"
  have ok: "frame_ok ?f" using assms(2) by (simp add: frame_ok_def mk_frame_def)
  have "recv_step net ms dl (no_assembly, ws, s1) = Inr (Err Protocol, ws\<lparr>ws_in := []\<rparr>, s1)" for dl s1
    using parse_frame_enc [OF ok, of None "[]"] assms(1)
    by (simp add: recv_step_def mask_ok_def handle_frame_def mk_frame_def no_assembly_def)
  then show ?thesis
    using assms(3) by (cases "monotonic_ms net s") (simp add: ws_recv_def recv_loop.simps Let_def)
qed

subsection \<open>Properties\<close>


definition demo_ws :: "nat option ws" where
  "demo_ws = \<lparr>ws_transport = Some 0, ws_in = [], ws_closed = False\<rparr>"

definition demo_net :: "bytes \<Rightarrow> scripted" where
  "demo_net inp = \<lparr>wires = [(0, push_incoming inp new_wire)], clock = 0, tick = 1, rng_seed = 7, rng_ok = True\<rparr>"


lemma demo_net_facts:
  "wire_of (Some 0) (demo_net b) = Some (push_incoming b new_wire)"
  "wire_pending (Some 0) (demo_net b) = b" "scripted_valid (Some 0) (demo_net b)"
  "wire_sent (Some 0) (demo_net b) = []"
  by (simp_all add: demo_net_def wire_of_def wire_pending_def wire_sent_def scripted_valid_def
      push_incoming_def new_wire_def)


text \<open>
  C2: receiving refines the delivery of whole frames: if the bytes read and still to be read
  are a sequence of frames, masked or not, and delivering the frames one after the other
  yields a message, \<^verbatim>\<open>recv\<close> returns that message and has consumed exactly the frames it took,
  pings and pongs in between included.
\<close>

theorem ws_recv_refines:
  assumes "deliver no_assembly (map snd mfs) = Some (r, rest)" and "wire_ok mfs"
    and "ws_in ws @ wire_pending (ws_transport ws) s = wire_bytes mfs @ tail"
    and "scripted_valid (ws_transport ws) s" and "\<not> ws_closed ws" and "ms < 0"
  shows "\<exists>ws' s' used mfs'. ws_recv scripted_net ms ws s = Some (r, ws', s') \<and>
    mfs = used @ mfs' \<and> map snd mfs' = rest \<and>
    ws_in ws' @ wire_pending (ws_transport ws') s' = wire_bytes mfs' @ tail"
proof -
  have "scripted.stream ws s = wire_bytes mfs @ tail" "tvalid scripted_net (ws_transport ws) s"
    using assms(3,4) by (simp_all add: scripted.stream_def scripted_net_def)
  from scripted.ws_recv_deliver [OF assms(1,2) this assms(5,6)] show ?thesis
    by (auto simp: scripted.stream_def)
qed

definition demo_frames :: "(bytes option \<times> frame) list" where
  "demo_frames = [(None, mk_frame 2 False [1]), (Some [9, 8, 7, 6], mk_frame 9 True [5]),
     (None, mk_frame 0 True [2, 3]), (None, mk_frame 8 True [])]"

lemma ws_recv_refines_witness:
  "\<exists>ws' s' used mfs'. ws_recv scripted_net (-1) demo_ws (demo_net (wire_bytes demo_frames)) =
     Some (Inr (mk_message Msg_Binary [1, 2, 3]), ws', s') \<and>
     demo_frames = used @ mfs' \<and> map snd mfs' = [mk_frame 8 True []] \<and>
     ws_in ws' @ wire_pending (ws_transport ws') s' = wire_bytes mfs' @ []"
proof -
  have d: "deliver no_assembly (map snd demo_frames) =
      Some (Inr (mk_message Msg_Binary [1, 2, 3]), [mk_frame 8 True []])"
    by (simp add: demo_frames_def mk_frame_def frame_effect_def no_assembly_def data_type_def)
  have ok: "wire_ok demo_frames"
    by (simp add: demo_frames_def wire_ok_def mask_ok_def frame_ok_def mk_frame_def kMaxMsg_def)
  have t: "ws_transport demo_ws = Some 0" "ws_in demo_ws = []" "\<not> ws_closed demo_ws"
    by (simp_all add: demo_ws_def)
  show ?thesis
    by (rule ws_recv_refines [OF d ok]) (simp_all add: t demo_net_facts)
qed



text \<open>
  A frame survives the codec: its encoding, masked or not, followed by anything, parses to
  the frame and leaves what follows; every shorter piece of it is reported as incomplete and
  nothing is consumed.
\<close>

theorem ws_frame_codec:
  assumes "frame_ok f" and "mask_ok mko"
  shows "parse_frame (enc_frame mko f @ x) = Inr (Some f, x) \<and>
    (\<forall>p. strict_prefix p (enc_frame mko f) \<longrightarrow> parse_frame p = Inr (None, p))"
  using parse_frame_enc [OF assms] parse_frame_cut [OF assms] by blast

lemma ws_frame_codec_witness:
  "parse_frame (enc_frame (Some [1, 2, 3, 4]) (mk_frame 1 True [104, 105]) @ [7]) =
     Inr (Some (mk_frame 1 True [104, 105]), [7])"
proof -
  have "frame_ok (mk_frame 1 True [104, 105])" "mask_ok (Some [1, 2, 3, 4])"
    by (simp_all add: frame_ok_def mask_ok_def mk_frame_def kMaxMsg_def)
  from ws_frame_codec [OF this] show ?thesis by blast
qed

text \<open>
  C24: a time-out in the middle of a fragmented message loses what was received of it: the
  fragments are locals of \<^verbatim>\<open>recv\<close>, it reports a time-out with an empty buffer, and the
  continuation that arrives later is refused as a protocol error.
\<close>

theorem ws_timeout_loses_fragment:
  assumes "ws_in ws = enc_frame None (mk_frame 1 False d)" and "length d \<le> unat kMaxMsg"
    and "\<not> ws_closed ws" and "0 \<le> ms"
    and "wire_of (ws_transport ws) s = Some x" and "drop (read_pos x) (w_in x) = []"
    and "\<not> w_closed x" and "\<not> w_eof x" and "length d2 \<le> unat kMaxMsg"
  shows "\<exists>s'. ws_recv scripted_net ms ws s = Some (Err Timeout, ws\<lparr>ws_in := []\<rparr>, s') \<and>
    (\<exists>s''. ws_recv scripted_net ms (ws\<lparr>ws_in := enc_frame None (mk_frame 0 True d2)\<rparr>) s' =
       Some (Err Protocol, ws\<lparr>ws_in := []\<rparr>, s''))"
proof -
  obtain s' where s': "ws_recv scripted_net ms ws s = Some (Err Timeout, ws\<lparr>ws_in := []\<rparr>, s')"
    using recv_timeout_drops [OF assms(1-8)] by blast
  let ?ws = "ws\<lparr>ws_in := enc_frame None (mk_frame 0 True d2)\<rparr>"
  have "\<not> ws_closed ?ws" using assms(3) by simp
  from recv_orphan_continuation [of ?ws True d2, OF _ assms(9) this] s' show ?thesis by auto
qed

lemma ws_timeout_loses_fragment_witness:
  "\<exists>s'. ws_recv scripted_net 1000 (demo_ws\<lparr>ws_in := enc_frame None (mk_frame 1 False [104])\<rparr>) (demo_net []) =
      Some (Err Timeout, demo_ws\<lparr>ws_in := []\<rparr>, s')"
proof -
  let ?ws = "demo_ws\<lparr>ws_in := enc_frame None (mk_frame 1 False [104])\<rparr>"
  have a: "ws_in ?ws = enc_frame None (mk_frame 1 False [104])" "length [104 :: u8] \<le> unat kMaxMsg"
    "\<not> ws_closed ?ws" "(0 :: int) \<le> 1000"
    by (simp_all add: demo_ws_def kMaxMsg_def)
  have b: "wire_of (ws_transport ?ws) (demo_net []) = Some (push_incoming [] new_wire)"
    "drop (read_pos (push_incoming [] new_wire)) (w_in (push_incoming [] new_wire)) = []"
    "\<not> w_closed (push_incoming [] new_wire)" "\<not> w_eof (push_incoming [] new_wire)"
    by (simp_all add: demo_ws_def demo_net_facts new_wire_def push_incoming_def)
  from ws_timeout_loses_fragment [OF a b, of "[]"] show ?thesis by auto
qed

end
