(* ===== verification/Http.thy ===== *)
theory Http
  imports Ws
begin

text \<open>
  \<^verbatim>\<open>core/src/vc_http.cpp\<close>: header lookup, the chunked decoder, the parsing of a response and
  the exchange of one request over a transport. The reading loop is one step per turn, as in
  the WebSocket layer; its outcome is the text read so far.
\<close>

definition kMaxResponseBytes :: nat where
  "kMaxResponseBytes = 64 * 1024 * 1024"

record response =
  status :: nat
  status_text :: string
  headers :: string
  body :: bytes

record request =
  rq_method :: string
  rq_host :: string
  rq_port :: int
  rq_path_and_query :: string
  rq_extra_headers :: string
  rq_body :: bytes
  rq_content_type :: string
  rq_timeout_ms :: int

subsection \<open>Headers\<close>

function header_value :: "string \<Rightarrow> string \<Rightarrow> string option" where
  "header_value hs name =
     (if hs = [] then None
      else
        (let eol = find_sub crlf hs;
             line = (case eol of None \<Rightarrow> hs | Some i \<Rightarrow> take i hs)
         in if istarts_with line name \<and> length name < length line \<and> line ! length name = CHR '':''
            then Some (dropWhile (\<lambda>c. c = CHR '' '' \<or> c = CHR 0x09) (drop (length name + 1) line))
            else (case eol of None \<Rightarrow> None | Some i \<Rightarrow> header_value (drop (i + 2) hs) name)))"
  by pat_completeness auto
termination
  by (relation "measure (\<lambda>(hs, name). length hs)") auto

declare header_value.simps [simp del]

definition header_contains :: "string \<Rightarrow> string \<Rightarrow> string \<Rightarrow> bool" where
  "header_contains hs name needle =
     (case header_value hs name of
        None \<Rightarrow> False
      | Some v \<Rightarrow>
          list_ex (\<lambda>i. i + length needle \<le> length v \<and> istarts_with (drop i v) needle)
            [0..<Suc (length v)])"

subsection \<open>The chunked coding\<close>

function decode_chunked :: "string \<Rightarrow> bytes" where
  "decode_chunked p =
     (if p = [] then []
      else
        (let ds = takeWhile is_xdigit p;
             after = dropWhile is_xdigit p
         in case parse_uint ds kMaxResponseBytes 16 of
              None \<Rightarrow> []
            | Some chunk \<Rightarrow>
                (case find_sub crlf after of
                   None \<Rightarrow> []
                 | Some i \<Rightarrow>
                     (let p = drop (i + 2) after
                      in if chunk = 0 then []
                         else
                           (let data = take chunk p;
                                p = drop chunk p;
                                p = (if prefix crlf p then drop 2 p else p)
                            in as_bytes data @ decode_chunked p)))))"
  by pat_completeness auto
termination
proof (relation "measure length", goal_cases)
  case (2 p ds after chunk i q data q1 q2)
  have "length after \<le> length p" using 2(3) by (simp add: length_dropWhile_le)
  moreover have "i + 2 \<le> length after"
    using find_sub_Some_le [OF 2(5)] by (simp add: crlf_def)
  ultimately have "length q < length p" using 2(6) by simp
  moreover have "length q2 \<le> length q" using 2(9,10) by auto
  ultimately show ?case by simp
qed simp

declare decode_chunked.simps [simp del]

subsection \<open>A response\<close>

definition body_complete :: "string \<Rightarrow> bool" where
  "body_complete inp =
     (case find_sub (crlf @ crlf) inp of
        None \<Rightarrow> False
      | Some he \<Rightarrow>
          (let head = take he inp;
               cl = header_value head ''Content-Length'';
               chunked = header_contains head ''Transfer-Encoding'' ''chunked''
           in if cl \<noteq> None \<and> \<not> chunked
              then (case parse_uint (the cl) kMaxResponseBytes 10 of
                      None \<Rightarrow> False
                    | Some len \<Rightarrow> he + 4 + len \<le> length inp)
              else False))"

definition parse_response :: "string \<Rightarrow> response result" where
  "parse_response inp =
     (case find_sub (crlf @ crlf) inp of
        None \<Rightarrow> Err Protocol
      | Some he \<Rightarrow>
          if \<not> istarts_with inp ''HTTP/'' then Err Protocol
          else (case find_char CHR '' '' inp of
                  None \<Rightarrow> Err Protocol
                | Some sp \<Rightarrow>
                    (let code_txt = takeWhile is_digit (drop (sp + 1) inp)
                     in case parse_uint code_txt 599 10 of
                          None \<Rightarrow> Err Protocol
                        | Some c \<Rightarrow>
                            if c < 100 then Err Protocol
                            else
                              (let sp2 = map_option (\<lambda>j. sp + 1 + j) (find_char CHR '' '' (drop (sp + 1) inp));
                                   eol = find_sub crlf inp;
                                   txt = (case (sp2, eol) of
                                            (Some a, Some b) \<Rightarrow>
                                              if a < b then take (b - a - 1) (drop (a + 1) inp) else []
                                          | _ \<Rightarrow> []);
                                   hs = take he inp;
                                   rest = drop (he + 4) inp
                               in Inr \<lparr>status = c, status_text = txt, headers = hs,
                                       body = (if header_contains hs ''Transfer-Encoding'' ''chunked''
                                               then decode_chunked rest
                                               else as_bytes rest)\<rparr>))))"

subsection \<open>The exchange\<close>

definition request_head :: "request \<Rightarrow> string" where
  "request_head req =
     rq_method req @ '' '' @ rq_path_and_query req @ '' HTTP/1.1'' @ crlf @ ''Host: '' @ rq_host req @ crlf @
     (if rq_body req \<noteq> []
      then ''Content-Length: '' @ to_string (length (rq_body req)) @ crlf @
           ''Content-Type: '' @
           (if rq_content_type req = [] then ''application/json'' else rq_content_type req) @ crlf
      else []) @
     rq_extra_headers req @ ''Connection: close'' @ crlf @ crlf"

definition read_step ::
  "('w, 't) net \<Rightarrow> 't \<Rightarrow> u64 \<Rightarrow> string \<times> 'w \<Rightarrow> string \<times> 'w + string result \<times> 'w" where
  "read_step net t deadline st =
     (let (inp, w) = st;
          (now, w) = monotonic_ms net w
      in if now \<ge> deadline then Inr (Inr inp, w)
         else (case trecv net t kChunk (to_int32 (deadline - now)) w of
                 (Inl _, w) \<Rightarrow> Inr (Inr inp, w)
               | (Inr bs, w) \<Rightarrow>
                   if bs = [] then Inr (Inr inp, w)
                   else if kMaxResponseBytes < length inp + length bs then Inr (Err Protocol, w)
                   else
                     (let inp = inp @ as_view bs
                      in if body_complete inp then Inr (Inr inp, w) else Inl (inp, w))))"

partial_function (option) read_loop ::
  "('w, 't) net \<Rightarrow> 't \<Rightarrow> u64 \<Rightarrow> string \<times> 'w \<Rightarrow> (string result \<times> 'w) option" where
  "read_loop net t deadline st =
     (case read_step net t deadline st of
        Inl st' \<Rightarrow> read_loop net t deadline st'
      | Inr r \<Rightarrow> Some r)"

definition http_exchange ::
  "('w, 't) net \<Rightarrow> 't \<Rightarrow> request \<Rightarrow> 'w \<Rightarrow> (response result \<times> 'w) option" where
  "http_exchange net t req w =
     (case tsend net t (as_bytes (request_head req)) w of
        (Inl _, w) \<Rightarrow> Some (Err Io, w)
      | (Inr _, w) \<Rightarrow>
          (case (if rq_body req \<noteq> [] then tsend net t (rq_body req) w else (Inr (), w)) of
             (Inl _, w) \<Rightarrow> Some (Err Io, w)
           | (Inr _, w) \<Rightarrow>
               (let (now, w) = monotonic_ms net w;
                    deadline = now + word_of_int (rq_timeout_ms req)
                in case read_loop net t deadline ([], w) of
                     None \<Rightarrow> None
                   | Some (Inl e, w) \<Rightarrow> Some (Inl e, w)
                   | Some (Inr inp, w) \<Rightarrow> Some (parse_response inp, w))))"

definition http_request ::
  "('w, 't) net \<Rightarrow> (string \<Rightarrow> int \<Rightarrow> int \<Rightarrow> 'w \<Rightarrow> 's result \<times> 'w) \<Rightarrow>
   ('s \<Rightarrow> string \<Rightarrow> int \<Rightarrow> 'w \<Rightarrow> 't result \<times> 'w) \<Rightarrow> request \<Rightarrow> 'w \<Rightarrow> (response result \<times> 'w) option"
where
  "http_request net dial tls req w =
     (case dial (rq_host req) (rq_port req) (rq_timeout_ms req) w of
        (Inl _, w) \<Rightarrow> Some (Err Io, w)
      | (Inr sock, w) \<Rightarrow>
          (case tls sock (rq_host req) (rq_timeout_ms req) w of
             (Inl _, w) \<Rightarrow> Some (Err Tls, w)
           | (Inr t, w) \<Rightarrow> http_exchange net t req w))"

subsection \<open>Header lookup\<close>

definition header_line :: "string \<times> string \<Rightarrow> string" where
  "header_line h = fst h @ '': '' @ snd h"

definition header_ok :: "string \<times> string \<Rightarrow> bool" where
  "header_ok h \<longleftrightarrow> CHR '':'' \<notin> set (fst h) \<and> CHR 0x0D \<notin> set (fst h) \<and> CHR 0x0D \<notin> set (snd h) \<and>
     (snd h = [] \<or> hd (snd h) \<noteq> CHR '' '' \<and> hd (snd h) \<noteq> CHR 0x09)"

fun header_block :: "string \<Rightarrow> (string \<times> string) list \<Rightarrow> string" where
  "header_block first [] = first"
| "header_block first (h # hs) = first @ crlf @ header_block (header_line h) hs"

lemma crlf_facts [simp]: "crlf \<noteq> []" "length crlf = 2" "hd crlf = CHR 0x0D"
  by (simp_all add: crlf_def)

lemma find_crlf_append:
  "CHR 0x0D \<notin> set l \<Longrightarrow> find_sub crlf (l @ crlf @ r) = Some (length l)"
proof (induction l)
  case Nil
  show ?case by (simp add: crlf_def)
next
  case (Cons c l)
  then show ?case by (auto simp: crlf_def prefix_Cons)
qed

lemma find_crlf_None: "CHR 0x0D \<notin> set l \<Longrightarrow> find_sub crlf l = None"
  by (induction l) (auto simp: crlf_def prefix_Cons)

lemma to_lower_colon: "to_lower c = CHR '':'' \<longleftrightarrow> c = CHR '':''"
proof
  assume a: "to_lower c = CHR '':''"
  have "\<not> is_upper c"
  proof
    assume u: "is_upper c"
    then have "ord (to_lower c) = ord c + 32" "65 \<le> ord c"
      by (simp_all add: ord_to_lower is_upper_def in_range_def)
    then show False using a by simp
  qed
  with a show "c = CHR '':''" by (simp add: to_lower_def)
qed (simp add: to_lower_def is_upper_def in_range_def)

lemma line_match:
  assumes "CHR '':'' \<notin> set (fst h)" and "CHR '':'' \<notin> set name"
  shows "istarts_with (header_line h) name \<and> length name < length (header_line h) \<and>
      header_line h ! length name = CHR '':'' \<longleftrightarrow> iequals (fst h) name"
proof
  let ?l = "header_line h"
  assume a: "istarts_with ?l name \<and> length name < length ?l \<and> ?l ! length name = CHR '':''"
  have pre: "map to_lower (take (length name) ?l) = map to_lower name"
    using a by (simp add: istarts_with_def list_all2_to_lower split: if_splits)
  have "\<not> length name < length (fst h)"
  proof
    assume l: "length name < length (fst h)"
    then have "?l ! length name = fst h ! length name" by (simp add: header_line_def nth_append)
    with a l assms(1) show False by (metis nth_mem)
  qed
  moreover have "\<not> length (fst h) < length name"
  proof
    assume l: "length (fst h) < length name"
    have "to_lower (?l ! length (fst h)) = to_lower (name ! length (fst h))"
      using arg_cong [OF pre, of "\<lambda>x. x ! length (fst h)"] a l by simp
    moreover have "?l ! length (fst h) = CHR '':''" by (simp add: header_line_def nth_append)
    ultimately have "name ! length (fst h) = CHR '':''" by (metis to_lower_colon)
    with l assms(2) show False by (metis nth_mem)
  qed
  ultimately have "length name = length (fst h)" by simp
  then show "iequals (fst h) name" using pre by (simp add: header_line_def iequals_iff)
next
  assume e: "iequals (fst h) name"
  then have l: "length name = length (fst h)" by (metis iequals_iff length_map)
  have "istarts_with (header_line h) name"
    using e by (simp add: istarts_with_iff header_line_def iequals_iff)
  then show "istarts_with (header_line h) name \<and> length name < length (header_line h) \<and>
      header_line h ! length name = CHR '':''"
    using l by (simp add: header_line_def nth_append)
qed

text \<open>Looking a header up finds the first field of that name, whatever its case.\<close>

definition first_header :: "(string \<times> string) list \<Rightarrow> string \<Rightarrow> string option" where
  "first_header hs name = map_option snd (find (\<lambda>h. iequals (fst h) name) hs)"

lemma header_value_line:
  assumes "CHR 0x0D \<notin> set line"
  shows "header_value (line @ crlf @ r) name =
    (if istarts_with line name \<and> length name < length line \<and> line ! length name = CHR '':''
     then Some (dropWhile (\<lambda>c. c = CHR '' '' \<or> c = CHR 0x09) (drop (length name + 1) line))
     else header_value r name)"
    and "line \<noteq> [] \<Longrightarrow> header_value line name =
    (if istarts_with line name \<and> length name < length line \<and> line ! length name = CHR '':''
     then Some (dropWhile (\<lambda>c. c = CHR '' '' \<or> c = CHR 0x09) (drop (length name + 1) line))
     else None)"
proof -
  have "line @ crlf @ r \<noteq> []" by (simp add: crlf_def)
  moreover have "drop (length line + 2) (line @ crlf @ r) = r" by (simp add: crlf_def)
  ultimately show "header_value (line @ crlf @ r) name =
    (if istarts_with line name \<and> length name < length line \<and> line ! length name = CHR '':''
     then Some (dropWhile (\<lambda>c. c = CHR '' '' \<or> c = CHR 0x09) (drop (length name + 1) line))
     else header_value r name)"
    using find_crlf_append [OF assms, of r] by (subst header_value.simps) (simp add: Let_def)
  show "line \<noteq> [] \<Longrightarrow> header_value line name =
    (if istarts_with line name \<and> length name < length line \<and> line ! length name = CHR '':''
     then Some (dropWhile (\<lambda>c. c = CHR '' '' \<or> c = CHR 0x09) (drop (length name + 1) line))
     else None)"
    using find_crlf_None [OF assms] by (subst header_value.simps) (simp add: Let_def)
qed

lemma header_value_first:
  assumes "\<forall>h \<in> set hs. header_ok h" and "CHR 0x0D \<notin> set line" and "line \<noteq> []"
    and "CHR '':'' \<notin> set line" and "CHR '':'' \<notin> set name" and "name \<noteq> []"
  shows "header_value (header_block line hs) name = first_header hs name"
proof -
  have skip: "\<not> (istarts_with line name \<and> length name < length line \<and> line ! length name = CHR '':'')"
    using assms(4) by (metis nth_mem)
  have val: "dropWhile (\<lambda>c. c = CHR '' '' \<or> c = CHR 0x09) (drop (length name + 1) (header_line h)) = snd h"
    if "header_ok h" "iequals (fst h) name" for h
  proof -
    have "length name = length (fst h)" using that(2) by (metis iequals_iff length_map)
    then have "drop (length name + 1) (header_line h) = '' '' @ snd h" by (simp add: header_line_def)
    then show ?thesis using that(1) by (cases "snd h") (auto simp: header_ok_def)
  qed
  have ln: "header_line h \<noteq> []" "header_ok h \<Longrightarrow> CHR 0x0D \<notin> set (header_line h)" for h
    by (auto simp: header_line_def header_ok_def)
  have main: "header_value (header_block (header_line h) hs) name =
      first_header (h # hs) name" if "\<forall>h \<in> set (h # hs). header_ok h" for h hs
    using that
  proof (induction hs arbitrary: h)
    case Nil
    then have ok: "header_ok h" by simp
    have c: "CHR '':'' \<notin> set (fst h)" using ok by (simp add: header_ok_def)
    show ?case
      using header_value_line(2) [OF ln(2) [OF ok] ln(1), of name] val [OF ok]
      unfolding line_match [OF c assms(5)] by (simp add: first_header_def)
  next
    case (Cons h' hs)
    then have ok: "header_ok h" by simp
    have c: "CHR '':'' \<notin> set (fst h)" using ok by (simp add: header_ok_def)
    have "header_value (header_block (header_line h') hs) name = first_header (h' # hs) name"
      using Cons by simp
    then show ?case
      using header_value_line(1) [OF ln(2) [OF ok], of "header_block (header_line h') hs" name] val [OF ok]
      unfolding line_match [OF c assms(5)] by (simp add: first_header_def)
  qed
  show ?thesis
  proof (cases hs)
    case Nil
    then show ?thesis
      using header_value_line(2) [OF assms(2,3), of name] skip by (simp add: first_header_def)
  next
    case (Cons h hs')
    then show ?thesis
      using header_value_line(1) [OF assms(2), of "header_block (header_line h) hs'" name] skip
        main [of h hs'] assms(1) by simp
  qed
qed

subsection \<open>Decoding what a chunked sender writes\<close>

definition hex16 :: "nat \<Rightarrow> char" where
  "hex16 d = ''0123456789abcdef'' ! d"

fun hex_string :: "nat \<Rightarrow> string" where
  "hex_string n = (if n < 16 then [hex16 n] else hex_string (n div 16) @ [hex16 (n mod 16)])"

declare hex_string.simps [simp del]

definition enc_chunk :: "bytes \<Rightarrow> string" where
  "enc_chunk d = hex_string (length d) @ crlf @ as_view d @ crlf"

definition enc_chunked :: "bytes list \<Rightarrow> string" where
  "enc_chunked ds = concat (map enc_chunk ds) @ ''0'' @ crlf @ crlf"

lemma hex16_table:
  "list_all (\<lambda>d. digit_val 16 (hex16 d) = Some d \<and> is_xdigit (hex16 d)) [0..<16]"
  by code_simp

lemma hex16 [simp]: "d < 16 \<Longrightarrow> digit_val 16 (hex16 d) = Some d" "d < 16 \<Longrightarrow> is_xdigit (hex16 d)"
  using hex16_table by (simp_all add: list_all_iff)

lemma hex_string_ne [simp]: "hex_string n \<noteq> []"
  by (subst hex_string.simps) simp

lemma hex_string_digits: "c \<in> set (hex_string n) \<Longrightarrow> is_xdigit c \<and> digit_in 16 c"
proof (induction n rule: hex_string.induct)
  case (1 n)
  show ?case
  proof (cases "n < 16")
    case True
    then have "c = hex16 n" using "1.prems" by (subst (asm) hex_string.simps) simp
    then show ?thesis using True by (simp add: digit_in_def)
  next
    case False
    then consider "c \<in> set (hex_string (n div 16))" | "c = hex16 (n mod 16)"
      using "1.prems" by (subst (asm) hex_string.simps) auto
    then show ?thesis
      by cases (use "1.IH" False in \<open>simp_all add: digit_in_def\<close>)
  qed
qed

lemma num_of_hex_string [simp]: "num_of 16 (hex_string n) = n"
proof (induction n rule: hex_string.induct)
  case (1 n)
  show ?case
  proof (cases "n < 16")
    case True
    then show ?thesis by (subst hex_string.simps) (simp add: num_of_def)
  next
    case False
    with "1.IH" show ?thesis by (subst hex_string.simps) simp
  qed
qed

lemma parse_hex_string: "n \<le> mx \<Longrightarrow> n < 2 ^ 64 \<Longrightarrow> parse_uint (hex_string n) mx 16 = Some n"
  using hex_string_digits [of _ n] by (auto simp: parse_uint_iff)

lemma cr_no_xdigit [simp]: "\<not> is_xdigit CHR 0x0D"
  by (simp add: is_xdigit_def is_digit_def in_range_def)

lemma hex_crlf:
  "takeWhile is_xdigit (hex_string n @ crlf @ r) = hex_string n"
  "dropWhile is_xdigit (hex_string n @ crlf @ r) = crlf @ r"
  using hex_string_digits [of _ n] by (simp_all add: takeWhile_append dropWhile_append crlf_def)

lemma decode_chunk:
  assumes "d \<noteq> []" and "length d \<le> kMaxResponseBytes"
  shows "decode_chunked (enc_chunk d @ r) = d @ decode_chunked r"
proof -
  let ?p = "hex_string (length d) @ crlf @ (as_view d @ crlf @ r)"
  have p: "enc_chunk d @ r = ?p" by (simp add: enc_chunk_def)
  have n: "parse_uint (hex_string (length d)) kMaxResponseBytes 16 = Some (length d)"
    using assms(2) by (intro parse_hex_string) (simp_all add: kMaxResponseBytes_def)
  have f: "find_sub crlf (crlf @ (as_view d @ crlf @ r)) = Some 0"
    by (rule find_sub_here) simp
  have t: "drop (0 + 2) (crlf @ (as_view d @ crlf @ r)) = as_view d @ crlf @ r" by simp
  have tk: "take (length d) (as_view d @ crlf @ r) = as_view d"
    "drop (length d) (as_view d @ crlf @ r) = crlf @ r" by simp_all
  have d2: "drop 2 (crlf @ r) = r" by simp
  have ne: "?p \<noteq> []" "length d \<noteq> 0" using assms(1) by simp_all
  show ?thesis
    unfolding p by (subst decode_chunked.simps)
      (simp only: ne if_False hex_crlf Let_def n option.case f t tk d2 prefixI if_True as_bytes_as_view
        prefix_order.refl append_prefixD same_prefix_nil prefix_def ex_simps simp_thms, simp)
qed

lemma decode_last: "decode_chunked (''0'' @ crlf @ crlf) = []"
proof -
  have h: "''0'' = hex_string 0" by (simp add: hex_string.simps hex16_def)
  have n: "parse_uint (hex_string 0) kMaxResponseBytes 16 = Some 0"
    by (rule parse_hex_string) simp_all
  have f: "find_sub crlf (crlf @ crlf) = Some 0" by (rule find_sub_here) simp
  show ?thesis
    unfolding h by (subst decode_chunked.simps) (simp add: hex_crlf n f Let_def)
qed

lemma decode_enc_chunked:
  "\<forall>d \<in> set ds. d \<noteq> [] \<and> length d \<le> kMaxResponseBytes \<Longrightarrow>
     decode_chunked (enc_chunked ds) = concat ds"
proof (induction ds)
  case Nil
  show ?case using decode_last by (simp add: enc_chunked_def)
next
  case (Cons d ds)
  have "enc_chunked (d # ds) = enc_chunk d @ enc_chunked ds" by (simp add: enc_chunked_def)
  then show ?case using Cons decode_chunk [of d "enc_chunked ds"] by simp
qed

subsection \<open>Parsing a well-formed response\<close>

lemma blank_line_skip:
  assumes "CHR 0x0D \<notin> set l" and "r \<noteq> []" and "hd r \<noteq> CHR 0x0D"
  shows "find_sub (crlf @ crlf) (l @ crlf @ r) = map_option ((+) (length l + 2)) (find_sub (crlf @ crlf) r)"
proof -
  have "find_sub (crlf @ crlf) (crlf @ r) = map_option ((+) 2) (find_sub (crlf @ crlf) r)"
    using assms(2,3) by (cases r) (auto simp: crlf_def option.map_comp comp_def)
  moreover have "find_sub (crlf @ crlf) (l @ crlf @ r) =
      map_option ((+) (length l)) (find_sub (crlf @ crlf) (crlf @ r))"
    by (rule find_sub_skip) (use assms(1) in auto)
  ultimately show ?thesis by (cases "find_sub (crlf @ crlf) r") simp_all
qed

lemma blank_line_here:
  assumes "CHR 0x0D \<notin> set l"
  shows "find_sub (crlf @ crlf) (l @ crlf @ crlf @ r) = Some (length l)"
  using find_sub_skip [of "crlf @ crlf" l "crlf @ crlf @ r"] find_sub_here [of "crlf @ crlf" r] assms
  by simp

lemma header_line_props:
  "header_ok h \<Longrightarrow> fst h \<noteq> [] \<Longrightarrow> header_line h \<noteq> [] \<and> hd (header_line h) \<noteq> CHR 0x0D \<and>
     CHR 0x0D \<notin> set (header_line h)"
  by (cases "fst h") (auto simp: header_line_def header_ok_def)

lemma header_block_ne: "l \<noteq> [] \<Longrightarrow> header_block l hs \<noteq> [] \<and> hd (header_block l hs) = hd l"
  by (cases hs) auto

lemma find_blank_line:
  "\<forall>h \<in> set hs. header_ok h \<and> fst h \<noteq> [] \<Longrightarrow> CHR 0x0D \<notin> set l \<Longrightarrow>
   find_sub (crlf @ crlf) (header_block l hs @ crlf @ crlf @ r) = Some (length (header_block l hs))"
proof (induction hs arbitrary: l)
  case Nil
  then show ?case using blank_line_here by simp
next
  case (Cons h hs)
  note hp = header_line_props [of h]
  have "hd (header_block (header_line h) hs @ crlf @ crlf @ r) \<noteq> CHR 0x0D"
    "header_block (header_line h) hs @ crlf @ crlf @ r \<noteq> []"
    using hp Cons.prems(1) header_block_ne [of "header_line h" hs] by auto
  then have "find_sub (crlf @ crlf) (l @ crlf @ (header_block (header_line h) hs @ crlf @ crlf @ r)) =
      map_option ((+) (length l + 2))
        (find_sub (crlf @ crlf) (header_block (header_line h) hs @ crlf @ crlf @ r))"
    using Cons.prems(2) by (intro blank_line_skip)
  also have "\<dots> = Some (length l + 2 + length (header_block (header_line h) hs))"
    using Cons hp by simp
  finally show ?case by simp
qed

definition status_line :: "nat \<Rightarrow> string \<Rightarrow> string" where
  "status_line c txt = ''HTTP/1.1 '' @ to_string c @ '' '' @ txt"

definition response_text :: "nat \<Rightarrow> string \<Rightarrow> (string \<times> string) list \<Rightarrow> string \<Rightarrow> string" where
  "response_text c txt hs rest = header_block (status_line c txt) hs @ crlf @ crlf @ rest"

lemma header_block_prefix: "\<exists>r. header_block l hs @ crlf @ x = l @ crlf @ r"
  by (cases hs) auto

lemma digits_no_cr: "CHR 0x0D \<notin> set (to_string c)"
proof
  assume "CHR 0x0D \<in> set (to_string c)"
  from to_string_digits [OF this] show False by (simp add: is_digit_def in_range_def)
qed

lemma digits_no_space: "CHR '' '' \<notin> set (to_string c)"
proof
  assume "CHR '' '' \<in> set (to_string c)"
  from to_string_digits [OF this] show False by (simp add: is_digit_def in_range_def)
qed

lemma parse_response_text:
  assumes "100 \<le> c" and "c \<le> 599" and "CHR 0x0D \<notin> set txt"
    and "\<forall>h \<in> set hs. header_ok h \<and> fst h \<noteq> []"
  shows "parse_response (response_text c txt hs rest) =
    Inr \<lparr>status = c, status_text = txt, headers = header_block (status_line c txt) hs,
         body = (if header_contains (header_block (status_line c txt) hs) ''Transfer-Encoding'' ''chunked''
                 then decode_chunked rest else as_bytes rest)\<rparr>"
proof -
  let ?s = "status_line c txt"
  let ?inp = "response_text c txt hs rest"
  have cr: "CHR 0x0D \<notin> set ?s" using assms(3) digits_no_cr [of c] by (simp add: status_line_def)
  have he: "find_sub (crlf @ crlf) ?inp = Some (length (header_block ?s hs))"
    using find_blank_line [OF assms(4) cr, of rest] by (simp add: response_text_def)
  obtain r where r: "?inp = ?s @ crlf @ r"
    using header_block_prefix [of ?s hs "crlf @ rest"] by (auto simp: response_text_def)
  have pre: "istarts_with ?inp ''HTTP/''"
    using istarts_with_append [of "''HTTP/''"] unfolding r status_line_def by simp
  have sp: "find_char CHR '' '' ?inp = Some 8"
    unfolding r status_line_def by simp
  have rest: "drop (8 + 1) ?inp = to_string c @ CHR '' '' # txt @ crlf @ r"
    unfolding r status_line_def by simp
  have code: "takeWhile is_digit (to_string c @ CHR '' '' # txt @ crlf @ r) = to_string c"
    using to_string_digits [of _ c] by (simp add: takeWhile_append is_digit_def in_range_def)
  have num: "parse_uint (to_string c) 599 10 = Some c"
    using assms(2) by (simp add: parse_uint_to_string)
  have sp2: "find_char CHR '' '' (to_string c @ CHR '' '' # txt @ crlf @ r) = Some (length (to_string c))"
    using digits_no_space [of c] by (rule find_char_append)
  have eol: "find_sub crlf ?inp = Some (length ?s)"
    unfolding r by (rule find_crlf_append [OF cr])
  have tx: "take (length ?s - (9 + length (to_string c)) - 1) (drop (9 + length (to_string c) + 1) ?inp) = txt"
  proof -
    define h where "h = ''HTTP/1.1 '' @ to_string c @ '' ''"
    have "?inp = h @ txt @ crlf @ r" unfolding r status_line_def h_def by simp
    moreover have "9 + length (to_string c) + 1 = length h" by (simp add: h_def)
    moreover have "length ?s - (9 + length (to_string c)) - 1 = length txt" by (simp add: status_line_def)
    ultimately show ?thesis by simp
  qed
  have lt: "9 + length (to_string c) < length ?s" by (simp add: status_line_def)
  have body: "take (length (header_block ?s hs)) ?inp = header_block ?s hs"
    "drop (length (header_block ?s hs) + 4) ?inp = rest"
    by (simp_all add: response_text_def)
  show ?thesis
    unfolding parse_response_def he option.case sp rest Let_def code num sp2 eol body
    using pre assms(1) lt tx by simp
qed

lemma parse_response_status:
  "parse_response inp = Inr resp \<Longrightarrow> 100 \<le> status resp \<and> status resp \<le> 599"
  using parse_uint_le
  by (fastforce simp: parse_response_def Let_def split: option.splits if_splits)

subsection \<open>The reading loop, over any transport\<close>

lemma find_sub_mono: "find_sub n p = Some i \<Longrightarrow> find_sub n (p @ x) = Some i"
proof (induction p arbitrary: i)
  case Nil
  then show ?case by (cases x) (simp_all split: if_splits)
next
  case (Cons c p)
  show ?case
  proof (cases "prefix n (c # p)")
    case True
    then have "prefix n (c # p @ x)" using prefix_prefix [of n "c # p" x] by simp
    with True Cons.prems show ?thesis by simp
  next
    case False
    then obtain z where z: "find_sub n p = Some z" "i = Suc z" using Cons.prems by auto
    have "\<not> prefix n (c # p @ x)"
    proof
      assume "prefix n (c # p @ x)"
      then have "prefix n (c # p)"
        by (rule prefix_length_prefix) (use find_sub_Some_le [OF z(1)] in simp_all)
      with False show False ..
    qed
    then show ?thesis using z Cons.IH by simp
  qed
qed

context transport
begin

text \<open>An invariant of the world that keeps the clock before the deadline.\<close>

definition before :: "('w \<Rightarrow> bool) \<Rightarrow> u64 \<Rightarrow> bool" where
  "before I dl \<longleftrightarrow>
     (\<forall>w now w'. I w \<longrightarrow> monotonic_ms net w = (now, w') \<longrightarrow> now < dl \<and> I w') \<and>
     (\<forall>t n ms w q w'. I w \<longrightarrow> trecv net t n ms w = (q, w') \<longrightarrow> I w')"

lemma read_step_some:
  assumes "before I dl" and "I w" and "tvalid net t w" and "pending t w \<noteq> []"
    and "length inp + length (pending t w) \<le> kMaxResponseBytes"
  shows "\<exists>bs w'. bs \<noteq> [] \<and> pending t w = bs @ pending t w' \<and> I w' \<and> tvalid net t w' \<and>
    read_step net t dl (inp, w) =
      (if body_complete (inp @ as_view bs) then Inr (Inr (inp @ as_view bs), w')
       else Inl (inp @ as_view bs, w'))"
proof -
  obtain now w1 where c: "monotonic_ms net w = (now, w1)" by fastforce
  have w1: "now < dl" "I w1"
    using assms(1,2) c unfolding before_def by blast+
  have "pending t w1 = pending t w \<and> tvalid net t w1 = tvalid net t w"
    using clock_keeps [OF c] by blast
  then have w2: "pending t w1 = pending t w" "tvalid net t w1" using assms(3) by simp_all
  have "0 < kChunk" by (simp add: kChunk_def)
  then obtain b bs w' where r: "trecv net t kChunk (to_int32 (dl - now)) w1 = (Inr (b # bs), w')"
    using recv_ready [OF w2(2)] w2(1) assms(4) by metis
  have p: "pending t w = (b # bs) @ pending t w'" using recv_Inr [OF r] w2(1) by simp
  moreover have "I w'" using assms(1) r w1(2) unfolding before_def by blast
  moreover have "tvalid net t w'" using recv_valid [OF r] w2(2) by simp
  moreover have "\<not> kMaxResponseBytes < length inp + length (b # bs)" using assms(5) p by simp
  moreover have "\<not> now \<ge> dl" using w1(1) by simp
  ultimately show ?thesis
    using c r by (intro exI [of _ "b # bs"] exI [of _ w']) (simp add: read_step_def Let_def)
qed

lemma read_step_none:
  assumes "before I dl" and "I w" and "pending t w = []"
  shows "\<exists>w'. read_step net t dl (inp, w) = Inr (Inr inp, w')"
proof -
  obtain now w1 where c: "monotonic_ms net w = (now, w1)" by fastforce
  have w1: "now < dl" using assms(1,2) c unfolding before_def by blast
  have w2: "pending t w1 = []" using clock_keeps [OF c] assms(3) by metis
  obtain q w' where r: "trecv net t kChunk (to_int32 (dl - now)) w1 = (q, w')" by fastforce
  show ?thesis
    using c r w1 w2 recv_Inr [of t kChunk "to_int32 (dl - now)" w1 _ w']
    by (cases q) (auto simp: read_step_def Let_def)
qed

text \<open>Everything the peer sends is read, in whatever pieces, unless an early part is complete.\<close>

lemma read_loop_all:
  assumes "before I dl" and "I w" and "tvalid net t w"
    and "length inp + length (pending t w) \<le> kMaxResponseBytes"
    and "\<And>p. strict_prefix p (inp @ as_view (pending t w)) \<Longrightarrow> \<not> body_complete p"
  shows "\<exists>w'. read_loop net t dl (inp, w) = Some (Inr (inp @ as_view (pending t w)), w')"
  using assms(2-5)
proof (induction "length (pending t w)" arbitrary: inp w rule: less_induct)
  case less
  show ?case
  proof (cases "pending t w = []")
    case True
    with read_step_none [OF assms(1) less.prems(1) True, of inp] show ?thesis
      by (auto simp: read_loop.simps)
  next
    case False
    from read_step_some [OF assms(1) less.prems(1,2) False less.prems(3)] obtain bs w' where
      s: "bs \<noteq> []" "pending t w = bs @ pending t w'" "I w'" "tvalid net t w'"
        "read_step net t dl (inp, w) =
          (if body_complete (inp @ as_view bs) then Inr (Inr (inp @ as_view bs), w')
           else Inl (inp @ as_view bs, w'))" by blast
    have all: "inp @ as_view (pending t w) = (inp @ as_view bs) @ as_view (pending t w')"
      using s(2) by simp
    show ?thesis
    proof (cases "body_complete (inp @ as_view bs)")
      case True
      have "pending t w' = []"
      proof (rule ccontr)
        assume "pending t w' \<noteq> []"
        then have "strict_prefix (inp @ as_view bs) (inp @ as_view (pending t w))"
          unfolding all by (simp add: strict_prefix_def)
        with less.prems(4) True show False by blast
      qed
      with True s(5) all show ?thesis by (auto simp: read_loop.simps)
    next
      case False
      have "\<exists>w''. read_loop net t dl (inp @ as_view bs, w') =
          Some (Inr ((inp @ as_view bs) @ as_view (pending t w')), w'')"
        by (rule less.hyps) (use s less.prems(3,4) all in auto)
      with False s(5) all show ?thesis by (simp add: read_loop.simps)
    qed
  qed
qed

text \<open>The loop always ends, and what it holds never exceeds the cap.\<close>

lemma read_step_shrinks:
  assumes "read_step net t dl (inp, w) = Inl (inp', w')"
  shows "length (pending t w') < length (pending t w)"
    and "length inp' \<le> kMaxResponseBytes"
proof -
  obtain now w1 where c: "monotonic_ms net w = (now, w1)" by fastforce
  obtain q w2 where r: "trecv net t kChunk (to_int32 (dl - now)) w1 = (q, w2)" by fastforce
  obtain bs where q: "q = Inr bs" "bs \<noteq> []" "w' = w2" "inp' = inp @ as_view bs"
    "\<not> kMaxResponseBytes < length inp + length bs"
    using assms c r by (cases q) (auto simp: read_step_def Let_def split: if_splits)
  have "pending t w1 = bs @ pending t w2" using recv_Inr r q(1) by blast
  then have "pending t w = bs @ pending t w'" using clock_keeps [OF c] q(3) by simp
  then show "length (pending t w') < length (pending t w)" using q(2) by simp
  show "length inp' \<le> kMaxResponseBytes" using q(4,5) by simp
qed

lemma read_step_bound:
  assumes "read_step net t dl (inp, w) = Inr (Inr out, w')" and "length inp \<le> kMaxResponseBytes"
  shows "length out \<le> kMaxResponseBytes"
  using assms by (auto simp: read_step_def Let_def split: if_splits prod.splits sum.splits)

lemma read_loop_bound:
  assumes "length inp \<le> kMaxResponseBytes"
  shows "\<exists>q w'. read_loop net t dl (inp, w) = Some (q, w') \<and>
    (\<forall>out. q = Inr out \<longrightarrow> length out \<le> kMaxResponseBytes)"
  using assms
proof (induction "length (pending t w)" arbitrary: inp w rule: less_induct)
  case less
  show ?case
  proof (cases "read_step net t dl (inp, w)")
    case (Inl st)
    obtain inp' w' where st: "st = (inp', w')" by fastforce
    from less.hyps [of w' inp'] read_step_shrinks [of t dl inp w inp' w'] Inl st show ?thesis
      by (simp add: read_loop.simps)
  next
    case (Inr r)
    obtain q w' where "r = (q, w')" by fastforce
    with Inr read_step_bound [of t dl inp w _ w'] less.prems show ?thesis
      by (auto simp: read_loop.simps)
  qed
qed

lemma http_exchange_returns: "http_exchange net t req w \<noteq> None"
proof -
  obtain q w1 where 1: "tsend net t (as_bytes (request_head req)) w = (q, w1)" by fastforce
  obtain q2 w2 where 2: "(if rq_body req \<noteq> [] then tsend net t (rq_body req) w1 else (Inr (), w1)) = (q2, w2)"
    by fastforce
  obtain now w3 where 3: "monotonic_ms net w2 = (now, w3)" by fastforce
  obtain q4 w4 where 4: "read_loop net t (now + word_of_int (rq_timeout_ms req)) ([], w3) = Some (q4, w4)"
    using read_loop_bound [of "[]" t "now + word_of_int (rq_timeout_ms req)" w3] by auto
  show ?thesis
    unfolding http_exchange_def 1 prod.case
    by (cases q; cases q2; cases q4) (simp_all only: sum.case 2 3 4 prod.case Let_def option.case option.distinct not_False_eq_True)
qed

end

subsection \<open>Against a scripted peer\<close>

lemma scripted_ops:
  "tsend scripted_net = scripted_send" "trecv scripted_net = scripted_recv"
  "monotonic_ms scripted_net = scripted_clock"
  by (simp_all add: scripted_net_def)

definition quiet_clock :: "u64 \<Rightarrow> 'a scripted_scheme \<Rightarrow> bool" where
  "quiet_clock dl s \<longleftrightarrow> tick s = 0 \<and> clock s < dl"

lemma scripted_before: "scripted.before (quiet_clock dl) dl"
  unfolding scripted.before_def
  by (auto simp: quiet_clock_def scripted_net_def scripted_clock_def
      scripted_recv_def split: option.splits prod.splits)

lemma exchange_scripted:
  assumes "wire_of t s = Some x" and "\<not> w_closed x" and "\<not> fail_send x"
    and "tick s = 0" and "clock s < clock s + word_of_int (rq_timeout_ms req)"
    and "length (wire_pending t s) \<le> kMaxResponseBytes"
    and "\<And>p. strict_prefix p (as_view (wire_pending t s)) \<Longrightarrow> \<not> body_complete p"
  shows "\<exists>s'. http_exchange scripted_net t req s = Some (parse_response (as_view (wire_pending t s)), s')"
proof -
  obtain s1 x1 where s1: "scripted_send t (as_bytes (request_head req)) s = (Inr (), s1)"
    "wire_of t s1 = Some x1" "\<not> w_closed x1" "\<not> fail_send x1" "tick s1 = 0" "clock s1 = clock s"
    "wire_pending t s1 = wire_pending t s"
    using scripted_send_ok [OF assms(1-3), of "as_bytes (request_head req)"] assms(1-4)
    by (auto simp: wire_pending_def)
  obtain s2 x2 where s2: "(if rq_body req \<noteq> [] then scripted_send t (rq_body req) s1 else (Inr (), s1)) =
      (Inr (), s2)" "wire_of t s2 = Some x2" "\<not> w_closed x2" "tick s2 = 0" "clock s2 = clock s"
      "wire_pending t s2 = wire_pending t s"
  proof (cases "rq_body req = []")
    case False
    then show ?thesis
      using that scripted_send_ok [OF s1(2-4), of "rq_body req"] s1(2,3,5-7)
      by (auto simp: wire_pending_def)
  qed (use that s1 in auto)
  let ?dl = "clock s + word_of_int (rq_timeout_ms req)"
  have "quiet_clock ?dl (s2\<lparr>clock := clock s2 + tick s2\<rparr>)"
    using s2(4,5) assms(5) by (simp add: quiet_clock_def)
  moreover have "tvalid scripted_net t (s2\<lparr>clock := clock s2 + tick s2\<rparr>)"
    using s2(2,3) by (simp add: scripted_net_def scripted_valid_def)
  moreover have "wire_pending t (s2\<lparr>clock := clock s2 + tick s2\<rparr>) = wire_pending t s"
    using s2(6) by (simp add: wire_pending_def)
  ultimately obtain s' where "read_loop scripted_net t ?dl ([], s2\<lparr>clock := clock s2 + tick s2\<rparr>) =
      Some (Inr (as_view (wire_pending t s)), s')"
    using scripted.read_loop_all [OF scripted_before, of ?dl "s2\<lparr>clock := clock s2 + tick s2\<rparr>" t "[]"]
      assms(6,7) by auto
  then show ?thesis
    unfolding http_exchange_def scripted_ops s1(1) prod.case sum.case s2(1) Let_def scripted_clock_def
    by (simp add: s2(5))
qed

text \<open>
  A response whose body is cut short of its \<^verbatim>\<open>Content-Length\<close> is still returned as a complete
  response: nothing compares the two once the peer has stopped sending.
\<close>

lemma body_incomplete:
  assumes "\<forall>h \<in> set hs. header_ok h \<and> fst h \<noteq> []"
    and "CHR 0x0D \<notin> set txt" and "CHR '':'' \<notin> set txt"
    and "first_header hs ''Content-Length'' = Some (to_string n)" and "n < 2 ^ 64"
    and "length rest < n"
    and "prefix p (response_text c txt hs rest)"
  shows "\<not> body_complete p"
proof
  assume b: "body_complete p"
  let ?s = "status_line c txt"
  let ?h = "header_block ?s hs"
  from b obtain he where he: "find_sub (crlf @ crlf) p = Some he"
    by (auto simp: body_complete_def split: option.splits)
  obtain x where x: "response_text c txt hs rest = p @ x" using assms(7) by (auto elim: prefixE)
  have cr: "CHR 0x0D \<notin> set ?s" using assms(2) digits_no_cr [of c] by (simp add: status_line_def)
  have col: "CHR '':'' \<notin> set ?s"
    using assms(3) to_string_digits [of "CHR '':''" c]
    by (auto simp: status_line_def is_digit_def in_range_def)
  have "find_sub (crlf @ crlf) (p @ x) = Some (length ?h)"
    using find_blank_line [OF assms(1) cr, of rest] x by (simp add: response_text_def)
  with find_sub_mono [OF he, of x] have h: "he = length ?h" by simp
  have le: "he + 4 \<le> length p"
    using find_sub_Some_le [OF he] by simp
  have "take he p = take he (p @ x)" using le by simp
  also have "\<dots> = ?h" unfolding x [symmetric] h by (simp add: response_text_def)
  finally have head: "take he p = ?h" .
  have cl: "header_value ?h ''Content-Length'' = Some (to_string n)"
  proof -
    have "\<forall>h \<in> set hs. header_ok h" using assms(1) by auto
    from header_value_first [OF this cr _ col, of "''Content-Length''"] assms(4) show ?thesis
      by (simp add: status_line_def)
  qed
  have "length p \<le> length ?h + 4 + length rest"
    using prefix_length_le [OF assms(7)] by (simp add: response_text_def)
  then have "\<not> he + 4 + n \<le> length p" using h assms(6) by simp
  then show False
    using b cl assms(5)
    by (auto simp: body_complete_def he head Let_def parse_uint_to_string split: if_splits)
qed

subsection \<open>Properties\<close>

text \<open>
  C22: the chunked decoder returns the concatenation of the chunks for any body a chunked
  sender writes.
\<close>

theorem http_chunked_roundtrip:
  assumes "\<forall>d \<in> set ds. d \<noteq> [] \<and> length d \<le> kMaxResponseBytes"
  shows "decode_chunked (enc_chunked ds) = concat ds"
  using assms by (rule decode_enc_chunked)

lemma http_chunked_roundtrip_witness: "decode_chunked (enc_chunked [[1, 2], [3]]) = [1, 2, 3]"
  using http_chunked_roundtrip [of "[[1, 2], [3]]"] by (simp add: kMaxResponseBytes_def)


definition demo_http :: "string \<Rightarrow> scripted" where
  "demo_http r = \<lparr>wires = [(0, push_incoming_text r new_wire)], clock = 5, tick = 0, rng_seed = 0, rng_ok = True\<rparr>"

definition demo_request :: request where
  "demo_request = \<lparr>rq_method = ''GET'', rq_host = ''h'', rq_port = 443, rq_path_and_query = ''/'',
     rq_extra_headers = [], rq_body = [], rq_content_type = [], rq_timeout_ms = 1000\<rparr>"

lemma demo_http_facts:
  "wire_of (Some 0) (demo_http r) = Some (push_incoming_text r new_wire)"
  "\<not> w_closed (push_incoming_text r new_wire)" "\<not> fail_send (push_incoming_text r new_wire)"
  "tick (demo_http r) = 0"
  "clock (demo_http r) < clock (demo_http r) + word_of_int (rq_timeout_ms demo_request)"
  "wire_pending (Some 0) (demo_http r) = as_bytes r"
  by (simp_all add: demo_http_def wire_of_def wire_pending_def push_incoming_text_def new_wire_def
      demo_request_def)

definition demo_short :: string where
  "demo_short = response_text 200 ''OK'' [(''Content-Length'', to_string 9)] ''hi''"

lemma to_string_9: "to_string 9 = ''9''" "to_string 200 = ''200''"
  by code_simp+

lemma status_line_200: "status_line 200 ''OK'' = ''HTTP/1.1 200 OK''"
  by code_simp

lemma demo_short_props:
  "\<forall>h \<in> set [(''Content-Length'', to_string 9)]. header_ok h \<and> fst h \<noteq> []"
  "first_header [(''Content-Length'', to_string 9)] ''Content-Length'' = Some (to_string 9)"
  "header_contains (header_block (status_line 200 ''OK'') [(''Content-Length'', to_string 9)])
     ''Transfer-Encoding'' ''chunked'' = False"
  "length (as_bytes demo_short) \<le> 100"
  "CHR 0x0D \<notin> set ''OK''" "CHR '':'' \<notin> set ''OK''"
proof -
  show "\<forall>h \<in> set [(''Content-Length'', to_string 9)]. header_ok h \<and> fst h \<noteq> []"
    by (simp add: header_ok_def to_string_9)
  show "first_header [(''Content-Length'', to_string 9)] ''Content-Length'' = Some (to_string 9)"
    by (simp add: first_header_def)
  show "header_contains (header_block (status_line 200 ''OK'') [(''Content-Length'', to_string 9)])
     ''Transfer-Encoding'' ''chunked'' = False"
  proof -
    have "header_value (header_block (status_line 200 ''OK'') [(''Content-Length'', to_string 9)])
        ''Transfer-Encoding'' = first_header [(''Content-Length'', to_string 9)] ''Transfer-Encoding''"
      by (rule header_value_first)
        (simp_all add: header_ok_def to_string_9 status_line_200)
    also have "\<dots> = None" by code_simp
    finally show ?thesis by (simp add: header_contains_def)
  qed
  show "length (as_bytes demo_short) \<le> 100" by code_simp
qed simp_all


text \<open>
  A response cut short of its \<^verbatim>\<open>Content-Length\<close> is returned as a success: once the peer
  stops sending, nothing compares the body with the announced length.
\<close>

theorem http_truncation_accepted:
  assumes "wire_of t s = Some x" and "\<not> w_closed x" and "\<not> fail_send x"
    and "tick s = 0" and "clock s < clock s + word_of_int (rq_timeout_ms req)"
    and "as_view (wire_pending t s) = response_text c reason hs rest"
    and "length (wire_pending t s) \<le> kMaxResponseBytes"
    and "100 \<le> c" and "c \<le> 599" and "CHR 0x0D \<notin> set reason" and "CHR '':'' \<notin> set reason"
    and "\<forall>h \<in> set hs. header_ok h \<and> fst h \<noteq> []"
    and "first_header hs ''Content-Length'' = Some (to_string n)" and "n < 2 ^ 64"
    and "length rest < n"
    and "\<not> header_contains (header_block (status_line c reason) hs) ''Transfer-Encoding'' ''chunked''"
  shows "\<exists>resp s'. http_exchange scripted_net t req s = Some (Inr resp, s') \<and>
    body resp = as_bytes rest \<and> length (body resp) < n"
proof -
  have "\<not> body_complete p" if "strict_prefix p (as_view (wire_pending t s))" for p
    using body_incomplete [OF assms(12,10,11,13,14,15), of p c] that
    unfolding assms(6) by (simp add: strict_prefix_def)
  from exchange_scripted [OF assms(1-5,7) this] parse_response_text [OF assms(8-10,12), of rest]
    assms(15,16) show ?thesis unfolding assms(6) by auto
qed

lemma http_truncation_accepted_witness:
  "\<exists>resp s'. http_exchange scripted_net (Some 0) demo_request (demo_http demo_short) =
     Some (Inr resp, s') \<and> body resp = as_bytes ''hi'' \<and> length (body resp) < 9"
proof -
  have len: "length (wire_pending (Some 0) (demo_http demo_short)) \<le> kMaxResponseBytes"
    using demo_short_props(4) by (simp add: demo_http_facts kMaxResponseBytes_def)
  have v: "as_view (wire_pending (Some 0) (demo_http demo_short)) =
      response_text 200 ''OK'' [(''Content-Length'', to_string 9)] ''hi''"
    by (simp add: demo_http_facts demo_short_def)
  show ?thesis
    by (rule http_truncation_accepted [OF demo_http_facts(1-5) v len _ _ demo_short_props(5,6,1,2)])
      (simp_all only: demo_short_props(3), simp_all)
qed

text \<open>
  Looking a header up in a header block finds the first field of that name, whatever its
  case, and its value without leading blanks; a longer field name that only starts with it is
  not taken for it.
\<close>

theorem http_header_lookup:
  assumes "\<forall>h \<in> set hs. header_ok h" and "CHR 0x0D \<notin> set line" and "line \<noteq> []"
    and "CHR '':'' \<notin> set line" and "CHR '':'' \<notin> set name" and "name \<noteq> []"
  shows "header_value (header_block line hs) name = first_header hs name"
  using assms by (rule header_value_first)

lemma http_header_lookup_witness:
  "header_value (header_block ''HTTP/1.1 200'' [(''X-Id'', ''7''), (''X'', ''8'')]) ''x'' = Some ''8''"
proof -
  have "header_value (header_block ''HTTP/1.1 200'' [(''X-Id'', ''7''), (''X'', ''8'')]) ''x'' =
      first_header [(''X-Id'', ''7''), (''X'', ''8'')] ''x''"
    by (rule http_header_lookup) (simp_all add: header_ok_def)
  also have "\<dots> = Some ''8''" by code_simp
  finally show ?thesis .
qed

text \<open>
  Every request ends, and a response never holds more than 64 MiB of text: the status of
  one that is returned is between 100 and 599.
\<close>

theorem http_bounded:
  "(\<exists>r. http_exchange scripted_net t req s = Some r) \<and>
   (\<exists>q s'. read_loop scripted_net t dl ([], s) = Some (q, s') \<and>
      (\<forall>out. q = Inr out \<longrightarrow> length out \<le> kMaxResponseBytes)) \<and>
   (\<forall>resp. parse_response inp = Inr resp \<longrightarrow> 100 \<le> status resp \<and> status resp \<le> 599)"
proof (intro conjI allI impI)
  show "\<exists>r. http_exchange scripted_net t req s = Some r"
    using scripted.http_exchange_returns [of t req s] by auto
  show "\<exists>q s'. read_loop scripted_net t dl ([], s) = Some (q, s') \<and>
      (\<forall>out. q = Inr out \<longrightarrow> length out \<le> kMaxResponseBytes)"
    by (rule scripted.read_loop_bound) simp
qed (use parse_response_status in blast)+

lemma http_bounded_witness:
  "(\<exists>r. http_exchange scripted_net (Some 0) demo_request (demo_http demo_short) = Some r) \<and>
   (\<exists>q s'. read_loop scripted_net (Some 0) 9 ([], demo_http demo_short) = Some (q, s') \<and>
      (\<forall>out. q = Inr out \<longrightarrow> length out \<le> kMaxResponseBytes))"
  using http_bounded [of "Some 0" demo_request "demo_http demo_short" 9] by blast

end
