(* ===== verification/Ws_Frame.thy ===== *)
theory Ws_Frame
  imports Ws
begin

text \<open>
  What the WebSocket client leaves alone. A relation \<open>R\<close> between the world before and after
  that every operation of the network keeps is kept by every operation of \<^verbatim>\<open>vc_ws.cpp\<close>: the
  locale \<open>net_frame\<close> proves it once, its users choose the relation.
\<close>

locale net_frame =
  fixes net :: "('w, 't) net" and R :: "'w \<Rightarrow> 'w \<Rightarrow> bool"
  assumes R_refl [simp]: "R w w"
    and R_trans: "R w w' \<Longrightarrow> R w' w'' \<Longrightarrow> R w w''"
    and R_tsend: "tsend net t d w = (r, w') \<Longrightarrow> R w w'"
    and R_trecv: "trecv net t n ms w = (q, w') \<Longrightarrow> R w w'"
    and R_clock: "monotonic_ms net w = (now, w') \<Longrightarrow> R w w'"
    and R_random: "random_bytes net n w = (q, w') \<Longrightarrow> R w w'"
begin

lemma send_chunks_R: "send_chunks net t mk off d w = (r, w') \<Longrightarrow> R w w'"
proof (induction "length d" arbitrary: off d w rule: less_induct)
  case less
  let ?n = "min (length d) kChunk"
  obtain q w1 where s: "tsend net t (mask_from mk off (take ?n d)) w = (q, w1)" by fastforce
  show ?case
  proof (cases "d = []")
    case False
    then have l: "length (drop ?n d) < length d" by (simp add: kChunk_def)
    show ?thesis
    proof (cases q)
      case (Inr u)
      have "send_chunks net t mk (off + ?n) (drop ?n d) w1 = (r, w')"
        using less.prems False s Inr by (subst (asm) send_chunks.simps) (simp add: Let_def)
      from R_trans [OF R_tsend [OF s] less.hyps [OF l this]] show ?thesis .
    qed (use less.prems False s R_tsend [OF s] in
        \<open>subst (asm) send_chunks.simps, simp add: Let_def\<close>)
  qed (use less.prems in \<open>subst (asm) send_chunks.simps, simp\<close>)
qed

lemma send_frame_R: "send_frame net t opcode fin d w = (r, w') \<Longrightarrow> R w w'"
  by (auto simp: send_frame_def Let_def split: prod.splits sum.splits
      dest!: R_random R_tsend send_chunks_R intro: R_trans)

lemma send_frags_R: "send_frags net t opcode is_first d w = (r, w') \<Longrightarrow> R w w'"
proof (induction "length d" arbitrary: is_first d w rule: less_induct)
  case less
  let ?n = "min (length d) kFragSize"
  obtain q w1 where s: "send_frame net t (if is_first then opcode else 0) (?n = length d)
      (take ?n d) w = (q, w1)" by fastforce
  show ?case
  proof (cases "d = []")
    case False
    then have l: "length (drop ?n d) < length d" by (simp add: kFragSize_def)
    show ?thesis
    proof (cases q)
      case (Inr u)
      have "send_frags net t opcode False (drop ?n d) w1 = (r, w')"
        using less.prems False s Inr by (subst (asm) send_frags.simps) (simp add: Let_def)
      from R_trans [OF send_frame_R [OF s] less.hyps [OF l this]] show ?thesis .
    qed (use less.prems False s send_frame_R [OF s] in
        \<open>subst (asm) send_frags.simps, simp add: Let_def\<close>)
  qed (use less.prems in \<open>subst (asm) send_frags.simps, simp\<close>)
qed

lemma ws_send_R: "ws_send net ty d ws w = (r, w') \<Longrightarrow> R w w'"
  by (auto simp: ws_send_def Let_def split: if_splits dest: send_frame_R send_frags_R)

lemma send_ping_R: "send_ping net ws w = (r, w') \<Longrightarrow> R w w'"
  by (auto simp: send_ping_def split: if_splits dest: send_frame_R)

lemma send_close_R: "send_close net c ws w = (r, w') \<Longrightarrow> R w w'"
  by (auto simp: send_close_def split: if_splits dest: send_frame_R)

lemma read_more_R: "read_more net ms ws w = (r, ws', w') \<Longrightarrow> R w w'"
  by (auto simp: read_more_def split: prod.splits sum.splits if_splits dest: R_trecv)

lemma handle_frame_R:
  "handle_frame net f (a, ws, w) = Inl (a', ws', w') \<Longrightarrow> R w w'"
  "handle_frame net f (a, ws, w) = Inr (r, ws', w') \<Longrightarrow> R w w'"
  by (auto simp: handle_frame_def Let_def split: prod.splits if_splits dest: send_frame_R)

lemma recv_step_R:
  "recv_step net ms dl (a, ws, w) = Inl (a', ws', w') \<Longrightarrow> R w w'"
  "recv_step net ms dl (a, ws, w) = Inr (r, ws', w') \<Longrightarrow> R w w'"
  by (auto simp: recv_step_def Let_def split: prod.splits sum.splits option.splits if_splits
      dest!: R_clock read_more_R handle_frame_R intro: R_trans)

lemma recv_loop_R:
  assumes "recv_loop net ms dl st = Some y"
  shows "R (snd (snd st)) (snd (snd y))"
proof -
  have "net = net \<longrightarrow> R (snd (snd st)) (snd (snd y))"
  proof (rule recv_loop.raw_induct
      [where P = "\<lambda>n m d s y. n = net \<longrightarrow> R (snd (snd s)) (snd (snd y))", OF _ assms], rule impI, goal_cases)
    case (1 loop n m d s y)
    obtain a ws w where s: "s = (a, ws, w)" by (cases s)
    obtain q ws2 w2 where y: "y = (q, ws2, w2)" by (cases y)
    show ?case
    proof (cases "recv_step net m d s")
      case (Inl s1)
      obtain a1 ws1 w1 where s1: "s1 = (a1, ws1, w1)" by (cases s1)
      have "R w1 w2" using 1(1) 1(2,3) Inl s1 y by force
      moreover have "R w w1" using recv_step_R(1) Inl s s1 by blast
      ultimately show ?thesis using R_trans s y by auto
    next
      case (Inr o1)
      then have "o1 = y" using 1 by simp
      then show ?thesis using recv_step_R(2) Inr s y by auto
    qed
  qed
  then show ?thesis by simp
qed

lemma ws_recv_R: "ws_recv net ms ws w = Some (r, ws', w') \<Longrightarrow> R w w'"
  by (auto simp: ws_recv_def Let_def split: prod.splits if_splits
      dest!: R_clock recv_loop_R intro: R_trans)

lemma header_step_R:
  "header_step net dl (ws, w) = Inl (ws', w') \<Longrightarrow> R w w'"
  "header_step net dl (ws, w) = Inr (r, ws', w') \<Longrightarrow> R w w'"
  by (auto simp: header_step_def Let_def split: prod.splits sum.splits option.splits if_splits
      dest!: R_clock read_more_R intro: R_trans)

lemma header_loop_R:
  assumes "header_loop net dl st = Some y"
  shows "R (snd st) (snd (snd y))"
proof -
  have "net = net \<longrightarrow> R (snd st) (snd (snd y))"
  proof (rule header_loop.raw_induct
      [where P = "\<lambda>n d s y. n = net \<longrightarrow> R (snd s) (snd (snd y))", OF _ assms], rule impI, goal_cases)
    case (1 loop n d s y)
    obtain ws w where s: "s = (ws, w)" by (cases s)
    obtain q ws2 w2 where y: "y = (q, ws2, w2)" by (cases y)
    show ?case
    proof (cases "header_step net d s")
      case (Inl s1)
      obtain ws1 w1 where s1: "s1 = (ws1, w1)" by (cases s1)
      have "R w1 w2" using 1(1) 1(2,3) Inl s1 y by force
      moreover have "R w w1" using header_step_R(1) Inl s s1 by blast
      ultimately show ?thesis using R_trans s y by auto
    next
      case (Inr o1)
      then have "o1 = y" using 1 by simp
      then show ?thesis using header_step_R(2) Inr s y by auto
    qed
  qed
  then show ?thesis by simp
qed

lemma ws_upgrade_R: "ws_upgrade net t host pq hdrs ms w = Some (r, w') \<Longrightarrow> R w w'"
  by (auto simp: ws_upgrade_def Let_def split: prod.splits sum.splits option.splits if_splits
      dest!: R_clock R_random R_tsend header_loop_R) (blast intro: R_trans)+

end

end
