(* ===== verification/Relay.thy ===== *)
theory Relay
  imports Ws Json Sas "HOL-Library.Monad_Syntax"
begin

text \<open>
  \<^verbatim>\<open>core/src/vc_relay.cpp\<close>: the relay listener. What the template parameter \<^verbatim>\<open>Dialler\<close>, the
  callbacks and the operating system provide is the record \<open>relay_env\<close> of operations over a
  world; the fields of \<^verbatim>\<open>Listener\<close> that change are the record \<open>listener\<close>. The control channel is
  passed along beside the listener, as the code passes the reference bound to \<^verbatim>\<open>*ctrl_\<close>. A
  function that receives is an option, \<^const>\<open>None\<close> when it never returns; both loops of
  \<^verbatim>\<open>run\<close> are one step per turn under a partial function.
\<close>

definition kCtrlBodyMax :: nat where "kCtrlBodyMax = 60 * 1024"
definition kRecvTickMs :: int where "kRecvTickMs = 1000"
definition kPingInterval :: u64 where "kPingInterval = 30000"
definition kConnectTimeout :: int where "kConnectTimeout = 20000"
definition kBodyTimeout :: int where "kBodyTimeout = 30000"

record relay_config =
  rc_namespace_host :: string
  rc_hybrid_connection :: string
  rc_key_name :: string
  rc_key :: string
  rc_token_ttl_seconds :: u32

record relay_request =
  rr_id :: string
  rr_method :: string
  rr_target :: string
  rr_headers_json :: string
  rr_body :: bytes

record relay_response =
  rs_status_code :: int
  rs_status_desc :: string
  rs_body :: bytes
  rs_content_type :: string

definition default_response :: relay_response where
  "default_response =
     \<lparr>rs_status_code = 500, rs_status_desc = ''Internal Server Error'', rs_body = [], rs_content_type = []\<rparr>"

record ('w, 't) relay_env =
  re_net :: "('w, 't) net"
  re_time :: "'w \<Rightarrow> u64 \<times> 'w"
  re_dial :: "string \<Rightarrow> int \<Rightarrow> string \<Rightarrow> string \<Rightarrow> int \<Rightarrow> 'w \<Rightarrow> ('t ws result \<times> 'w) option"
  re_sleep :: "nat \<Rightarrow> 'w \<Rightarrow> 'w"
  re_stop :: "'w \<Rightarrow> bool \<times> 'w"
  re_on_request :: "(relay_request \<Rightarrow> relay_response \<Rightarrow> 'w \<Rightarrow> (bool \<times> relay_response) \<times> 'w) option"
  re_on_event :: "(string \<Rightarrow> int \<Rightarrow> string \<Rightarrow> 'w \<Rightarrow> 'w) option"
  re_debug :: "string \<Rightarrow> 'w \<Rightarrow> 'w"
  re_error_text :: "u32 \<Rightarrow> string"

record 't listener =
  l_ctrl :: "'t ws option"
  l_ttl :: u32
  l_token_renew_at :: u64
  l_token_expiry_wall :: u64
  l_next_ping_at :: u64

definition new_listener :: "relay_config \<Rightarrow> 't listener" where
  "new_listener cfg =
     \<lparr>l_ctrl = None,
      l_ttl = (if rc_token_ttl_seconds cfg \<noteq> 0 then rc_token_ttl_seconds cfg else 3600),
      l_token_renew_at = 0, l_token_expiry_wall = 0, l_next_ping_at = 0\<rparr>"

subsection \<open>Pure parts\<close>

definition renewal_due :: "u64 \<Rightarrow> u64 \<Rightarrow> u64 \<Rightarrow> u64 \<Rightarrow> u32 \<Rightarrow> bool" where
  "renewal_due now_mono mono_due now_wall expiry_wall ttl_seconds =
     (if now_mono \<ge> mono_due then True
      else if expiry_wall = 0 then False
      else
        (let margin = ucast (ttl_seconds div 4)
         in now_wall + margin \<ge> expiry_wall))"

record parsed_request =
  pr_id :: string
  pr_method :: string
  pr_target :: string
  pr_address :: string
  pr_has_method :: bool
  pr_has_address :: bool
  pr_has_body :: bool

definition parse_request_node :: "json \<Rightarrow> parsed_request" where
  "parse_request_node node =
     (let method_node = find_ci node ''method'';
          has_method = (case method_node of None \<Rightarrow> False | Some j \<Rightarrow> is_string j);
          addr_node = find_ci node ''address'';
          has_address = (case addr_node of None \<Rightarrow> False | Some j \<Rightarrow> is_string j)
      in \<lparr>pr_id = get_str node ''id'' [],
          pr_method = (if has_method then as_string (the method_node) [] else []),
          pr_target = get_str node ''requestTarget'' ''/'',
          pr_address = (if has_address then as_string (the addr_node) [] else []),
          pr_has_method = has_method,
          pr_has_address = has_address,
          pr_has_body = get_bool node ''body'' False\<rparr>)"

datatype response_channel = Control | Rendezvous

definition choose_response_channel :: "bool \<Rightarrow> nat \<Rightarrow> bool \<Rightarrow> response_channel" where
  "choose_response_channel on_control body_size has_address =
     (if on_control \<and> body_size > kCtrlBodyMax \<and> has_address then Rendezvous else Control)"

definition build_response_msg :: "string \<Rightarrow> relay_response \<Rightarrow> bool \<Rightarrow> json" where
  "build_response_msg request_id resp has_body =
     (let r = json_set (JObject []) ''requestId'' (JString request_id);
          r = json_set r ''statusCode'' (JNumber (dbl_of_int (rs_status_code resp)));
          r = (if rs_status_desc resp \<noteq> []
               then json_set r ''statusDescription'' (JString (rs_status_desc resp)) else r);
          hdrs = json_set (JObject []) ''Content-Type''
                   (JString (if rs_content_type resp = [] then ''application/json''
                             else rs_content_type resp));
          r = json_set r ''responseHeaders'' hdrs;
          r = json_set r ''body'' (JBool has_body)
      in json_set (JObject []) ''response'' r)"

definition renewal_period :: "u32 \<Rightarrow> u64" where
  "renewal_period ttl = ucast ttl * 1000 * 3 div 4"

subsection \<open>Tokens and connecting\<close>

definition emit :: "('w, 't) relay_env \<Rightarrow> string \<Rightarrow> int \<Rightarrow> string \<Rightarrow> 'w \<Rightarrow> 'w" where
  "emit env event c desc w = (case re_on_event env of None \<Rightarrow> w | Some f \<Rightarrow> f event c desc w)"

text \<open>The clock is read twice: once here, once inside \<^const>\<open>sas_token\<close>.\<close>

definition make_token ::
  "('w, 't) relay_env \<Rightarrow> relay_config \<Rightarrow> 't listener \<Rightarrow> 'w \<Rightarrow> string \<times> 't listener \<times> 'w" where
  "make_token env cfg l w =
     (let (t, w) = re_time env w;
          l = l\<lparr>l_token_expiry_wall := t + ucast (l_ttl l)\<rparr>;
          (t, w) = re_time env w
      in (sas_token (rc_namespace_host cfg) (rc_hybrid_connection cfg) (rc_key_name cfg)
            (rc_key cfg) (l_ttl l) t, l, w))"

definition ctrl_connect ::
  "('w, 't) relay_env \<Rightarrow> relay_config \<Rightarrow> 't listener \<Rightarrow> 'w \<Rightarrow> (status \<times> 't listener \<times> 'w) option" where
  "ctrl_connect env cfg l w =
     (let (token, l, w) = make_token env cfg l w
      in if token = [] then Some (Err Fail, l, w)
         else
           (let pth = ''/$hc/'' @ rc_hybrid_connection cfg @ ''?sb-hc-action=listen&sb-hc-token='' @
                      url_encode token
            in do {
              (r, w) \<leftarrow> re_dial env (rc_namespace_host cfg) 443 pth [] kConnectTimeout w;
              case r of
                Inl e \<Rightarrow> Some (Inl e, l, w)
              | Inr c \<Rightarrow>
                  (let (now, w) = monotonic_ms (re_net env) w
                   in Some (Inr (),
                        l\<lparr>l_ctrl := Some c, l_token_renew_at := now + renewal_period (l_ttl l),
                          l_next_ping_at := now + kPingInterval\<rparr>, w))
            }))"

definition renew_token_if_due ::
  "('w, 't) relay_env \<Rightarrow> relay_config \<Rightarrow> 't ws \<Rightarrow> 't listener \<Rightarrow> 'w \<Rightarrow> 't listener \<times> 'w" where
  "renew_token_if_due env cfg ctrl l w =
     (let (mono, w) = monotonic_ms (re_net env) w;
          (t, w) = re_time env w
      in if \<not> renewal_due mono (l_token_renew_at l) t (l_token_expiry_wall l) (l_ttl l) then (l, w)
         else
           (let (token, l, w) = make_token env cfg l w
            in if token = [] then (l, w)
               else
                 (let root = json_set (JObject []) ''renewToken''
                               (json_set (JObject []) ''token'' (JString token))
                  in case ws_send (re_net env) Msg_Text (as_bytes (dump root)) ctrl w of
                       (Inl _, w) \<Rightarrow> (l, w)
                     | (Inr _, w) \<Rightarrow>
                         (let (mono, w) = monotonic_ms (re_net env) w
                          in (l\<lparr>l_token_renew_at := mono + renewal_period (l_ttl l)\<rparr>,
                              emit env ''TOKEN_RENEWED'' 0 ''SAS token renewed'' w)))))"

definition rendezvous_path :: "url \<Rightarrow> string \<Rightarrow> string" where
  "rendezvous_path u token =
     (let p = path u @ (if query u \<noteq> [] then ''?'' @ query u else [])
      in if token = [] then p
         else p @ (if query u = [] then ''?'' else ''&'') @ ''sb-hc-token='' @ url_encode token)"

definition rendezvous_connect ::
  "('w, 't) relay_env \<Rightarrow> relay_config \<Rightarrow> 't listener \<Rightarrow> string \<Rightarrow> 'w \<Rightarrow>
     ('t ws result \<times> 't listener \<times> 'w) option" where
  "rendezvous_connect env cfg l address w =
     (case url_parse address of
        Inl e \<Rightarrow> Some (Inl e, l, w)
      | Inr u \<Rightarrow>
          (let (token, l, w) =
             (if query u = [] \<or> find_sub ''sb-hc-token='' (query u) = None
              then make_token env cfg l w else ([], l, w))
           in do {
             (r, w) \<leftarrow> re_dial env (host u) (port u) (rendezvous_path u token) [] kConnectTimeout w;
             Some (r, l, w)
           }))"

subsection \<open>Answering a request\<close>

definition send_response_over ::
  "('w, 't) relay_env \<Rightarrow> 't ws \<Rightarrow> string \<Rightarrow> relay_response \<Rightarrow> 'w \<Rightarrow> status \<times> 'w" where
  "send_response_over env ws request_id resp w =
     (let has_body = (rs_body resp \<noteq> []);
          out = dump (build_response_msg request_id resp has_body)
      in case ws_send (re_net env) Msg_Text (as_bytes out) ws w of
           (Inl e, w) \<Rightarrow> (Inl e, w)
         | (Inr _, w) \<Rightarrow>
             if has_body then ws_send (re_net env) Msg_Binary (rs_body resp) ws w else (Inr (), w))"

definition read_body ::
  "('w, 't) relay_env \<Rightarrow> 't ws \<Rightarrow> bool \<Rightarrow> 'w \<Rightarrow> (bytes result \<times> 't ws \<times> 'w) option" where
  "read_body env ws expected w =
     (if \<not> expected then Some (Inr [], ws, w)
      else do {
        (m, ws, w) \<leftarrow> ws_recv (re_net env) kBodyTimeout ws w;
        case m of
          Inl e \<Rightarrow> Some (Inl e, ws, w)
        | Inr m \<Rightarrow>
            if m_type m \<noteq> Msg_Binary then Some (Err Protocol, ws, w)
            else Some (Inr (m_payload m), ws, w)
      })"

definition invoke_handler ::
  "('w, 't) relay_env \<Rightarrow> relay_request \<Rightarrow> 'w \<Rightarrow> relay_response \<times> 'w" where
  "invoke_handler env req w =
     (case re_on_request env of
        None \<Rightarrow>
          (default_response\<lparr>rs_status_code := 501, rs_status_desc := ''Not Implemented''\<rparr>, w)
      | Some f \<Rightarrow>
          (let ((ok, resp), w) = f req default_response w
           in (if ok then resp else default_response, w)))"

definition deliver_response ::
  "('w, 't) relay_env \<Rightarrow> relay_config \<Rightarrow> 't listener \<Rightarrow> 't ws \<Rightarrow> parsed_request \<Rightarrow> relay_response \<Rightarrow>
     bool \<Rightarrow> 'w \<Rightarrow> (status \<times> 't listener \<times> 'w) option" where
  "deliver_response env cfg l ws pr resp on_control w =
     (if choose_response_channel on_control (length (rs_body resp)) (pr_has_address pr) = Rendezvous
      then do {
        (r, l, w) \<leftarrow> rendezvous_connect env cfg l (pr_address pr) w;
        case r of
          Inr rws \<Rightarrow>
            (let (src, w) = send_response_over env rws (pr_id pr) resp w;
                 (_, w) = send_close (re_net env) 1000 rws w
             in Some (src, l, w))
        | Inl _ \<Rightarrow>
            (let (src, w) = send_response_over env ws (pr_id pr) resp w in Some (src, l, w))
      }
      else
        (let (src, w) = send_response_over env ws (pr_id pr) resp w in Some (src, l, w)))"

text \<open>
  \<^verbatim>\<open>handle_request\<close> and \<^verbatim>\<open>handle_rendezvous_offer\<close> call each other, but only one level deep: on
  a rendezvous connection the first test of \<^verbatim>\<open>handle_request\<close> is false. The part behind that
  test is \<open>serve_request\<close>.
\<close>

definition serve_request ::
  "('w, 't) relay_env \<Rightarrow> relay_config \<Rightarrow> 't listener \<Rightarrow> 't ws \<Rightarrow> json \<Rightarrow> bool \<Rightarrow> 'w \<Rightarrow>
     ('t listener \<times> 't ws \<times> 'w) option" where
  "serve_request env cfg l ws node on_control w =
     (let pr = parse_request_node node
      in do {
        (body, ws, w) \<leftarrow> read_body env ws (pr_has_body pr) w;
        case body of
          Inl _ \<Rightarrow> Some (l, ws, emit env ''REQUEST_ERROR'' 0 ''failed reading request body'' w)
        | Inr body \<Rightarrow>
            (let headers_json = (case find_ci node ''requestHeaders'' of None \<Rightarrow> [] | Some h \<Rightarrow> dump h);
                 req = \<lparr>rr_id = pr_id pr, rr_method = pr_method pr, rr_target = pr_target pr,
                        rr_headers_json = headers_json, rr_body = body\<rparr>;
                 (resp, w) = invoke_handler env req w
             in do {
               (src, l, w) \<leftarrow> deliver_response env cfg l ws pr resp on_control w;
               Some (l, ws,
                 (case src of
                    Inl e \<Rightarrow> emit env ''RESPONSE_ERROR'' (error_code_int (code e))
                               (''failed to send response: '' @ error_detail (re_error_text env) e) w
                  | Inr _ \<Rightarrow> emit env ''RESPONSE_SENT'' (rs_status_code resp) (pr_target pr) w))
             })
      })"

definition handle_rendezvous_offer ::
  "('w, 't) relay_env \<Rightarrow> relay_config \<Rightarrow> 't listener \<Rightarrow> string \<Rightarrow> 'w \<Rightarrow> ('t listener \<times> 'w) option" where
  "handle_rendezvous_offer env cfg l address w =
     (let w = emit env ''RENDEZVOUS'' 0 address w
      in do {
        (r, l, w) \<leftarrow> rendezvous_connect env cfg l address w;
        case r of
          Inl e \<Rightarrow>
            Some (l, emit env ''RENDEZVOUS_FAILED'' (error_code_int (code e))
                       (address @ '': '' @ error_detail (re_error_text env) e) w)
        | Inr rws \<Rightarrow> do {
            (m, rws, w) \<leftarrow> ws_recv (re_net env) kBodyTimeout rws w;
            (l, rws, w) \<leftarrow>
              (case m of
                 Inl _ \<Rightarrow> Some (l, rws, w)
               | Inr m \<Rightarrow>
                   if m_type m \<noteq> Msg_Text then Some (l, rws, w)
                   else (case json_parse (as_view (m_payload m)) of
                           Inl _ \<Rightarrow> Some (l, rws, w)
                         | Inr root \<Rightarrow>
                             (case find_ci root ''request'' of
                                None \<Rightarrow> Some (l, rws, w)
                              | Some inner \<Rightarrow> serve_request env cfg l rws inner False w)));
            (let (_, w) = send_close (re_net env) 1000 rws w in Some (l, w))
          }
      })"

definition handle_request ::
  "('w, 't) relay_env \<Rightarrow> relay_config \<Rightarrow> 't listener \<Rightarrow> 't ws \<Rightarrow> json \<Rightarrow> bool \<Rightarrow> 'w \<Rightarrow>
     ('t listener \<times> 't ws \<times> 'w) option" where
  "handle_request env cfg l ws node on_control w =
     (let pr = parse_request_node node
      in if on_control \<and> \<not> pr_has_method pr
         then (if \<not> pr_has_address pr
               then Some (l, ws, emit env ''REQUEST_ERROR'' 0 ''request without method or address'' w)
               else do {
                 (l, w) \<leftarrow> handle_rendezvous_offer env cfg l (pr_address pr) w;
                 Some (l, ws, w)
               })
         else serve_request env cfg l ws node on_control w)"

definition handle_control_message ::
  "('w, 't) relay_env \<Rightarrow> relay_config \<Rightarrow> 't listener \<Rightarrow> 't ws \<Rightarrow> bytes \<Rightarrow> 'w \<Rightarrow>
     ('t listener \<times> 't ws \<times> 'w) option" where
  "handle_control_message env cfg l ctrl payload w =
     (case json_parse (as_view payload) of
        Inl _ \<Rightarrow> Some (l, ctrl, emit env ''PROTOCOL'' 0 ''unparsable control message'' w)
      | Inr root \<Rightarrow>
          (case find_ci root ''request'' of
             Some req \<Rightarrow> handle_request env cfg l ctrl req True w
           | None \<Rightarrow>
               if find_ci root ''accept'' \<noteq> None
               then Some (l, ctrl, emit env ''ACCEPT_IGNORED'' 0
                      ''WebSocket accept offers are not supported by this listener'' w)
               else
                 (let w = emit env ''CONTROL'' 0 ''control message received'' w
                  in Some (l, ctrl, re_debug env (''RELAY CONTROL payload: '' @ dump root) w))))"

subsection \<open>The run loop\<close>

definition ping_if_due ::
  "('w, 't) relay_env \<Rightarrow> 't ws \<Rightarrow> 't listener \<Rightarrow> 'w \<Rightarrow> 't listener \<times> 'w" where
  "ping_if_due env ctrl l w =
     (let (now, w) = monotonic_ms (re_net env) w
      in if now \<ge> l_next_ping_at l
         then (let (_, w) = send_ping (re_net env) ctrl w
               in (l\<lparr>l_next_ping_at := now + kPingInterval\<rparr>, w))
         else (l, w))"

type_synonym ('w, 't) ctrl_state = "'t ws \<times> 't listener \<times> 'w"

text \<open>One turn of the inner loop: go on, or leave it with the control channel as it is.\<close>

definition control_step ::
  "('w, 't) relay_env \<Rightarrow> relay_config \<Rightarrow> ('w, 't) ctrl_state \<Rightarrow>
     (('w, 't) ctrl_state + ('w, 't) ctrl_state) option" where
  "control_step env cfg st =
     (let (ctrl, l, w) = st;
          (s, w) = re_stop env w
      in if s then Some (Inr (ctrl, l, w))
         else
           (let (l, w) = renew_token_if_due env cfg ctrl l w;
                (l, w) = ping_if_due env ctrl l w
            in do {
              (m, ctrl, w) \<leftarrow> ws_recv (re_net env) kRecvTickMs ctrl w;
              case m of
                Inl e \<Rightarrow>
                  if error_is e Timeout then Some (Inl (ctrl, l, w))
                  else Some (Inr (ctrl, l, emit env ''DISCONNECTED'' (error_code_int (code e))
                         (''control channel lost: '' @ error_detail (re_error_text env) e) w))
              | Inr m \<Rightarrow>
                  if m_type m = Msg_Close
                  then Some (Inr (ctrl, l, emit env ''DISCONNECTED'' (error_code_int Closed)
                         ''control channel lost'' w))
                  else if m_type m = Msg_Text
                  then do {
                    (l, ctrl, w) \<leftarrow> handle_control_message env cfg l ctrl (m_payload m) w;
                    Some (Inl (ctrl, l, w))
                  }
                  else Some (Inl (ctrl, l, w))
            }))"

partial_function (option) control_loop ::
  "('w, 't) relay_env \<Rightarrow> relay_config \<Rightarrow> ('w, 't) ctrl_state \<Rightarrow> ('w, 't) ctrl_state option" where
  "control_loop env cfg st =
     (case control_step env cfg st of
        None \<Rightarrow> None
      | Some (Inl st') \<Rightarrow> control_loop env cfg st'
      | Some (Inr r) \<Rightarrow> Some r)"

function backoff_wait :: "('w, 't) relay_env \<Rightarrow> nat \<Rightarrow> nat \<Rightarrow> 'w \<Rightarrow> 'w" where
  "backoff_wait env backoff waited w =
     (if waited < backoff
      then (let (s, w) = re_stop env w
            in if s then w else backoff_wait env backoff (waited + 100) (re_sleep env 100 w))
      else w)"
  by pat_completeness auto
termination
  by (relation "measure (\<lambda>(env, backoff, waited, w). backoff - waited)") auto

declare backoff_wait.simps [simp del]

definition next_backoff :: "nat \<Rightarrow> nat" where
  "next_backoff b = (if b < 60000 then b * 2 else b)"

type_synonym ('w, 't) run_state = "nat \<times> 't listener \<times> 'w"

text \<open>One turn of the outer loop: the backoff, the listener and the world it leaves.\<close>

definition run_step ::
  "('w, 't) relay_env \<Rightarrow> relay_config \<Rightarrow> ('w, 't) run_state \<Rightarrow>
     (('w, 't) run_state + 'w) option" where
  "run_step env cfg st =
     (let (backoff, l, w) = st;
          (s, w) = re_stop env w
      in if s then Some (Inr w)
         else
           (let w = emit env ''CONNECTING'' 0 (rc_namespace_host cfg) w
            in do {
              (cc, l, w) \<leftarrow> ctrl_connect env cfg l w;
              case cc of
                Inl e \<Rightarrow>
                  (let w = emit env ''CONNECT_FAILED'' (error_code_int (code e))
                             (error_detail (re_error_text env) e @ '', will retry'') w
                   in Some (Inl (next_backoff backoff, l, backoff_wait env backoff 0 w)))
              | Inr _ \<Rightarrow>
                  (let w = emit env ''CONNECTED'' 200 ''listening on control channel'' w
                   in case l_ctrl l of
                        None \<Rightarrow>
                          Some (Inl (1000, l, emit env ''DISCONNECTED'' (error_code_int Fail)
                            ''control channel vanished after connect'' w))
                      | Some ctrl \<Rightarrow> do {
                          (ctrl, l, w) \<leftarrow> control_loop env cfg (ctrl, l, w);
                          (let (s, w) = re_stop env w;
                               w = (if s then snd (send_close (re_net env) 1000 ctrl w) else w)
                           in Some (Inl (1000, l\<lparr>l_ctrl := None\<rparr>, w)))
                        })
            }))"

partial_function (option) run_loop ::
  "('w, 't) relay_env \<Rightarrow> relay_config \<Rightarrow> ('w, 't) run_state \<Rightarrow> 'w option" where
  "run_loop env cfg st =
     (case run_step env cfg st of
        None \<Rightarrow> None
      | Some (Inl st') \<Rightarrow> run_loop env cfg st'
      | Some (Inr w) \<Rightarrow> Some w)"

definition listener_run ::
  "('w, 't) relay_env \<Rightarrow> relay_config \<Rightarrow> 'w \<Rightarrow> (status \<times> 'w) option" where
  "listener_run env cfg w = do {
     w \<leftarrow> run_loop env cfg (1000, new_listener cfg, w);
     Some (Inr (), emit env ''STOPPED'' 0 ''listener stopped'' w)
   }"

definition relay_listen_with ::
  "('w, 't) relay_env \<Rightarrow> relay_config \<Rightarrow> 'w \<Rightarrow> (status \<times> 'w) option" where
  "relay_listen_with env cfg w =
     (if rc_namespace_host cfg = [] \<or> rc_hybrid_connection cfg = [] then Some (Err InvalidArg, w)
      else listener_run env cfg w)"

end
