(* ===== verification/Relay_Facts.thy ===== *)
theory Relay_Facts
  imports Relay Ws_Facts Ws_Frame
begin

text \<open>
  What the listener promises its host: the order of the events it reports, stated as a state
  machine, and that it ends once it is asked to stop. Both are proved in the locale
  \<open>relay_host\<close>, whose laws are what the environment (dialler, callbacks, clocks) keeps.
\<close>

subsection \<open>The reported session\<close>

datatype phase = Idle | Dialling | Up | Stopped

inductive session_step :: "phase \<Rightarrow> string \<Rightarrow> phase \<Rightarrow> bool" where
  connecting: "p = Idle \<or> p = Up \<Longrightarrow> session_step p ''CONNECTING'' Dialling"
| failed: "session_step Dialling ''CONNECT_FAILED'' Idle"
| connected: "session_step Dialling ''CONNECTED'' Up"
| served: "ev \<in> {''TOKEN_RENEWED'', ''REQUEST_ERROR'', ''RENDEZVOUS'', ''RENDEZVOUS_FAILED'',
      ''RESPONSE_ERROR'', ''RESPONSE_SENT'', ''PROTOCOL'', ''ACCEPT_IGNORED'', ''CONTROL''} \<Longrightarrow>
    session_step Up ev Up"
| lost: "session_step Up ''DISCONNECTED'' Idle"
| stopped: "p = Idle \<or> p = Up \<Longrightarrow> session_step p ''STOPPED'' Stopped"

inductive moves :: "phase \<Rightarrow> string list \<Rightarrow> phase \<Rightarrow> bool" where
  moves_Nil: "moves p [] p"
| moves_Cons: "session_step p ev q \<Longrightarrow> moves q es r \<Longrightarrow> moves p (ev # es) r"

inductive_cases moves_NilE [elim!]: "moves p [] q"
inductive_cases moves_ConsE [elim!]: "moves p (ev # es) q"
inductive_simps moves_Cons_iff: "moves p (ev # es) q"
inductive_cases session_Stopped: "session_step Stopped ev q"

lemma moves_append: "moves p es q \<Longrightarrow> moves q fs r \<Longrightarrow> moves p (es @ fs) r"
  by (induction rule: moves.induct) (auto intro: moves.intros)

lemma moves_split: "moves p (es @ fs) r \<Longrightarrow> \<exists>q. moves p es q \<and> moves q fs r"
  by (induction es arbitrary: p) (auto intro: moves.intros, blast intro: moves.intros)

text \<open>The events of served requests are reported only while the session is up.\<close>

lemma session_step_served:
  assumes "session_step p ev q" and "ev = ''RESPONSE_SENT'' \<or> ev = ''REQUEST_ERROR'' \<or> ev = ''TOKEN_RENEWED''"
  shows "p = Up \<and> q = Up"
  using assms by (auto elim: session_step.cases)

text \<open>A session that is up has reported \<^verbatim>\<open>CONNECTED\<close>, and no \<^verbatim>\<open>DISCONNECTED\<close> since.\<close>

lemma moves_Up:
  assumes "moves Idle es Up"
  shows "\<exists>before after. es = before @ ''CONNECTED'' # after \<and> ''DISCONNECTED'' \<notin> set after \<and>
    ''CONNECTED'' \<notin> set after"
  using assms
proof (induction es rule: rev_induct)
  case (snoc ev es)
  from moves_split [OF snoc.prems] obtain q where q: "moves Idle es q" "session_step q ev Up"
    by auto
  from q(2) consider "ev = ''CONNECTED''" | "q = Up" "ev \<noteq> ''CONNECTED''" "ev \<noteq> ''DISCONNECTED''"
    by (cases rule: session_step.cases) auto
  then show ?case
  proof cases
    case 2
    with snoc.IH q(1) obtain b a where "es = b @ ''CONNECTED'' # a" "''DISCONNECTED'' \<notin> set a"
      "''CONNECTED'' \<notin> set a" by blast
    then have "es @ [ev] = b @ ''CONNECTED'' # (a @ [ev])" "''DISCONNECTED'' \<notin> set (a @ [ev])"
      "''CONNECTED'' \<notin> set (a @ [ev])" using 2 by auto
    then show ?thesis by blast
  qed force
qed auto

subsection \<open>The host\<close>

locale relay_host = transport "re_net env" sent pending + net_frame "re_net env" R
  for env :: "('w, 't) relay_env" and sent :: "'t \<Rightarrow> 'w \<Rightarrow> bytes" and pending R +
  fixes trace :: "'w \<Rightarrow> string list" and left :: "'w \<Rightarrow> nat"
  assumes R_trace: "R w w' \<Longrightarrow> trace w' = trace w"
    and R_left: "R w w' \<Longrightarrow> left w' \<le> left w"
    and R_time: "re_time env w = (now, w') \<Longrightarrow> R w w'"
    and R_sleep: "R w (re_sleep env n w)"
    and R_debug: "R w (re_debug env msg w)"
    and R_request: "re_on_request env = Some f \<Longrightarrow> f rq rs w = (r, w') \<Longrightarrow> R w w'"
    and R_dial: "re_dial env h p pq hs ms w = Some (q, w') \<Longrightarrow> R w w'"
    and R_stop: "re_stop env w = (s, w') \<Longrightarrow> R w w'"
    and dial_returns: "re_dial env h p pq hs ms w \<noteq> None"
    and stop_left: "re_stop env w = (False, w') \<Longrightarrow> left w' < left w"
    and event_trace: "trace (emit env ev c d w) = trace w @ [ev]"
    and event_left: "left (emit env ev c d w) \<le> left w"
begin

definition grows :: "phase \<Rightarrow> 'w \<Rightarrow> phase \<Rightarrow> 'w \<Rightarrow> bool" where
  "grows p w q w' \<longleftrightarrow> left w' \<le> left w \<and> (\<exists>es. trace w' = trace w @ es \<and> moves p es q)"

lemma quiet: "R w w' \<Longrightarrow> grows p w p w'"
  using R_trace [of w w'] R_left [of w w'] by (auto simp: grows_def intro: moves.intros)

lemma grows_refl: "grows p w p w"
  by (simp add: quiet)

lemma grows_trans [trans]: "grows p w q w' \<Longrightarrow> grows q w' r w'' \<Longrightarrow> grows p w r w''"
  by (fastforce simp: grows_def intro: moves_append)

lemma emit_grows: "session_step p ev q \<Longrightarrow> grows p w q (emit env ev c d w)"
  using event_trace [of ev c d w] event_left [of ev c d w]
  by (auto simp: grows_def intro!: exI [of _ "[ev]"] intro: moves.intros)

lemma emit_served:
  assumes "ev \<in> {''TOKEN_RENEWED'', ''REQUEST_ERROR'', ''RENDEZVOUS'', ''RENDEZVOUS_FAILED'',
      ''RESPONSE_ERROR'', ''RESPONSE_SENT'', ''PROTOCOL'', ''ACCEPT_IGNORED'', ''CONTROL''}"
    and "grows Up w0 Up w"
  shows "grows Up w0 Up (emit env ev c d w)"
  using emit_grows [OF served [OF assms(1)]] assms(2) grows_trans by blast

lemma make_token_R: "make_token env cfg l w = (tok, l', w') \<Longrightarrow> R w w'"
  by (auto simp: make_token_def Let_def split: prod.splits dest!: R_time intro: R_trans)

lemma ctrl_connect_R: "ctrl_connect env cfg l w = Some (r, l', w') \<Longrightarrow> R w w'"
  by (auto simp: ctrl_connect_def Let_def split: prod.splits if_splits sum.splits Option.bind_splits
      dest!: R_clock R_dial make_token_R intro: R_trans)

lemma ctrl_connect_returns: "ctrl_connect env cfg l w \<noteq> None"
  by (auto simp: ctrl_connect_def Let_def dial_returns split: prod.splits sum.splits Option.bind_splits)

lemma rendezvous_connect_R: "rendezvous_connect env cfg l a w = Some (r, l', w') \<Longrightarrow> R w w'"
  by (auto simp: rendezvous_connect_def Let_def split: prod.splits if_splits sum.splits Option.bind_splits
      dest!: R_dial make_token_R intro: R_trans)

lemma rendezvous_connect_returns: "rendezvous_connect env cfg l a w \<noteq> None"
  by (auto simp: rendezvous_connect_def Let_def dial_returns
      split: prod.splits sum.splits Option.bind_splits)

lemma send_response_over_R: "send_response_over env ws rid resp w = (r, w') \<Longrightarrow> R w w'"
  by (auto simp: send_response_over_def Let_def split: prod.splits if_splits sum.splits
      dest!: ws_send_R intro: R_trans)

lemma invoke_handler_R: "invoke_handler env req w = (resp, w') \<Longrightarrow> R w w'"
  by (auto simp: invoke_handler_def Let_def split: prod.splits option.splits dest!: R_request)

lemma recv_body_returns: "ws_recv (re_net env) kBodyTimeout ws w \<noteq> None"
  by (rule ws_recv_returns) (simp add: kBodyTimeout_def)

lemma read_body_R: "read_body env ws ex w = Some (r, ws', w') \<Longrightarrow> R w w'"
  by (auto simp: read_body_def split: if_splits sum.splits Option.bind_splits dest!: ws_recv_R)

lemma read_body_returns: "read_body env ws ex w \<noteq> None"
  using ws_recv_returns [of kBodyTimeout ws w]
  by (auto simp: read_body_def kBodyTimeout_def split: sum.splits Option.bind_splits)

lemma deliver_response_R:
  "deliver_response env cfg l ws pr resp b w = Some (r, l', w') \<Longrightarrow> R w w'"
  by (auto simp: deliver_response_def Let_def split: prod.splits if_splits sum.splits Option.bind_splits
      dest!: rendezvous_connect_R send_response_over_R send_close_R intro: R_trans)

lemma deliver_response_returns: "deliver_response env cfg l ws pr resp b w \<noteq> None"
  by (auto simp: deliver_response_def Let_def rendezvous_connect_returns
      split: prod.splits sum.splits Option.bind_splits)

lemma renew_token_grows:
  assumes "renew_token_if_due env cfg ctrl l w = (l', w')"
  shows "grows Up w Up w'"
  using assms
  by (auto simp: renew_token_if_due_def Let_def split: prod.splits if_splits sum.splits
      dest!: R_clock R_time make_token_R ws_send_R intro!: emit_served intro: quiet R_trans)

lemma ping_if_due_R: "ping_if_due env ctrl l w = (l', w') \<Longrightarrow> R w w'"
  by (auto simp: ping_if_due_def Let_def split: prod.splits if_splits dest!: R_clock send_ping_R
      intro: R_trans)

lemma serve_request_grows:
  assumes "serve_request env cfg l ws node b w = Some (l', ws', w')"
  shows "grows Up w Up w'"
proof -
  obtain body ws1 w1 where b: "read_body env ws (pr_has_body (parse_request_node node)) w =
      Some (body, ws1, w1)"
    using assms by (cases "read_body env ws (pr_has_body (parse_request_node node)) w")
      (auto simp: serve_request_def Let_def)
  note r1 = read_body_R [OF b]
  show ?thesis
  proof (cases body)
    case (Inl e)
    then show ?thesis using assms b quiet [OF r1]
      by (auto simp: serve_request_def Let_def intro!: emit_served)
  next
    case (Inr d)
    let ?h = "case find_ci node ''requestHeaders'' of None \<Rightarrow> [] | Some h \<Rightarrow> dump h"
    let ?pr = "parse_request_node node"
    obtain resp w2 where i: "invoke_handler env \<lparr>rr_id = pr_id ?pr, rr_method = pr_method ?pr,
        rr_target = pr_target ?pr, rr_headers_json = ?h, rr_body = d\<rparr> w1 = (resp, w2)" by fastforce
    obtain src l2 w3 where v: "deliver_response env cfg l ws1 ?pr resp b w2 = Some (src, l2, w3)"
      using deliver_response_returns by fastforce
    have "R w w3" using r1 invoke_handler_R [OF i] deliver_response_R [OF v] R_trans by blast
    then show ?thesis using assms b Inr i v quiet
      by (auto simp: serve_request_def Let_def split: sum.splits intro!: emit_served)
  qed
qed

lemma serve_request_returns: "serve_request env cfg l ws node b w \<noteq> None"
  by (auto simp: serve_request_def Let_def read_body_returns deliver_response_returns
      split: prod.splits sum.splits Option.bind_splits)

lemma handle_rendezvous_offer_grows:
  assumes "handle_rendezvous_offer env cfg l a w = Some (l', w')"
  shows "grows Up w Up w'"
proof -
  let ?w = "emit env ''RENDEZVOUS'' 0 a w"
  have 0: "grows Up w Up ?w" by (rule emit_served) (auto intro: quiet)
  obtain r l1 w1 where c: "rendezvous_connect env cfg l a ?w = Some (r, l1, w1)"
    using rendezvous_connect_returns by fastforce
  have 1: "grows Up w Up w1"
    using 0 quiet [OF rendezvous_connect_R [OF c]] grows_trans by blast
  show ?thesis
  proof (cases r)
    case (Inl e)
    then show ?thesis using assms c 1
      by (auto simp: handle_rendezvous_offer_def Let_def intro!: emit_served)
  next
    case (Inr rws)
    obtain m rws2 w2 where m: "ws_recv (re_net env) kBodyTimeout rws w1 = Some (m, rws2, w2)"
      using ws_recv_returns [of kBodyTimeout rws w1] by (auto simp: kBodyTimeout_def)
    have 2: "grows Up w Up w2" using 1 quiet [OF ws_recv_R [OF m]] grows_trans by blast
    have close: "grows Up w Up w4"
      if "send_close (re_net env) 1000 ws3 w3 = (q, w4)" "grows Up w Up w3" for ws3 w3 q w4
      using that quiet [OF send_close_R] grows_trans by blast
    have served: "grows Up w Up w3"
      if "serve_request env cfg l1 rws2 j False w2 = Some (l3, ws3, w3)" for j l3 ws3 w3
      using serve_request_grows [OF that] 2 grows_trans by blast
    show ?thesis using assms c Inr m 2
      by (auto simp: handle_rendezvous_offer_def Let_def
          split: sum.splits if_splits option.splits prod.splits Option.bind_splits
          intro: close dest: served)
  qed
qed

lemma handle_rendezvous_offer_returns: "handle_rendezvous_offer env cfg l a w \<noteq> None"
  by (auto simp: handle_rendezvous_offer_def Let_def rendezvous_connect_returns serve_request_returns
      recv_body_returns simp del: not_None_eq
      split: prod.splits sum.splits option.splits Option.bind_splits)

lemma handle_request_grows:
  "handle_request env cfg l ws node b w = Some (l', ws', w') \<Longrightarrow> grows Up w Up w'"
  by (auto simp: handle_request_def Let_def split: if_splits Option.bind_splits
      dest: serve_request_grows handle_rendezvous_offer_grows intro!: emit_served grows_refl)

lemma handle_request_returns: "handle_request env cfg l ws node b w \<noteq> None"
  by (auto simp: handle_request_def Let_def serve_request_returns handle_rendezvous_offer_returns
      simp del: not_None_eq split: prod.splits Option.bind_splits)

lemma handle_control_message_grows:
  assumes "handle_control_message env cfg l c d w = Some (l', c', w')"
  shows "grows Up w Up w'"
proof -
  have "grows Up w Up (re_debug env msg (emit env ''CONTROL'' 0 desc w))" for msg desc
    by (rule grows_trans [OF emit_served quiet [OF R_debug]]) (simp_all add: grows_refl)
  then show ?thesis using assms
    by (auto simp: handle_control_message_def Let_def split: sum.splits option.splits if_splits
        dest: handle_request_grows intro!: emit_served grows_refl)
qed

lemma handle_control_message_returns: "handle_control_message env cfg l c d w \<noteq> None"
  by (auto simp: handle_control_message_def Let_def handle_request_returns
      simp del: not_None_eq split: sum.splits option.splits)

text \<open>One turn of the inner loop: it goes on only when the host was not asked to stop.\<close>

definition ends_up :: "'w \<Rightarrow> 'w \<Rightarrow> bool" where
  "ends_up w w' \<longleftrightarrow> grows Up w Up w' \<or> grows Up w Idle w'"

lemma control_step_cases:
  obtains ctrl' l' w' where
    "control_step env cfg (ctrl, l, w) = Some (Inl (ctrl', l', w'))" "grows Up w Up w'" "left w' < left w"
  | ctrl' l' w' where
    "control_step env cfg (ctrl, l, w) = Some (Inr (ctrl', l', w'))" "ends_up w w'"
proof -
  obtain s w0 where s: "re_stop env w = (s, w0)" by fastforce
  show ?thesis
  proof (cases s)
    case True
    then show ?thesis using that(2) s quiet [OF R_stop [OF s]]
      by (simp add: control_step_def ends_up_def)
  next
    case False
    have less: "left w0 < left w" using stop_left [of w w0] s False by simp
    obtain l1 w1 where r: "renew_token_if_due env cfg ctrl l w0 = (l1, w1)" by fastforce
    obtain l2 w2 where p: "ping_if_due env ctrl l1 w1 = (l2, w2)" by fastforce
    obtain m ctrl3 w3 where m: "ws_recv (re_net env) kRecvTickMs ctrl w2 = Some (m, ctrl3, w3)"
      using ws_recv_returns [of kRecvTickMs ctrl w2] by (auto simp: kRecvTickMs_def)
    have g: "grows Up w0 Up w3"
      using renew_token_grows [OF r] quiet [OF ping_if_due_R [OF p]] quiet [OF ws_recv_R [OF m]]
        grows_trans by blast
    have g': "grows Up w Up w3" using quiet [OF R_stop [OF s]] g grows_trans by blast
    have lost: "grows Up w Idle (emit env ''DISCONNECTED'' c d w3)" for c d
      using g' emit_grows [OF session_step.lost] grows_trans by blast
    have l3: "left w3 < left w" using g less by (simp add: grows_def)
    note step = control_step_def s False r p m
    show ?thesis
    proof (cases m)
      case (Inl e)
      show ?thesis
      proof (cases "error_is e Timeout")
        case True
        then show ?thesis using that(1) g' l3 Inl by (simp add: step)
      next
        case False
        then show ?thesis using that(2) lost Inl by (simp add: step ends_up_def)
      qed
    next
      case (Inr msg)
      consider "m_type msg = Msg_Close" | "m_type msg = Msg_Text" | "m_type msg = Msg_Binary"
        by (cases "m_type msg") auto
      then show ?thesis
      proof cases
        case 1
        then show ?thesis using that(2) lost Inr by (simp add: step ends_up_def)
      next
        case 2
        obtain l4 c4 w4 where h: "handle_control_message env cfg l2 ctrl3 (m_payload msg) w3 =
            Some (l4, c4, w4)" using handle_control_message_returns by fastforce
        note g4 = handle_control_message_grows [OF h]
        have "left w4 < left w" using g4 l3 by (simp add: grows_def)
        moreover have "grows Up w Up w4" using g' g4 grows_trans by blast
        ultimately show ?thesis using that(1) Inr 2 h by (simp add: step)
      next
        case 3
        then show ?thesis using that(1) g' l3 Inr by (simp add: step)
      qed
    qed
  qed
qed

lemma control_loop_ends:
  "\<exists>ctrl' l' w'. control_loop env cfg (ctrl, l, w) = Some (ctrl', l', w') \<and> ends_up w w'"
proof (induction "left w" arbitrary: ctrl l w rule: less_induct)
  case less
  show ?case
  proof (cases rule: control_step_cases [of cfg ctrl l w])
    case (1 ctrl' l' w')
    from less.hyps [OF 1(3), of ctrl' l'] obtain c2 l2 w2 where
      "control_loop env cfg (ctrl', l', w') = Some (c2, l2, w2)" "ends_up w' w2" by blast
    then show ?thesis using 1(1,2) grows_trans
      unfolding ends_up_def by (subst control_loop.simps) auto
  next
    case (2 ctrl' l' w')
    then show ?thesis by (subst control_loop.simps) simp
  qed
qed

lemma backoff_wait_R: "R w (backoff_wait env b n w)"
proof (induction "b - n" arbitrary: n w rule: less_induct)
  case less
  obtain s w1 where s: "re_stop env w = (s, w1)" by fastforce
  note r = R_stop [OF s]
  show ?case
  proof (cases "n < b \<and> \<not> s")
    case True
    then have "R (re_sleep env 100 w1) (backoff_wait env b (n + 100) (re_sleep env 100 w1))"
      using less.hyps [of "n + 100" "re_sleep env 100 w1"] by auto
    then have "R w (backoff_wait env b (n + 100) (re_sleep env 100 w1))"
      using r R_sleep R_trans by blast
    then show ?thesis using s True by (subst backoff_wait.simps) simp
  qed (use r s in \<open>subst backoff_wait.simps, auto\<close>)
qed

definition ready :: "phase \<Rightarrow> bool" where
  "ready p \<longleftrightarrow> p = Idle \<or> p = Up"

lemma run_step_cases:
  assumes "ready p"
  obtains b' l' w' q where
    "run_step env cfg (b, l, w) = Some (Inl (b', l', w'))" "grows p w q w'" "ready q"
    "left w' < left w" "b' = 1000 \<or> b' = next_backoff b"
  | w' where "run_step env cfg (b, l, w) = Some (Inr w')" "R w w'" "re_stop env w = (True, w')"
proof -
  obtain s w0 where s: "re_stop env w = (s, w0)" by fastforce
  show ?thesis
  proof (cases s)
    case True
    then show ?thesis using that(2) s R_stop [OF s] by (simp add: run_step_def)
  next
    case False
    have less: "left w0 < left w" using stop_left [of w w0] s False by simp
    let ?w1 = "emit env ''CONNECTING'' 0 (rc_namespace_host cfg) w0"
    have "session_step p ''CONNECTING'' Dialling"
      using assms session_step.connecting by (auto simp: ready_def)
    from emit_grows [OF this] have d: "grows p w0 Dialling ?w1" .
    obtain cc l2 w2 where c: "ctrl_connect env cfg l ?w1 = Some (cc, l2, w2)"
      using ctrl_connect_returns by fastforce
    have g: "grows p w0 Dialling w2" using d quiet [OF ctrl_connect_R [OF c]] grows_trans by blast
    have via: "grows p w q w3" if "grows p w0 q w3" for q w3
      using that quiet [OF R_stop [OF s]] grows_trans by blast
    have lt: "left w3 < left w" if "grows p w0 q w3" for q w3
      using that less by (simp add: grows_def)
    note step = run_step_def s False c
    show ?thesis
    proof (cases cc)
      case (Inl e)
      let ?w3 = "emit env ''CONNECT_FAILED'' (error_code_int (code e))
        (error_detail (re_error_text env) e @ '', will retry'') w2"
      have "grows p w0 Idle (backoff_wait env b 0 ?w3)"
        by (rule grows_trans [OF grows_trans [OF g emit_grows [OF session_step.failed]]
              quiet [OF backoff_wait_R]])
      note h = this
      show ?thesis
        by (rule that(1) [OF _ via [OF h] _ lt [OF h]]) (simp_all add: step Inl ready_def, simp_all)
    next
      case (Inr u)
      let ?w3 = "emit env ''CONNECTED'' 200 ''listening on control channel'' w2"
      have g3: "grows p w0 Up ?w3" using g emit_grows [OF session_step.connected] grows_trans by blast
      show ?thesis
      proof (cases "l_ctrl l2")
        case None
        have "grows p w0 Idle (emit env ''DISCONNECTED'' (error_code_int Fail)
            ''control channel vanished after connect'' ?w3)"
          using g3 emit_grows [OF session_step.lost] grows_trans by blast
        note h = this
        show ?thesis
          by (rule that(1) [OF _ via [OF h] _ lt [OF h]]) (simp_all add: step Inr None ready_def, simp_all)
      next
        case (Some ctrl)
        obtain ctrl4 l4 w4 where k: "control_loop env cfg (ctrl, l2, ?w3) = Some (ctrl4, l4, w4)"
          and e: "ends_up ?w3 w4" using control_loop_ends by blast
        from e g3 obtain q where q: "ready q" "grows p w0 q w4"
          unfolding ends_up_def ready_def using grows_trans by blast
        obtain s5 w5 where s5: "re_stop env w4 = (s5, w5)" by fastforce
        have "R w5 (if s5 then snd (send_close (re_net env) 1000 ctrl4 w5) else w5)"
          using send_close_R [of 1000 ctrl4 w5] by (cases "send_close (re_net env) 1000 ctrl4 w5") auto
        then have "grows p w0 q (if s5 then snd (send_close (re_net env) 1000 ctrl4 w5) else w5)"
          using q(2) quiet [OF R_trans [OF R_stop [OF s5]]] grows_trans by blast
        note h = this
        show ?thesis
          by (rule that(1) [OF _ via [OF h] q(1) lt [OF h]]) (simp_all add: step Inr Some k s5, simp_all)
      qed
    qed
  qed
qed

lemma run_loop_ends:
  "ready p \<Longrightarrow> \<exists>w' q. run_loop env cfg (b, l, w) = Some w' \<and> grows p w q w' \<and> ready q"
proof (induction "left w" arbitrary: p b l w rule: less_induct)
  case less
  show ?case
  proof (cases rule: run_step_cases [OF less.prems, of cfg b l w])
    case (1 b' l' w' q)
    from less.hyps [OF 1(4,3), of b' l'] obtain w2 q2 where
      "run_loop env cfg (b', l', w') = Some w2" "grows q w' q2 w2" "ready q2" by blast
    then show ?thesis using 1(1) grows_trans [OF 1(2)] by (subst run_loop.simps) auto
  next
    case (2 w')
    then show ?thesis using quiet less.prems by (subst run_loop.simps) auto
  qed
qed

text \<open>
  Every run ends, with success, and what it has reported is a session from the first
  \<^verbatim>\<open>CONNECTING\<close> to \<^verbatim>\<open>STOPPED\<close>.
\<close>

lemma listener_run_session:
  "\<exists>w' es. listener_run env cfg w = Some (Inr (), w') \<and> trace w' = trace w @ es \<and>
     moves Idle es Stopped"
proof -
  obtain w1 q where r: "run_loop env cfg (1000, new_listener cfg, w) = Some w1"
    "grows Idle w q w1" "ready q"
    using run_loop_ends [of Idle cfg 1000 "new_listener cfg" w] by (auto simp: ready_def)
  have "session_step q ''STOPPED'' Stopped" using r(3) session_step.stopped by (auto simp: ready_def)
  from grows_trans [OF r(2) emit_grows [OF this]] r(1) show ?thesis
    by (auto simp: listener_run_def grows_def)
qed

end

subsection \<open>The pause between attempts\<close>

text \<open>The pauses a run can be in: one second, doubled at most six times.\<close>

lemma next_backoff_steps: "\<exists>k \<le> 6. b = 1000 * 2 ^ k \<Longrightarrow> \<exists>k \<le> 6. next_backoff b = 1000 * 2 ^ k"
proof -
  assume "\<exists>k \<le> 6. b = 1000 * 2 ^ k"
  then obtain k where k: "k \<le> 6" "b = 1000 * 2 ^ k" by blast
  then consider "k = 0" | "k = 1" | "k = 2" | "k = 3" | "k = 4" | "k = 5" | "k = 6" by linarith
  then show ?thesis by cases (auto simp: next_backoff_def k(2) intro: exI [of _ "Suc k"] exI [of _ k])
qed

end
