(* ===== verification/Relay_Script.thy ===== *)
theory Relay_Script
  imports Relay_Facts Json_Facts
begin

text \<open>
  \<^verbatim>\<open>core/include/vc/vc_relay_testing.h\<close>: the dialler that hands out scripted connections, and
  the host built from it: it runs the listener against scripted wires, counts how often it is
  still to be asked to stop, and records the events. On it the laws of \<open>relay_host\<close> hold,
  and the listener's properties are stated.
\<close>

subsection \<open>The scripted dialler\<close>

record dialled =
  d_host :: string
  d_port :: int
  d_path_and_query :: string

record relay_world = scripted +
  rw_pending :: "nat option list"
  rw_dials :: "dialled list"
  rw_wall :: u64
  rw_polls :: nat
  rw_events :: "(string \<times> int \<times> string) list"
  rw_debug :: "string list"

definition fresh_wire :: "'a scripted_scheme \<Rightarrow> nat" where
  "fresh_wire w = Suc (fold max (map fst (wires w)) 0)"

definition upgrade_response :: string where
  "upgrade_response =
     ''HTTP/1.1 101 Switching Protocols'' @ crlf @ ''Upgrade: websocket'' @ crlf @
     ''Connection: Upgrade'' @ crlf @ crlf"

definition expect_dial :: "relay_world \<Rightarrow> nat \<times> relay_world" where
  "expect_dial w =
     (let i = fresh_wire w;
          w = put_wire i (push_incoming_text upgrade_response new_wire) w
      in (i, w\<lparr>rw_pending := rw_pending w @ [Some i]\<rparr>))"

definition fail_next_dial :: "relay_world \<Rightarrow> relay_world" where
  "fail_next_dial w = w\<lparr>rw_pending := rw_pending w @ [None]\<rparr>"

definition scripted_dial ::
  "string \<Rightarrow> int \<Rightarrow> string \<Rightarrow> string \<Rightarrow> int \<Rightarrow> relay_world \<Rightarrow>
     (nat option ws result \<times> relay_world) option" where
  "scripted_dial h p pq extra_headers timeout_ms w =
     (let w = w\<lparr>rw_dials := rw_dials w @ [\<lparr>d_host = h, d_port = p, d_path_and_query = pq\<rparr>]\<rparr>
      in case rw_pending w of
           [] \<Rightarrow> Some (Err Io, w)
         | next # rest \<Rightarrow>
             (let w = w\<lparr>rw_pending := rest\<rparr>
              in case next of
                   None \<Rightarrow> Some (Err Io, w)
                 | Some i \<Rightarrow>
                     (case ws_upgrade scripted_net (Some i) h pq extra_headers timeout_ms w of
                        None \<Rightarrow> None
                      | Some (Inl e, w) \<Rightarrow> Some (Inl e, w)
                      | Some (Inr ws, w) \<Rightarrow>
                          (case wire_of (Some i) w of
                             None \<Rightarrow> Some (Inr ws, w)
                           | Some x \<Rightarrow> Some (Inr ws, put_wire i (clear_outgoing x) w)))))"

subsection \<open>The host\<close>

type_synonym handler = "relay_request \<Rightarrow> relay_response \<Rightarrow> bool \<times> relay_response"

definition scripted_env :: "handler option \<Rightarrow> (relay_world, nat option) relay_env" where
  "scripted_env h =
     \<lparr>re_net = scripted_net,
      re_time = (\<lambda>w. (rw_wall w, w)),
      re_dial = scripted_dial,
      re_sleep = (\<lambda>n w. w\<lparr>clock := clock w + word_of_nat n\<rparr>),
      re_stop = (\<lambda>w. (rw_polls w = 0, w\<lparr>rw_polls := rw_polls w - 1\<rparr>)),
      re_on_request = map_option (\<lambda>f rq rs w. (f rq rs, w)) h,
      re_on_event = Some (\<lambda>ev c d w. w\<lparr>rw_events := rw_events w @ [(ev, c, d)]\<rparr>),
      re_debug = (\<lambda>msg w. w\<lparr>rw_debug := rw_debug w @ [msg]\<rparr>),
      re_error_text = (\<lambda>_. [])\<rparr>"

lemma scripted_env_simps [simp]:
  "re_net (scripted_env h) = scripted_net"
  "re_time (scripted_env h) = (\<lambda>w. (rw_wall w, w))"
  "re_dial (scripted_env h) = scripted_dial"
  "re_stop (scripted_env h) w = (rw_polls w = 0, w\<lparr>rw_polls := rw_polls w - 1\<rparr>)"
  "re_on_request (scripted_env h) = map_option (\<lambda>f rq rs w. (f rq rs, w)) h"
  "emit (scripted_env h) ev c d w = w\<lparr>rw_events := rw_events w @ [(ev, c, d)]\<rparr>"
  by (simp_all add: scripted_env_def emit_def)

text \<open>What the host's bookkeeping may do between two events.\<close>

definition calm :: "relay_world \<Rightarrow> relay_world \<Rightarrow> bool" where
  "calm w w' \<longleftrightarrow> rw_events w' = rw_events w \<and> rw_polls w' \<le> rw_polls w"

lemma put_wire_rest [simp]:
  "rw_events (put_wire i x w) = rw_events w" "rw_polls (put_wire i x w) = rw_polls w"
  by (simp_all add: put_wire_def)

interpretation calm: net_frame "scripted_net :: (relay_world, nat option) net" calm
  by unfold_locales
    (auto simp: calm_def scripted_net_def scripted_send_def scripted_recv_def scripted_clock_def
      scripted_random_def split: option.splits prod.splits if_splits)

lemma scripted_dial_calm:
  assumes "scripted_dial h p pq hs ms w = Some (r, w')"
  shows "calm w w'"
proof -
  define w1 where "w1 = w\<lparr>rw_dials := rw_dials w @ [\<lparr>d_host = h, d_port = p, d_path_and_query = pq\<rparr>]\<rparr>"
  have 1: "calm w (w1\<lparr>rw_pending := ps\<rparr>)" for ps by (simp add: calm_def w1_def)
  have 2: "calm w w1" by (simp add: calm_def w1_def)
  have 3: "calm w v \<Longrightarrow> calm w (put_wire i x v)" for v i x by (simp add: calm_def)
  show ?thesis
    using assms 2 unfolding scripted_dial_def w1_def [symmetric] Let_def
    by (auto split: list.splits option.splits prod.splits sum.splits
        dest!: calm.ws_upgrade_R intro: 1 2 3 calm.R_trans [OF 1])
qed

interpretation host: relay_host "scripted_env h" wire_sent wire_pending calm
    "\<lambda>w. map fst (rw_events w)" rw_polls for h
proof (intro relay_host.intro relay_host_axioms.intro, goal_cases)
  case 1
  show ?case using scripted.transport_axioms by simp
next
  case 2
  show ?case using calm.net_frame_axioms by simp
next
  case (9 hs p pq ms w q w')
  then show ?case by (simp add: scripted_dial_calm)
next
  case (11 hs p pq ms w)
  show ?case
    by (auto simp: scripted_dial_def Let_def scripted.ws_upgrade_returns simp del: not_None_eq split: list.splits option.splits prod.splits sum.splits)
qed (auto simp: calm_def scripted_env_def emit_def split: prod.splits)

subsection \<open>The response message\<close>



subsection \<open>Answering\<close>







subsection \<open>Renewal\<close>

lemma unat_u64_u32: "unat (ucast (x :: u32) :: u64) = unat x"
proof -
  have "unat x < 2 ^ 32" using unsigned_less [of x, where 'a = nat] by simp
  then have "unat x < 2 ^ 64" by simp
  then show ?thesis by (simp add: unsigned_ucast_eq take_bit_nat_eq_self)
qed


lemma rendezvous_masks:
  assumes "url_parse address = Inr u" and "find_sub ''sb-hc-token='' (query u) = None"
    and "rendezvous_connect (scripted_env h) cfg l address w = Some (r, l', w')"
    and "4 \<le> l_ttl l" and "unat (rw_wall w) + unat (l_ttl l) < 2 ^ 64"
    and "now_mono < l_token_renew_at l"
  shows "\<not> renewal_due now_mono (l_token_renew_at l') (rw_wall w) (l_token_expiry_wall l') (l_ttl l') \<and>
    (\<forall>e. e \<noteq> 0 \<longrightarrow> unat e \<le> unat (rw_wall w) + unat (l_ttl l div 4) \<longrightarrow>
      renewal_due now_mono (l_token_renew_at l) (rw_wall w) e (l_ttl l))"
proof -
  have l': "l_token_expiry_wall l' = rw_wall w + ucast (l_ttl l)" "l_ttl l' = l_ttl l"
    "l_token_renew_at l' = l_token_renew_at l"
    using assms(1-3)
    by (auto simp: rendezvous_connect_def make_token_def Let_def split: prod.splits Option.bind_splits)
  have q: "unat (l_ttl l div 4) < unat (l_ttl l)" using assms(4)
    by (simp add: unat_div word_le_nat_alt)
  have e: "unat (rw_wall w + ucast (l_ttl l) :: u64) = unat (rw_wall w) + unat (l_ttl l)"
    using assms(5) by (simp add: unat_word_ariths unat_u64_u32)
  have m: "unat (rw_wall w + ucast (l_ttl l div 4) :: u64) = unat (rw_wall w) + unat (l_ttl l div 4)"
    using assms(5) q by (simp add: unat_word_ariths unat_u64_u32)
  have "\<not> renewal_due now_mono (l_token_renew_at l') (rw_wall w) (l_token_expiry_wall l') (l_ttl l')"
    using assms(6) e m q by (auto simp: renewal_due_def l' Let_def word_le_nat_alt word_less_nat_alt)
  moreover have "renewal_due now_mono (l_token_renew_at l) (rw_wall w) e (l_ttl l)"
    if "unat e \<le> unat (rw_wall w) + unat (l_ttl l div 4)" "e \<noteq> 0" for e
    using that m by (auto simp: renewal_due_def Let_def word_le_nat_alt)
  ultimately show ?thesis by blast
qed

subsection \<open>Properties\<close>


definition demo_relay :: "nat \<Rightarrow> relay_world" where
  "demo_relay n =
     \<lparr>wires = [(0, new_wire)], clock = 0, tick = 1, rng_seed = 7, rng_ok = True, rw_pending = [],
      rw_dials = [], rw_wall = 1000, rw_polls = n, rw_events = [], rw_debug = []\<rparr>"

definition demo_config :: relay_config where
  "demo_config = \<lparr>rc_namespace_host = ''ns'', rc_hybrid_connection = ''hc'', rc_key_name = ''k'',
     rc_key = ''s'', rc_token_ttl_seconds = 0\<rparr>"



lemma demo_relay_facts:
  "open_wire (Some 0) (demo_relay n)" "wire_sent (Some 0) (demo_relay n) = []"
  "rw_pending (demo_relay n) = []" "rw_wall (demo_relay n) = 1000"
  by (simp_all add: demo_relay_def open_wire_def wire_of_def wire_sent_def new_wire_def)


text \<open>
  C3: a run of the listener against any scripted network, handler and configuration ends once it
  is asked to stop: a configuration without namespace or connection is refused, any other run
  succeeds, and the events it reports are one session of the state machine
  \<^const>\<open>session_step\<close> from idle to stopped.
\<close>

theorem relay_session:
  "if rc_namespace_host cfg = [] \<or> rc_hybrid_connection cfg = []
   then relay_listen_with (scripted_env h) cfg w = Some (Err InvalidArg, w)
   else \<exists>w' es. relay_listen_with (scripted_env h) cfg w = Some (Inr (), w') \<and>
     map fst (rw_events w') = map fst (rw_events w) @ es \<and> moves Idle es Stopped"
  using host.listener_run_session [of h cfg w] by (simp add: relay_listen_with_def)

text \<open>
  A response is reported as sent only while a control channel is up: \<^verbatim>\<open>CONNECTED\<close> was
  reported before it, and no \<^verbatim>\<open>DISCONNECTED\<close> since.
\<close>

theorem relay_serves_connected:
  assumes "relay_listen_with (scripted_env h) cfg w = Some (Inr (), w')"
    and "map fst (rw_events w') = map fst (rw_events w) @ before @ ''RESPONSE_SENT'' # rest"
  shows "\<exists>b a. before = b @ ''CONNECTED'' # a \<and> ''DISCONNECTED'' \<notin> set a"
proof -
  obtain es where es: "map fst (rw_events w') = map fst (rw_events w) @ es" "moves Idle es Stopped"
    using assms(1) host.listener_run_session [of h cfg w]
    by (auto simp: relay_listen_with_def split: if_splits)
  with assms(2) have "moves Idle (before @ ''RESPONSE_SENT'' # rest) Stopped" by simp
  then obtain q r where "moves Idle before q" "session_step q ''RESPONSE_SENT'' r"
    using moves_split by blast
  then have "moves Idle before Up" using session_step_served by blast
  from moves_Up [OF this] show ?thesis by blast
qed

lemma relay_serves_connected_witness:
  "\<exists>w'. relay_listen_with (scripted_env None) demo_config (demo_relay 3) = Some (Inr (), w') \<and>
     (\<forall>before rest. map fst (rw_events w') = before @ ''RESPONSE_SENT'' # rest \<longrightarrow>
        ''CONNECTED'' \<in> set before)"
proof -
  obtain w' where w': "relay_listen_with (scripted_env None) demo_config (demo_relay 3) = Some (Inr (), w')"
    using host.listener_run_session [of None demo_config "demo_relay 3"]
    by (auto simp: relay_listen_with_def demo_config_def)
  have e: "map fst (rw_events (demo_relay 3)) = []" by (simp add: demo_relay_def)
  have "''CONNECTED'' \<in> set before" if "map fst (rw_events w') = before @ ''RESPONSE_SENT'' # rest"
    for before rest
    using relay_serves_connected [OF w', of before rest] that unfolding e by auto
  with w' show ?thesis by blast
qed



text \<open>
  Dialling a rendezvous address that carries no token makes one for that connection, and
  records its expiry as that of the control channel's token, even when the dial fails: the
  wall-clock trigger is off until then, whatever the control token's own expiry is.
\<close>

theorem relay_rendezvous_masks_renewal:
  assumes "url_parse address = Inr u" and "find_sub ''sb-hc-token='' (query u) = None"
    and "rendezvous_connect (scripted_env h) cfg l address w = Some (r, l', w')"
    and "4 \<le> l_ttl l" and "unat (rw_wall w) + unat (l_ttl l) < 2 ^ 64"
    and "now_mono < l_token_renew_at l"
  shows "\<not> renewal_due now_mono (l_token_renew_at l') (rw_wall w) (l_token_expiry_wall l') (l_ttl l') \<and>
    (\<forall>e. e \<noteq> 0 \<longrightarrow> unat e \<le> unat (rw_wall w) + unat (l_ttl l div 4) \<longrightarrow>
      renewal_due now_mono (l_token_renew_at l) (rw_wall w) e (l_ttl l))"
  using assms by (rule rendezvous_masks)

lemma relay_rendezvous_masks_renewal_witness:
  "\<exists>r l' w'. rendezvous_connect (scripted_env None) demo_config
       (new_listener demo_config\<lparr>l_token_renew_at := 5, l_token_expiry_wall := 1000\<rparr>) ''wss://h/p'' (demo_relay 1) =
       Some (r, l', w') \<and>
     \<not> renewal_due 4 (l_token_renew_at l') 1000 (l_token_expiry_wall l') (l_ttl l') \<and>
     renewal_due 4 5 1000 1000 3600"
proof -
  define l where "l = (new_listener demo_config :: nat option listener)
    \<lparr>l_token_renew_at := 5, l_token_expiry_wall := 1000\<rparr>"
  have l: "l_ttl l = 3600" "l_token_renew_at l = 5"
    by (simp_all add: l_def new_listener_def demo_config_def)
  obtain u where u: "url_parse ''wss://h/p'' = Inr u" "query u = []"
  proof -
    have "map_sum id query (url_parse ''wss://h/p'') = Inr []" by code_simp
    then show ?thesis using that by (cases "url_parse ''wss://h/p''") auto
  qed
  obtain r l' w' where c: "rendezvous_connect (scripted_env None) demo_config l ''wss://h/p'' (demo_relay 1) =
      Some (r, l', w')" using host.rendezvous_connect_returns by fastforce
  have q: "find_sub ''sb-hc-token='' (query u) = None" using u(2) by simp
  have m: "\<not> renewal_due 4 (l_token_renew_at l') (rw_wall (demo_relay 1)) (l_token_expiry_wall l') (l_ttl l') \<and>
    (\<forall>e. e \<noteq> 0 \<longrightarrow> unat e \<le> unat (rw_wall (demo_relay 1)) + unat (l_ttl l div 4) \<longrightarrow>
      renewal_due 4 (l_token_renew_at l) (rw_wall (demo_relay 1)) e (l_ttl l))"
    by (rule relay_rendezvous_masks_renewal [OF u(1) q c]) (simp_all add: l demo_relay_facts)
  then have "\<not> renewal_due 4 (l_token_renew_at l') 1000 (l_token_expiry_wall l') (l_ttl l')"
    by (simp add: demo_relay_facts)
  moreover have "renewal_due 4 5 1000 1000 3600"
    using m [THEN conjunct2, THEN spec, of 1000] by (simp add: l demo_relay_facts)
  ultimately show ?thesis using c unfolding l_def by blast
qed

text \<open>
  The pause between two attempts to connect is one second doubled at most six times: a
  run that starts at one second never waits longer than 64 seconds.
\<close>

theorem relay_backoff_bounded:
  assumes "run_step (scripted_env h) cfg (b, l, w) = Some (Inl (b', l', w'))"
    and "\<exists>k \<le> 6. b = 1000 * 2 ^ k"
  shows "\<exists>k \<le> 6. b' = 1000 * 2 ^ k"
proof -
  have "host.ready Idle" by (simp add: host.ready_def)
  then have "b' = 1000 \<or> b' = next_backoff b"
    using assms(1) by (cases rule: host.run_step_cases [of Idle h cfg b l w]) auto
  then show ?thesis using next_backoff_steps [OF assms(2)] by (auto intro: exI [of _ 0])
qed

lemma relay_backoff_bounded_witness:
  "\<exists>b' l' w'. run_step (scripted_env None) demo_config (64000, new_listener demo_config, demo_relay 1) =
     Some (Inl (b', l', w')) \<and> b' \<le> 64000"
proof -
  have "host.ready Idle" by (simp add: host.ready_def)
  then obtain b' l' w' where r: "run_step (scripted_env None) demo_config
      (64000, new_listener demo_config, demo_relay 1) = Some (Inl (b', l', w'))"
    by (cases rule: host.run_step_cases
        [of Idle None demo_config 64000 "new_listener demo_config" "demo_relay 1"])
      (auto simp: demo_relay_def)
  have "\<exists>k \<le> 6. (64000 :: nat) = 1000 * 2 ^ k" by (rule exI [of _ 6]) simp
  from relay_backoff_bounded [OF r this] obtain k where "k \<le> 6" "b' = 1000 * 2 ^ k" by blast
  moreover have "(2 :: nat) ^ k \<le> 2 ^ 6" using \<open>k \<le> 6\<close> by (intro power_increasing) auto
  ultimately have "b' \<le> 64000" by simp
  with r show ?thesis by blast
qed

end
