(* ===== verification/Settings.thy ===== *)
theory Settings
  imports Ini Log Relay
begin

text \<open>
  \<^verbatim>\<open>core/src/vc_settings.cpp\<close>: the agent's settings over the INI store, and the file-system part
  of the POSIX platform layer they need, \<^verbatim>\<open>fs::exe_dir\<close>.
\<close>

record settings =
  s_relay :: relay_config
  s_logging :: log_config
  s_adapters_dir :: string

definition default_relay_config :: relay_config where
  "default_relay_config =
     \<lparr>rc_namespace_host = [], rc_hybrid_connection = [], rc_key_name = [], rc_key = [],
      rc_token_ttl_seconds = 0\<rparr>"

definition default_settings :: settings where
  "default_settings =
     \<lparr>s_relay = default_relay_config, s_logging = default_log_config, s_adapters_dir = ''.''\<rparr>"

definition get_or :: "ini \<Rightarrow> string \<Rightarrow> string \<Rightarrow> string \<Rightarrow> string" where
  "get_or i sec k dflt = (case ini_get i (sec, k) of None \<Rightarrow> dflt | Some v \<Rightarrow> v)"

definition level_name :: "level \<Rightarrow> string" where
  "level_name l =
     (case l of
        Trace \<Rightarrow> ''LOG_TRACE'' | Debug \<Rightarrow> ''LOG_DEBUG'' | Info \<Rightarrow> ''LOG_INFO'' | Succ_level \<Rightarrow> ''LOG_INFO''
      | Warn \<Rightarrow> ''LOG_WARN'' | Error_level \<Rightarrow> ''LOG_ERROR'')"

text \<open>\<^verbatim>\<open>exe_dir\<close> of \<^verbatim>\<open>platform/posix/vc_fs_posix.cpp\<close>; the argument is what \<^verbatim>\<open>readlink\<close> returned.\<close>

definition exe_dir :: "string option \<Rightarrow> string option" where
  "exe_dir link =
     (case link of
        None \<Rightarrow> None
      | Some p \<Rightarrow>
          if p = [] then None
          else
            (let p = c_str (take 4095 p)
             in Some (if CHR ''/'' \<in> set p
                      then rev (tl (dropWhile (\<lambda>c. c \<noteq> CHR ''/'') (rev p))) else p)))"

definition default_path :: "string option \<Rightarrow> string" where
  "default_path dir =
     (case dir of None \<Rightarrow> ''Settings.ini'' | Some d \<Rightarrow> path_join d ''Settings.ini'')"

definition settings_of_ini :: "ini \<Rightarrow> settings" where
  "settings_of_ini i =
     \<lparr>s_relay =
        \<lparr>rc_namespace_host = get_or i ''Connection'' ''Namespace'' [],
         rc_hybrid_connection = get_or i ''Connection'' ''HybridConnection'' [],
         rc_key_name = get_or i ''Connection'' ''AccessKeyName'' [],
         rc_key = get_or i ''Connection'' ''AccessKey'' [],
         rc_token_ttl_seconds = 3600\<rparr>,
      s_logging =
        default_log_config
          \<lparr>cfg_level := level_from_str (get_or i ''Logging'' ''LogLevel'' ''LOG_INFO''),
           max_rotate_files := ini_get_int i (''Logging'', ''MaxRotateFiles'') 10,
           max_file_size_mb := ini_get_int i (''Logging'', ''MaxFileSizeInMB'') 10,
           show_event_type := ini_get_bool i (''Logging'', ''ShowEventType'') True,
           time_precision := ini_get_bool i (''Logging'', ''TimePrecission'') True,
           cfg_enabled := ini_get_bool i (''Logging'', ''Enabled'') True\<rparr>,
      s_adapters_dir = get_or i ''Adapters'' ''Directory'' ''.''\<rparr>"

definition settings_load :: "string \<Rightarrow> vfs \<Rightarrow> settings result" where
  "settings_load p s =
     (case ini_load p s of Inl _ \<Rightarrow> Err NotFound | Inr i \<Rightarrow> Inr (settings_of_ini i))"

definition flag :: "bool \<Rightarrow> int" where
  "flag b = (if b then 1 else 0)"

definition ini_of_settings :: "settings \<Rightarrow> ini" where
  "ini_of_settings st =
     (let lg = s_logging st; rc = s_relay st;
          i = ini_set [] (''Logging'', ''LogLevel'') (level_name (cfg_level lg));
          i = ini_set_int i (''Logging'', ''MaxRotateFiles'') (max_rotate_files lg);
          i = ini_set_int i (''Logging'', ''MaxFileSizeInMB'') (max_file_size_mb lg);
          i = ini_set_int i (''Logging'', ''ShowEventType'') (flag (show_event_type lg));
          i = ini_set_int i (''Logging'', ''TimePrecission'') (flag (time_precision lg));
          i = ini_set_int i (''Logging'', ''Enabled'') (flag (cfg_enabled lg));
          i = ini_set i (''Connection'', ''AccessKey'') (rc_key rc);
          i = ini_set i (''Connection'', ''AccessKeyName'') (rc_key_name rc);
          i = ini_set i (''Connection'', ''Namespace'') (rc_namespace_host rc);
          i = ini_set i (''Connection'', ''HybridConnection'') (rc_hybrid_connection rc)
      in ini_set i (''Adapters'', ''Directory'') (s_adapters_dir st))"

definition settings_save :: "settings \<Rightarrow> string \<Rightarrow> vfs \<Rightarrow> status \<times> vfs" where
  "settings_save st p s = ini_save (ini_of_settings st) p s"

subsection \<open>What is saved loads\<close>

lemma ini_get_int_get:
  "ini_get_int es k d =
     (case ini_get es k of
        None \<Rightarrow> d
      | Some v \<Rightarrow>
          if v = [] then d else (case parse_uint v 0x7FFFFFFF 10 of Some n \<Rightarrow> int n | None \<Rightarrow> d))"
  by (simp add: ini_get_int_def ini_get_def split: option.split)

lemma ini_get_bool_get:
  "ini_get_bool es k d =
     (case ini_get es k of
        None \<Rightarrow> d
      | Some v \<Rightarrow>
          if v = [] then d
          else iequals v ''1'' \<or> iequals v ''true'' \<or> iequals v ''yes'' \<or> iequals v ''on'')"
  by (simp add: ini_get_bool_def ini_get_def split: option.split)

text \<open>The settings depend on the store through its lookups only.\<close>

lemma settings_of_ini_cong:
  "(\<And>k. ini_get i k = ini_get j k) \<Longrightarrow> settings_of_ini i = settings_of_ini j"
  by (simp add: settings_of_ini_def get_or_def ini_get_int_get ini_get_bool_get)

lemma entries_ok_set:
  assumes "\<forall>e \<in> set es. entry_ok e" and "entry_ok \<lparr>e_section = sec, e_key = k, e_value = v\<rparr>"
  shows "\<forall>e \<in> set (ini_set es (sec, k) v). entry_ok e"
using assms
proof (induction es)
  case (Cons e es)
  have "entry_ok (e\<lparr>e_value := v\<rparr>)"
    using Cons.prems(1) assms(2) by (simp add: entry_ok_def)
  then show ?case using Cons by simp
qed (use assms(2) in simp)

definition value_ok :: "string \<Rightarrow> bool" where
  "value_ok v \<longleftrightarrow> trim v = v \<and> CHR 0x0A \<notin> set v"

definition settings_ok :: "settings \<Rightarrow> bool" where
  "settings_ok st \<longleftrightarrow>
     value_ok (rc_namespace_host (s_relay st)) \<and> value_ok (rc_hybrid_connection (s_relay st)) \<and>
     value_ok (rc_key_name (s_relay st)) \<and> value_ok (rc_key (s_relay st)) \<and>
     value_ok (s_adapters_dir st) \<and>
     0 \<le> max_rotate_files (s_logging st) \<and> max_rotate_files (s_logging st) \<le> 0x7FFFFFFF \<and>
     0 \<le> max_file_size_mb (s_logging st) \<and> max_file_size_mb (s_logging st) \<le> 0x7FFFFFFF"

text \<open>What of the settings the file holds: the rest is what \<^verbatim>\<open>load\<close> starts from.\<close>

definition stored_part :: "settings \<Rightarrow> settings" where
  "stored_part st =
     st\<lparr>s_relay := (s_relay st)\<lparr>rc_token_ttl_seconds := 3600\<rparr>,
        s_logging := (s_logging st)
          \<lparr>cfg_level := (if cfg_level (s_logging st) = Succ_level then Info else cfg_level (s_logging st)),
           console := console default_log_config, file_path := file_path default_log_config\<rparr>\<rparr>"

lemma digits_value_ok: "\<forall>c \<in> set v. is_digit c \<Longrightarrow> value_ok v"
proof -
  assume v: "\<forall>c \<in> set v. is_digit c"
  have n: "\<not> is_space c \<and> c \<noteq> CHR 0x0A" if "is_digit c" for c
    using that by (auto simp: is_digit_def in_range_def is_space_def)
  then have "v = [] \<or> \<not> is_space (hd v) \<and> \<not> is_space (last v)" using v by (cases "v = []") auto
  with trim_id [of v] n v show ?thesis by (auto simp: value_ok_def)
qed

lemma int_value_ok: "0 \<le> i \<Longrightarrow> value_ok (int_to_string i)"
  by (rule digits_value_ok) (simp add: int_to_string_def to_string_digits)

lemma level_value_ok: "value_ok (level_name l)"
  by (induction l; code_simp)

lemma level_from_name: "level_from_str (level_name l) = (if l = Succ_level then Info else l)"
  by (induction l; code_simp)

lemma int_reads_back:
  assumes "0 \<le> i" and "i \<le> 0x7FFFFFFF"
  shows "int_to_string i \<noteq> [] \<and> parse_uint (int_to_string i) 0x7FFFFFFF 10 = Some (nat i)"
  using assms parse_uint_to_string [where n = "nat i"]
  by (simp add: int_to_string_def nat_le_iff)

lemma flag_reads_back:
  "int_to_string (flag b) \<noteq> []" "iequals (int_to_string (flag b)) ''1'' = b"
  "\<not> iequals (int_to_string (flag b)) ''true''" "\<not> iequals (int_to_string (flag b)) ''yes''"
  "\<not> iequals (int_to_string (flag b)) ''on''" "0 \<le> flag b"
  by (induction b; code_simp)+

text \<open>The keys of the file, and that no two of them are the same key.\<close>

definition setting_keys :: "(string \<times> string) list" where
  "setting_keys =
     map (Pair ''Logging'')
       [''LogLevel'', ''MaxRotateFiles'', ''MaxFileSizeInMB'', ''ShowEventType'', ''TimePrecission'', ''Enabled''] @
     map (Pair ''Connection'') [''AccessKey'', ''AccessKeyName'', ''Namespace'', ''HybridConnection''] @
     [(''Adapters'', ''Directory'')]"

definition key_entry :: "string \<times> string \<Rightarrow> entry" where
  "key_entry k = \<lparr>e_section = fst k, e_key = snd k, e_value = []\<rparr>"

lemma setting_keys_checked:
  "list_all (\<lambda>a. list_all (\<lambda>b. same_key a b = (a = b)) setting_keys \<and> entry_ok (key_entry a)) setting_keys"
  by code_simp

lemma setting_keys_distinct:
  "a \<in> set setting_keys \<Longrightarrow> b \<in> set setting_keys \<Longrightarrow> same_key a b \<longleftrightarrow> a = b"
  using setting_keys_checked by (auto simp: list_all_iff)

lemma setting_entry_ok:
  "(sec, k) \<in> set setting_keys \<Longrightarrow> value_ok v \<Longrightarrow> entry_ok \<lparr>e_section = sec, e_key = k, e_value = v\<rparr>"
  using setting_keys_checked
  by (fastforce simp: list_all_iff key_entry_def entry_ok_def value_ok_def)

lemma ini_of_settings_ok:
  assumes "settings_ok st"
  shows "ini_wf (ini_of_settings st)" and "\<forall>e \<in> set (ini_of_settings st). entry_ok e"
proof -
  show "ini_wf (ini_of_settings st)"
    unfolding ini_of_settings_def Let_def ini_set_int_def by (intro ini_wf_set ini_wf_Nil)
  note vals = assms [unfolded settings_ok_def] level_value_ok [of "cfg_level (s_logging st)"]
  show "\<forall>e \<in> set (ini_of_settings st). entry_ok e"
    unfolding ini_of_settings_def Let_def ini_set_int_def
    by (intro entries_ok_set setting_entry_ok)
      (use vals in \<open>simp_all add: int_value_ok flag_reads_back(6) setting_keys_def\<close>)
qed

lemma settings_kept:
  assumes "settings_ok st"
  shows "settings_of_ini (ini_of_settings st) = stored_part st"
proof -
  have get: "(sec, k) \<in> set setting_keys \<Longrightarrow> (sec', k') \<in> set setting_keys \<Longrightarrow>
      ini_get (ini_set es (sec', k') v) (sec, k) =
        (if sec' = sec \<and> k' = k then Some v else ini_get es (sec, k))" for sec k sec' k' es v
    by (simp add: ini_get_set setting_keys_distinct)
  note ints = int_reads_back [of "max_rotate_files (s_logging st)"]
    int_reads_back [of "max_file_size_mb (s_logging st)"]
  obtain rc lg dir where st: "st = \<lparr>s_relay = rc, s_logging = lg, s_adapters_dir = dir\<rparr>"
    by (cases st) auto
  have "ini_get [] k = None" for k by (simp add: ini_get_def)
  then show ?thesis
    using assms ints unfolding st
    by (cases rc; cases lg) (simp del: ini_set.simps add: ini_of_settings_def settings_of_ini_def
        Let_def ini_set_int_def get_or_def ini_get_int_get ini_get_bool_get get setting_keys_def
        flag_reads_back level_from_name settings_ok_def stored_part_def default_log_config_def)
qed

subsection \<open>Properties\<close>

text \<open>
  C16: on a file system without faults, settings that are saved load again as they were, as far
  as the file holds them: the connection, the log options with \<^const>\<open>Succ_level\<close> read as
  \<^const>\<open>Info\<close>, and the adapters directory; the token lifetime, the console flag and the log file are
  those \<^verbatim>\<open>load\<close> starts from.
\<close>

theorem settings_roundtrip:
  assumes "healthy s" and "settings_ok st" and "settings_save st p s = (Inr (), s')"
  shows "settings_load p s' = Inr (stored_part st)"
proof -
  from load_after_save [OF assms(1) ini_of_settings_ok [OF assms(2)] assms(3) [unfolded settings_save_def]]
  obtain i where "ini_load p s' = Inr i" "\<forall>k. ini_get i k = ini_get (ini_of_settings st) k"
    by blast
  with settings_of_ini_cong [of i "ini_of_settings st"] settings_kept [OF assms(2)]
  show ?thesis by (simp add: settings_load_def)
qed

definition demo_settings :: settings where
  "demo_settings = default_settings
     \<lparr>s_relay := default_relay_config\<lparr>rc_namespace_host := ''n.example'', rc_key := ''a=b;c''\<rparr>,
      s_logging := default_log_config\<lparr>cfg_level := Succ_level, max_rotate_files := 3, cfg_enabled := False\<rparr>\<rparr>"

lemma settings_roundtrip_witness:
  "settings_load ''/s.ini'' (snd (settings_save demo_settings ''/s.ini'' empty_vfs)) =
     Inr (stored_part demo_settings)"
proof -
  have h: "healthy empty_vfs" by (simp add: healthy_def empty_vfs_def)
  have ok: "settings_ok demo_settings" by code_simp
  have "fst (settings_save demo_settings ''/s.ini'' empty_vfs) = Inr ()" by code_simp
  then have "settings_save demo_settings ''/s.ini'' empty_vfs =
      (Inr (), snd (settings_save demo_settings ''/s.ini'' empty_vfs))" by (metis prod.collapse)
  from settings_roundtrip [OF h ok this] show ?thesis .
qed

end
