(* ===== verification/Fs_Tree.thy ===== *)
theory Fs_Tree
  imports Fs
begin

text \<open>
  The shape of the file system and that every operation of \<^verbatim>\<open>vc_fs.cpp\<close> keeps it: names are
  unique and every node has a directory above it. With it the effect of a rename can be said
  node by node.
\<close>

definition tree_ok :: "vfs \<Rightarrow> bool" where
  "tree_ok s \<longleftrightarrow>
     distinct (map fst (nodes s)) \<and> (\<forall>k \<in> fst ` set (nodes s). k \<noteq> [] \<and> dir_at s (butlast k))"

lemma dir_at_Nil [simp]: "dir_at s []"
  by (simp add: dir_at_def node_at_def)

lemma node_at_key: "node_at s k = Some n \<Longrightarrow> k \<noteq> [] \<Longrightarrow> k \<in> fst ` set (nodes s)"
  by (force simp: node_at_def dest: map_of_SomeD)

lemma tree_ok_parent: "tree_ok s \<Longrightarrow> node_at s k = Some n \<Longrightarrow> dir_at s (butlast k)"
  by (cases "k = []") (auto simp: tree_ok_def dest: node_at_key)

lemma tree_ok_prefix:
  assumes "tree_ok s" and "node_at s k = Some n" and "strict_prefix j k"
  shows "dir_at s j"
  using assms(2,3)
proof (induction k arbitrary: n rule: rev_induct)
  case (snoc c k)
  have d: "dir_at s k" using tree_ok_parent [OF assms(1) snoc.prems(1)] by simp
  from snoc.prems(2) have "j = k \<or> strict_prefix j k" by (auto simp: strict_prefix_def)
  then show ?case using d snoc.IH [of Dir] by (auto simp: dir_at_def)
qed simp

text \<open>A name that resolves names a place in an existing directory.\<close>

lemma walk_parent:
  assumes "tree_ok s"
  shows "walk s cur cs = Inr k \<Longrightarrow> (cs = [] \<Longrightarrow> dir_at s (butlast cur)) \<Longrightarrow> dir_at s (butlast k)"
proof (induction cs arbitrary: cur)
  case (Cons c cs)
  from walk_Inr_dir [OF Cons.prems(1)] have d: "node_at s cur = Some Dir" by (simp add: dir_at_def)
  have up: "dir_at s (butlast cur)" by (rule tree_ok_parent [OF assms d])
  then have up2: "dir_at s (butlast (butlast cur))"
    using tree_ok_parent [OF assms] by (simp add: dir_at_def)
  from Cons.prems(1) d consider "walk s cur cs = Inr k" | "walk s (butlast cur) cs = Inr k"
    | "walk s (cur @ [c]) cs = Inr k" by (auto split: if_splits)
  then show ?case
  proof cases
    case 1
    then show ?thesis using Cons.IH up by blast
  next
    case 2
    then show ?thesis using Cons.IH up2 by blast
  next
    case 3
    then show ?thesis using Cons.IH [OF 3] d by (simp add: dir_at_def)
  qed
qed simp

lemma split_at_ne [simp]: "split_at d cs \<noteq> []"
  by (induction cs) (auto split: list.split)

lemma resolve_parent: "tree_ok s \<Longrightarrow> resolve s p = Inr k \<Longrightarrow> dir_at s (butlast k)"
  by (auto simp: resolve_def Let_def split: if_splits dest!: walk_parent)

subsection \<open>The operations keep the shape\<close>

lemma keys_put: "fst ` set (nodes (put_node k n s)) = insert k (fst ` set (nodes s))"
  by (auto simp: put_node_def image_iff split: if_splits) force+

lemma tree_ok_put:
  assumes "tree_ok s" and "k \<noteq> []" and "dir_at s (butlast k)" and "n = Dir \<or> \<not> dir_at s k"
  shows "tree_ok (put_node k n s)"
proof -
  have keep: "dir_at (put_node k n s) j" if "dir_at s j" for j
    using that assms(2,4) by (auto simp: dir_at_def node_at_put)
  have "map fst (nodes (put_node k n s)) =
      (if k \<in> fst ` set (nodes s) then map fst (nodes s) else map fst (nodes s) @ [k])"
    by (auto simp: put_node_def)
  then have "distinct (map fst (nodes (put_node k n s)))"
    using assms(1) by (simp add: tree_ok_def)
  then show ?thesis using assms keep by (simp add: tree_ok_def keys_put)
qed

lemma strict_prefix_butlast: "j \<noteq> [] \<Longrightarrow> strict_prefix (butlast j) j"
  by (cases j rule: rev_cases) (simp_all add: strict_prefix_def)

lemma tree_ok_drop:
  assumes "tree_ok s" and "k \<noteq> []" and "\<not> list_ex (\<lambda>(k', _). strict_prefix k k') (nodes s)"
  shows "tree_ok (drop_node k s)"
proof -
  have "dir_at (drop_node k s) (butlast j)" if "j \<in> fst ` set (nodes s)" for j
  proof -
    have "j \<noteq> []" "dir_at s (butlast j)" using assms(1) that by (auto simp: tree_ok_def)
    moreover have "butlast j \<noteq> k"
    proof
      assume "butlast j = k"
      then have "strict_prefix k j" using \<open>j \<noteq> []\<close> strict_prefix_butlast by blast
      with assms(3) that show False by (auto simp: list_ex_iff)
    qed
    ultimately show ?thesis using assms(2) by (simp add: dir_at_def node_at_drop)
  qed
  moreover have "distinct (map fst (nodes (drop_node k s)))"
    using assms(1) by (simp add: tree_ok_def drop_node_def distinct_map_filter)
  ultimately show ?thesis using assms(1) by (auto simp: tree_ok_def drop_node_def)
qed

text \<open>The new name of a node under a rename, and the places a rename is allowed between.\<close>

definition renamed :: "string list \<Rightarrow> string list \<Rightarrow> string list \<Rightarrow> string list" where
  "renamed src dst k = (if prefix src k then dst @ drop (length src) k else k)"

definition movable :: "string list \<Rightarrow> string list \<Rightarrow> vfs \<Rightarrow> bool" where
  "movable src dst s \<longleftrightarrow>
     \<not> prefix src dst \<and> dst \<noteq> [] \<and> \<not> list_ex (\<lambda>(k', _). strict_prefix dst k') (nodes s)"

lemma movableD:
  assumes "movable src dst s"
  shows "\<not> prefix src dst" and "dst \<noteq> []" and "src \<noteq> []"
    and "k \<in> fst ` set (nodes s) \<Longrightarrow> prefix dst k \<Longrightarrow> k = dst"
  using assms by (auto simp: movable_def list_ex_iff strict_prefix_def)

lemma renamed_inj:
  assumes "movable src dst s"
  shows "inj_on (renamed src dst) (fst ` set (nodes s) - {dst})"
  using movableD [OF assms]
  by (fastforce simp: inj_on_def renamed_def prefix_def split: if_splits)

lemma nodes_move:
  "nodes (move_subtree src dst s) =
     map (\<lambda>(k, n). (renamed src dst k, n)) (filter (\<lambda>(k', _). k' \<noteq> dst) (nodes s))"
  by (simp add: move_subtree_def drop_node_def renamed_def Let_def)

lemma distinct_move:
  assumes "tree_ok s" and "movable src dst s"
  shows "distinct (map fst (nodes (move_subtree src dst s)))"
proof -
  let ?xs = "filter (\<lambda>(k', _). k' \<noteq> dst) (nodes s)"
  have e: "map fst (nodes (move_subtree src dst s)) = map (renamed src dst) (map fst ?xs)"
    by (auto simp: nodes_move)
  have "distinct (map fst ?xs)" using assms(1) by (simp add: tree_ok_def distinct_map_filter)
  moreover have "inj_on (renamed src dst) (set (map fst ?xs))"
    by (rule inj_on_subset [OF renamed_inj [OF assms(2)]]) auto
  ultimately show ?thesis unfolding e by (simp only: distinct_map)
qed

lemma option_eqI: "(\<And>n. x = Some n \<longleftrightarrow> y = Some n) \<Longrightarrow> x = y"
  by (cases x; cases y) auto

lemma node_at_move:
  assumes "tree_ok s" and "movable src dst s"
  shows "node_at (move_subtree src dst s) j =
     (if prefix dst j then node_at s (src @ drop (length dst) j)
      else if prefix src j then None else node_at s j)"
proof -
  note mv = movableD [OF assms(2)]
  have d: "distinct (map fst (nodes s))" using assms(1) by (simp add: tree_ok_def)
  have mem: "map_of (nodes (move_subtree src dst s)) j = Some n \<longleftrightarrow>
      (\<exists>k. (k, n) \<in> set (nodes s) \<and> k \<noteq> dst \<and> j = renamed src dst k)" for n
    unfolding map_of_eq_Some_iff [OF distinct_move [OF assms]]
    unfolding nodes_move by auto
  have at': "map_of (nodes (move_subtree src dst s)) j = Some n \<longleftrightarrow>
      (if prefix dst j then map_of (nodes s) (src @ drop (length dst) j)
       else if prefix src j then None else map_of (nodes s) j) = Some n" for n
  proof (cases "prefix dst j")
    case True
    have "k = src @ drop (length dst) j" if "(k, n) \<in> set (nodes s)" "k \<noteq> dst" "j = renamed src dst k" for k
      using that True mv(4) [of k] by (force simp: renamed_def prefix_def split: if_splits)
    moreover have "renamed src dst (src @ drop (length dst) j) = j"
      using True by (auto simp: renamed_def prefix_def)
    moreover have "src @ drop (length dst) j \<noteq> dst" using mv(1) by (metis prefixI)
    ultimately show ?thesis using True unfolding mem by (auto simp: d)
  next
    case False
    have "k = j \<and> \<not> prefix src j" if "j = renamed src dst k" for k
      using that False by (auto simp: renamed_def split: if_splits)
    moreover have "j \<noteq> dst" using False by auto
    ultimately show ?thesis using False unfolding mem by (auto simp: d renamed_def)
  qed
  have at: "map_of (nodes (move_subtree src dst s)) j =
      (if prefix dst j then map_of (nodes s) (src @ drop (length dst) j)
       else if prefix src j then None else map_of (nodes s) j)"
    by (rule option_eqI) (rule at')
  show ?thesis
  proof (cases "j = []")
    case True
    then show ?thesis using mv(2,3) by (simp add: node_at_def)
  next
    case False
    with mv(3) show ?thesis by (simp add: node_at_def at)
  qed
qed

lemma tree_ok_move:
  assumes "tree_ok s" and "movable src dst s" and "dir_at s (butlast dst)"
  shows "tree_ok (move_subtree src dst s)"
proof -
  note mv = movableD [OF assms(2)] and at = node_at_move [OF assms(1,2)]
  have "j \<noteq> [] \<and> dir_at (move_subtree src dst s) (butlast j)"
    if j: "j \<in> fst ` set (nodes (move_subtree src dst s))" for j
  proof -
    obtain k where k: "k \<in> fst ` set (nodes s)" "k \<noteq> dst" "j = renamed src dst k"
      using j unfolding nodes_move by force
    have p: "k \<noteq> []" "dir_at s (butlast k)" using assms(1) k(1) by (auto simp: tree_ok_def)
    show ?thesis
    proof (cases "prefix src k")
      case False
      then have "j = k" using k(3) by (simp add: renamed_def)
      moreover have "\<not> prefix dst (butlast k)"
        using mv(4) [OF k(1)] k(2) prefixeq_butlast [of k] by (auto intro: prefix_order.trans)
      moreover have "\<not> prefix src (butlast k)"
        using False prefixeq_butlast [of k] by (auto intro: prefix_order.trans)
      ultimately show ?thesis using p by (simp add: dir_at_def at)
    next
      case True
      then obtain ys where ys: "k = src @ ys" by (auto simp: prefix_def)
      then have j': "j = dst @ ys" using k(3) by (simp add: renamed_def)
      show ?thesis
      proof (cases "ys = []")
        case True
        have "\<not> prefix src (butlast dst)" "\<not> prefix dst (butlast dst)"
          using mv(1,2) prefixeq_butlast [of dst] strict_prefix_butlast [OF mv(2)]
          by (auto intro: prefix_order.trans simp: strict_prefix_def dest: prefix_order.antisym)
        then show ?thesis using assms(3) mv(2) by (simp add: dir_at_def at j' True)
      next
        case False
        then show ?thesis using p mv(2) by (simp add: dir_at_def at j' ys butlast_append)
      qed
    qed
  qed
  then show ?thesis using distinct_move [OF assms(1,2)] by (simp add: tree_ok_def)
qed

lemma tree_ok_mkdir: "tree_ok s \<Longrightarrow> tree_ok (snd (fs_mkdir p s))"
  by (auto simp: fs_mkdir_def std_create_directory_def node_at_def intro!: tree_ok_put
      dest: resolve_parent split: sum.splits option.splits node.splits if_splits)

lemma tree_ok_remove: "tree_ok s \<Longrightarrow> tree_ok (snd (remove_file p s))"
  by (auto simp: remove_file_def std_remove_def intro!: tree_ok_drop
      split: sum.splits option.splits if_splits)

lemma tree_ok_write: "tree_ok s \<Longrightarrow> tree_ok (snd (write_all p d s))"
  by (auto simp: write_all_def stream_write_def node_at_def dir_at_def intro!: tree_ok_put
      dest: resolve_parent split: sum.splits option.splits node.splits if_splits)

lemma tree_ok_fs_move: "tree_ok s \<Longrightarrow> tree_ok (snd (fs_move p q s))"
  by (auto simp: fs_move_def std_rename_def movable_def intro!: tree_ok_move
      dest: resolve_parent split: sum.splits option.splits if_splits)

lemmas tree_ok_ops [simp] = tree_ok_mkdir tree_ok_remove tree_ok_write tree_ok_fs_move

lemma tree_ok_results:
  "fs_mkdir p s = (r, s') \<Longrightarrow> tree_ok s \<Longrightarrow> tree_ok s'"
  "remove_file p s = (r, s') \<Longrightarrow> tree_ok s \<Longrightarrow> tree_ok s'"
  "write_all p d s = (r, s') \<Longrightarrow> tree_ok s \<Longrightarrow> tree_ok s'"
  "fs_move p q s = (r, s') \<Longrightarrow> tree_ok s \<Longrightarrow> tree_ok s'"
  using tree_ok_ops by (metis snd_conv)+

subsection \<open>What the operations do to files\<close>

definition same_files :: "vfs \<Rightarrow> vfs \<Rightarrow> bool" where
  "same_files s s' \<longleftrightarrow> (\<forall>k d. node_at s' k = Some (File d) \<longleftrightarrow> node_at s k = Some (File d))"

lemma same_files_refl [simp]: "same_files s s"
  by (simp add: same_files_def)

lemma mkdir_effect:
  obtains "snd (fs_mkdir p s) = s"
  | j where "j \<noteq> []" "node_at s j = None" "resolve s p = Inr j" "snd (fs_mkdir p s) = put_node j Dir s"
proof -
  obtain created ec t where c: "std_create_directory s p = (created, ec, t)"
    by (cases "std_create_directory s p") auto
  then have "t = s \<or> (\<exists>j. j \<noteq> [] \<and> node_at s j = None \<and> resolve s p = Inr j \<and> t = put_node j Dir s)"
    by (auto simp: std_create_directory_def node_at_def split: sum.splits option.splits node.splits if_splits)
  moreover have "snd (fs_mkdir p s) = t" by (simp add: fs_mkdir_def c)
  ultimately show ?thesis using that by blast
qed

lemma mkdir_same_files: "same_files s (snd (fs_mkdir p s))"
  by (cases rule: mkdir_effect [of p s]) (auto simp: same_files_def node_at_put)

lemma mkdir_keeps:
  assumes "resolve s q = Inr k" and "node_at s k = Some n"
  shows "resolve (snd (fs_mkdir p s)) q = Inr k" and "node_at (snd (fs_mkdir p s)) k = Some n"
  using assms by (cases rule: mkdir_effect [of p s]; auto simp: node_at_put resolve_put_dir)+

lemma mkdir_fails [simp]: "fails (snd (fs_mkdir p s)) = fails s"
  by (cases rule: mkdir_effect [of p s]) simp_all

lemma remove_effect:
  assumes "resolve s p = Inr k" and "node_at s k = Some (File d)"
  shows "snd (remove_file p s) = s \<or> k \<noteq> [] \<and> snd (remove_file p s) = drop_node k s"
  using assms by (auto simp: remove_file_def std_remove_def)

lemma move_subtree_simps [simp]:
  "cwd (move_subtree src dst s) = cwd s" "fails (move_subtree src dst s) = fails s"
  by (simp_all add: move_subtree_def Let_def)

text \<open>A file that is moved is gone from its old name and read at the new one; nothing else changes.\<close>

lemma fs_move_file:
  assumes "tree_ok s" and "healthy s" and "fs_move p q s = (Inr (), s')"
    and "resolve s p = Inr k" and "node_at s k = Some (File d)"
  shows "\<not> file_exists s' p" and "read_all q s' = Inr d"
proof -
  obtain dst where ren: "resolve s q = Inr dst" "k \<noteq> dst" "movable k dst s" "s' = move_subtree k dst s"
    and none: "node_at s dst = None"
  proof -
    from assms(3) have ex: "\<not> std_exists s q" and r: "std_rename s p q = (0, s')"
      by (auto elim: fs_move_ok)
    from r obtain src dst where 1: "resolve s p = Inr src" "resolve s q = Inr dst"
      "src = dst \<and> s' = s \<or> \<not> prefix src dst \<and> dst \<noteq> [] \<and>
       \<not> list_ex (\<lambda>(k', _). strict_prefix dst k') (nodes s) \<and> s' = move_subtree src dst s"
      by (rule std_rename_ok) blast
    have "node_at s dst = None"
      using ex 1(2) assms(2) by (auto simp: std_exists_def stat_node_def split: option.splits)
    then show ?thesis using that [of dst] 1 assms(4,5) by (auto simp: movable_def)
  qed
  note at = node_at_move [OF assms(1) ren(3)]
  have under: "\<not> prefix dst j" if "node_at s j \<noteq> None" for j
    using tree_ok_prefix [OF assms(1), of j _ dst] that none
    by (cases "dst = j") (auto simp: strict_prefix_def dir_at_def)
  have keep: "dir_at s' j" if "dir_at s j" for j
  proof -
    have "\<not> prefix k j"
      using tree_ok_prefix [OF assms(1), of j Dir k] that assms(5)
      by (cases "k = j") (auto simp: strict_prefix_def dir_at_def)
    with under [of j] that show ?thesis by (simp add: dir_at_def ren(4) at)
  qed
  have "healthy s'" using assms(2) by (simp add: healthy_def ren(4))
  have q: "resolve s' q = Inr dst"
    by (rule resolve_mono [OF keep _ ren(1)]) (simp_all add: ren(4))
  have "node_at s' dst = Some (File d)" by (simp add: ren(4) at assms(5))
  with q \<open>healthy s'\<close> show "read_all q s' = Inr d" by (simp add: read_all_def stream_read_def)
  have "resolve s' p = Inr k"
    by (rule resolve_mono [OF keep _ assms(4)]) (simp_all add: ren(4))
  moreover have "node_at s' k = None" using under [of k] assms(5) by (simp add: ren(4) at)
  ultimately show "\<not> file_exists s' p" using \<open>healthy s'\<close> by (simp add: file_exists_iff)
qed

end
