(* ===== verification/Answer.thy ===== *)
theory Answer
  imports Json_Facts Fs
begin

text \<open>
  The text an adapter answers with, as its reader takes it: a JSON object with a status code
  and a description. Every such text written by the code has one shape, \<open>status_object\<close>; here is
  what a reader finds in it, and that it passes the C strings of the adapter interface whole.
\<close>

definition answer_of :: "string \<Rightarrow> (int \<times> string) option" where
  "answer_of out =
     (case json_parse out of
        Inl _ \<Rightarrow> None
      | Inr root \<Rightarrow>
          (case dbl_to_int (get_num root ''StatusCode'' DNaN) of
             None \<Rightarrow> None
           | Some c \<Rightarrow> Some (c, get_str root ''StatusDescription'' ''OK'')))"

definition data_of :: "string \<Rightarrow> json option" where
  "data_of out = (case json_parse out of Inl _ \<Rightarrow> None | Inr root \<Rightarrow> find_ci root ''Data'')"

definition status_object :: "int \<Rightarrow> string \<Rightarrow> (string \<times> json) list \<Rightarrow> json" where
  "status_object c desc rest =
     JObject ((''StatusCode'', JNumber (dbl_of_int c)) # (''StatusDescription'', JString desc) # rest)"

definition member_ok :: "string \<times> json \<Rightarrow> bool" where
  "member_ok m \<longleftrightarrow> json_ok (snd m) \<and> jdepth (snd m) < kMaxDepth"

text \<open>The status codes the program answers with.\<close>

definition status_code :: "int \<Rightarrow> bool" where
  "status_code c \<longleftrightarrow> c \<in> {200, 400, 403, 404, 409, 500, 501}"

lemma number_ok: "\<bar>i\<bar> \<le> 2 ^ 53 \<Longrightarrow> json_ok (JNumber (dbl_of_int i))"
  by (simp add: dbl_of_int_exact(2,3))

lemma foldr_max_bound: "(\<forall>x \<in> set xs. x \<le> b) \<Longrightarrow> foldr max xs 0 \<le> (b :: nat)"
  by (induction xs) auto

lemma status_object_ok:
  assumes "status_code c" and "\<forall>m \<in> set rest. member_ok m"
  shows "json_ok (status_object c desc rest)" and "jdepth (status_object c desc rest) \<le> kMaxDepth"
proof -
  have "\<bar>c\<bar> \<le> 2 ^ 53" using assms(1) by (auto simp: status_code_def)
  from number_ok [OF this] show "json_ok (status_object c desc rest)"
    using assms(2) by (simp add: status_object_def member_ok_def)
  have "foldr max (map (\<lambda>(k, v). jdepth v) rest) 0 \<le> kMaxDepth - 1"
    using assms(2) by (intro foldr_max_bound) (auto simp: member_ok_def)
  then show "jdepth (status_object c desc rest) \<le> kMaxDepth"
    by (simp add: status_object_def kMaxDepth_def)
qed

lemma parse_status_object:
  assumes "status_code c" and "\<forall>m \<in> set rest. member_ok m"
  shows "json_parse (dump (status_object c desc rest)) = Inr (status_object c desc rest)"
  by (rule json_parse_dump [OF status_object_ok [OF assms]])

lemma status_names:
  "iequals ''StatusCode'' ''StatusCode''" "iequals ''StatusDescription'' ''StatusDescription''"
  "\<not> iequals ''StatusCode'' ''StatusDescription''" "\<not> iequals ''StatusCode'' ''Data''"
  "\<not> iequals ''StatusDescription'' ''Data''" "iequals ''Data'' ''Data''" "\<not> iequals ''FileSize'' ''Data''"
  by code_simp+

lemma status_object_fields [simp]:
  "get_num (status_object c desc rest) ''StatusCode'' d = dbl_of_int c"
  "get_str (status_object c desc rest) ''StatusDescription'' e = desc"
  "find_ci (status_object c desc rest) ''Data'' = find_ci (JObject rest) ''Data''"
  by (simp_all add: status_object_def get_num_def get_str_def find_ci_def status_names)

lemma answer_of_status:
  assumes "status_code c" and "\<forall>m \<in> set rest. member_ok m"
  shows "answer_of (dump (status_object c desc rest)) = Some (c, desc)"
    and "data_of (dump (status_object c desc rest)) = find_ci (JObject rest) ''Data''"
proof -
  have "dbl_to_int (dbl_of_int c) = Some c"
    using assms(1) by (intro dbl_to_int_of_int) (auto simp: status_code_def)
  then show "answer_of (dump (status_object c desc rest)) = Some (c, desc)"
    and "data_of (dump (status_object c desc rest)) = find_ci (JObject rest) ''Data''"
    using assms by (simp_all add: answer_of_def data_of_def parse_status_object)
qed

subsection \<open>No NUL in what the writer prints\<close>

lemma escape_char_no_nul: "CHR 0x00 \<notin> set (escape_char c)"
proof (cases "c = CHR 0x22 \<or> c = CHR 0x5C \<or> ord c < 0x20")
  case True
  have "list_all (\<lambda>n. CHR 0x00 \<notin> set (escape_char (char_of n))) ([0x22, 0x5C] @ [0..<0x20::nat])"
    by code_simp
  moreover have "ord c \<in> set ([0x22, 0x5C] @ [0..<0x20])" using True by auto
  ultimately have "CHR 0x00 \<notin> set (escape_char (char_of (ord c)))"
    unfolding list_all_iff by blast
  then show ?thesis by simp
next
  case False
  then have "escape_char c = [c]" by (intro escape_char_plain) auto
  with False show ?thesis by auto
qed

lemma json_escape_no_nul: "CHR 0x00 \<notin> set (json_escape s)"
  by (simp add: json_escape_def escape_char_no_nul)

lemma int_to_string_no_nul: "CHR 0x00 \<notin> set (int_to_string i)"
proof
  assume "CHR 0x00 \<in> set (int_to_string i)"
  then have "is_digit CHR 0x00" by (auto simp: int_to_string_def split: if_splits dest: to_string_digits)
  then show False by (simp add: is_digit_def in_range_def)
qed

lemma intercalate_no_nul:
  "CHR 0x00 \<notin> set sep \<Longrightarrow> \<forall>x \<in> set xs. CHR 0x00 \<notin> set x \<Longrightarrow> CHR 0x00 \<notin> set (intercalate sep xs)"
  by (induction sep xs rule: intercalate.induct) auto

lemma dump_no_nul: "json_ok v \<Longrightarrow> CHR 0x00 \<notin> set (dump v)"
proof (induction v)
  case (JNumber n)
  then show ?case by (simp only: dump.simps write_number_ok int_to_string_no_nul not_False_eq_True)
next
  case (JArray es)
  have "CHR 0x00 \<notin> set (intercalate '','' (map dump es))"
    using JArray by (intro intercalate_no_nul) auto
  then show ?case by simp
next
  case (JObject ms)
  have "CHR 0x00 \<notin> set (intercalate '','' (map (\<lambda>(k, v). json_escape k @ '':'' @ dump v) ms))"
    using JObject by (intro intercalate_no_nul) (fastforce simp: json_escape_no_nul)+
  then show ?case by simp
qed (simp_all add: json_escape_no_nul)

lemma c_str_id: "CHR 0x00 \<notin> set s \<Longrightarrow> c_str s = s"
  unfolding c_str_def by (rule takeWhile_eq_all_conv [THEN iffD2]) metis

lemma c_str_cut: "CHR 0x00 \<notin> set s \<Longrightarrow> c_str (s @ CHR 0x00 # t) = s"
  unfolding c_str_def by (subst takeWhile_append2) auto

lemma c_str_status:
  "status_code c \<Longrightarrow> \<forall>m \<in> set rest. member_ok m \<Longrightarrow>
     c_str (dump (status_object c desc rest)) = dump (status_object c desc rest)"
  by (intro c_str_id dump_no_nul status_object_ok)

text \<open>A text of that shape.\<close>

definition proper :: "string \<Rightarrow> bool" where
  "proper out \<longleftrightarrow>
     (\<exists>c desc rest. out = dump (status_object c desc rest) \<and> status_code c \<and> (\<forall>m \<in> set rest. member_ok m))"

lemma properI [intro]:
  "status_code c \<Longrightarrow> \<forall>m \<in> set rest. member_ok m \<Longrightarrow> proper (dump (status_object c desc rest))"
  by (auto simp: proper_def)

lemma proper_answer: "proper out \<Longrightarrow> \<exists>c desc. answer_of out = Some (c, desc) \<and> status_code c"
  by (auto simp: proper_def dest: answer_of_status(1))

lemma proper_c_str: "proper out \<Longrightarrow> c_str out = out"
  by (auto simp: proper_def c_str_status)

lemma proper_nonempty: "proper out \<Longrightarrow> out \<noteq> []"
  by (auto simp: proper_def status_object_def)

text \<open>Text behind a NUL makes a document unreadable, while a C string ends there.\<close>

lemma parse_behind_nul:
  assumes "json_ok v" and "jdepth v \<le> kMaxDepth"
  shows "json_parse (dump v @ CHR 0x00 # t) = Err Protocol"
proof -
  have "tok_stop (CHR 0x00 # t)"
    by (simp add: tok_stop_def num_char_def is_digit_def in_range_def)
  from parse_dump [OF assms(1) _ this, of 0 "2 * length (dump v @ CHR 0x00 # t) + 1"] assms(2)
  have "parse_value (2 * length (dump v @ CHR 0x00 # t) + 1) 0 (dump v @ CHR 0x00 # t) =
      Done v (CHR 0x00 # t)" by simp
  then show ?thesis by (simp add: json_parse_def skip_ws_def is_ws_def)
qed

end
