(* ===== verification/Fs_Adapter.thy ===== *)
theory Fs_Adapter
  imports Json_Facts Fs Base64
begin

text \<open>
  The file-system adapter: the six commands of \<^verbatim>\<open>adapters/filesystem/src/fs_commands.cpp\<close> and
  the entry points of \<^verbatim>\<open>fs_adapter.cpp\<close>. A command takes the parsed request and the file
  system and returns the text of its result and the file system it leaves; \<open>os_text\<close> is
  \<^verbatim>\<open>os::error_text\<close>. The last value of a result object is optional, as \<^verbatim>\<open>std::optional<Json>\<close>.
\<close>

definition params_of :: "json \<Rightarrow> json option" where
  "params_of req = find_ci req ''Parameters''"

definition param_str :: "json option \<Rightarrow> string \<Rightarrow> string" where
  "param_str p k = (case p of None \<Rightarrow> [] | Some j \<Rightarrow> get_str j k [])"

definition result_json :: "int \<Rightarrow> string \<Rightarrow> json option \<Rightarrow> string" where
  "result_json c desc data =
     (let out = json_set (JObject []) ''StatusCode'' (JNumber (dbl_of_int c));
          out = json_set out ''StatusDescription'' (JString desc);
          out = (case data of None \<Rightarrow> out | Some d \<Rightarrow> json_set out ''Data'' d)
      in dump out)"

definition target_path :: "json option \<Rightarrow> string option" where
  "target_path p =
     (case p of
        None \<Rightarrow> None
      | Some j \<Rightarrow>
          (let folder = get_str j ''TargetFolder'' []; name = get_str j ''FileName'' []
           in if folder = [] \<or> name = [] then None else Some (path_join folder name)))"

definition missing_parameters :: string where
  "missing_parameters = result_json 400 ''Missing parameters, please check your parameters'' None"

definition list_folder :: "json \<Rightarrow> vfs \<Rightarrow> string \<times> vfs" where
  "list_folder req s =
     (let folder = param_str (params_of req) ''TargetFolder''
      in if folder = [] then (missing_parameters, s)
         else if \<not> dir_exists s folder
         then (result_json 404 (''Folder '' @ folder @ '' not found'') None, s)
         else (case list_files folder s of
                 Inl _ \<Rightarrow> (result_json 404 (''No files found in the folder '' @ folder) None, s)
               | Inr names \<Rightarrow>
                   if names = [] then (result_json 404 (''No files found in the folder '' @ folder) None, s)
                   else
                     (let files = foldl (\<lambda>a n. json_add a (JString n)) (JArray []) names;
                          data = json_set (JObject []) ''files'' files;
                          data = json_set data ''FileCount'' (JNumber (dbl_of_int (int (length names))))
                      in (result_json 200 (''There are '' @ to_string (length names) @ '' files under the '' @
                            folder @ '' folder'') (Some data), s))))"

definition separator :: "char \<Rightarrow> bool" where
  "separator c \<longleftrightarrow> c = CHR 0x5C \<or> c = CHR ''/''"

text \<open>
  The loop over the positions of \<^verbatim>\<open>folder\<close>; \<^verbatim>\<open>prefix[1]\<close> of a one-character prefix is the
  terminating NUL.
\<close>

definition skip_root :: "string \<Rightarrow> bool" where
  "skip_root pre \<longleftrightarrow>
     \<not> (length pre > 2 \<or> ((if length pre = 1 then CHR 0x00 else pre ! 1) \<noteq> CHR '':'' \<and> hd pre \<noteq> CHR 0x5C))"

fun make_levels :: "string \<Rightarrow> nat list \<Rightarrow> vfs \<Rightarrow> vfs" where
  "make_levels folder [] s = s"
| "make_levels folder (i # js) s =
     (if separator (folder ! i) \<and> \<not> skip_root (take i folder)
      then make_levels folder js (snd (fs_mkdir (take i folder) s))
      else make_levels folder js s)"

definition create_folder :: "json \<Rightarrow> vfs \<Rightarrow> string \<times> vfs" where
  "create_folder req s =
     (let folder = param_str (params_of req) ''TargetFolder''
      in if folder = [] then (missing_parameters, s)
         else if dir_exists s folder
         then (result_json 200 (''Folder '' @ folder @ '' already exists'') None, s)
         else
           (let s = make_levels folder [1..<length folder] s
            in case fs_mkdir folder s of
                 (Inl _, s) \<Rightarrow> (result_json 400 (''Error creating folder: '' @ folder) None, s)
               | (Inr _, s) \<Rightarrow>
                   (result_json 200 (''Folder '' @ folder @ '' created successfully'') None, s)))"

definition store_content :: "string \<Rightarrow> bytes \<Rightarrow> vfs \<Rightarrow> string \<times> vfs" where
  "store_content p d s =
     (case write_all p d s of
        (Inr _, s) \<Rightarrow> (result_json 200 (''Data written successfully to file: '' @ p) None, s)
      | (Inl _, s) \<Rightarrow> (result_json 400 (''Error writing to file: '' @ p) None, s))"

definition create_file :: "json \<Rightarrow> vfs \<Rightarrow> string \<times> vfs" where
  "create_file req s =
     (case target_path (params_of req) of
        None \<Rightarrow> (missing_parameters, s)
      | Some p \<Rightarrow>
          (let j = the (params_of req);
               overwrite = get_bool j ''OverwriteIfExists'' False
           in if file_exists s p \<and> \<not> overwrite
              then (result_json 409 ''File already exist and overwrite if exists flag is disabled'' None, s)
              else
                (let content = get_str j ''FileContent'' []; ctype = get_str j ''FileContentType'' []
                 in if iequals ctype ''base64''
                    then (case base64_decode content of
                            None \<Rightarrow> (result_json 400 ''FileContent is not valid base64'' None, s)
                          | Some d \<Rightarrow> store_content p d s)
                    else store_content p (as_bytes content) s)))"

text \<open>
  The archive step of \<^verbatim>\<open>read_file\<close>: the status and description so far, and whether the move
  succeeded (success when it was not tried).
\<close>

definition archive :: "string \<Rightarrow> string \<Rightarrow> bool \<Rightarrow> vfs \<Rightarrow> int \<times> string \<times> status \<times> vfs" where
  "archive p dest overwrite s =
     (let desc = ''File '' @ p @ '' read successfully''
      in if file_exists s dest
         then (if overwrite
               then (let (_, s) = remove_file dest s;
                         (r, s) = fs_move p dest s
                     in (200, desc, r, s))
               else (409, ''File '' @ dest @ '' already exists and overwrite is not allowed.'', Inr (), s))
         else (let (r, s) = fs_move p dest s in (200, desc, r, s)))"

definition read_result :: "int \<Rightarrow> string \<Rightarrow> bytes \<Rightarrow> string" where
  "read_result c desc d =
     (let out = json_set (JObject []) ''StatusCode'' (JNumber (dbl_of_int c));
          out = json_set out ''StatusDescription'' (JString desc);
          out = json_set out ''Data'' (JString (base64_encode d));
          out = json_set out ''FileSize'' (JNumber (dbl_of_int (int (length d))))
      in dump out)"

definition read_file :: "(u32 \<Rightarrow> string) \<Rightarrow> json \<Rightarrow> vfs \<Rightarrow> string \<times> vfs" where
  "read_file os_text req s =
     (let folder = param_str (params_of req) ''TargetFolder''
      in case target_path (params_of req) of
           None \<Rightarrow> (result_json 400 ''Invalid parameters.'' None, s)
         | Some p \<Rightarrow>
             if \<not> file_exists s p then (result_json 404 (''File '' @ p @ '' not found.'') None, s)
             else (case read_all p s of
                     Inl _ \<Rightarrow> (result_json 500 (''Error reading file: '' @ p) None, s)
                   | Inr d \<Rightarrow>
                       (let j = the (params_of req);
                            overwrite = get_bool j ''OverwriteIfExists'' False;
                            name = get_str j ''FileName'' [];
                            copy_dir = path_join folder ''COPY'';
                            dest = path_join copy_dir name;
                            s = (if \<not> dir_exists s copy_dir then snd (fs_mkdir copy_dir s) else s);
                            (c, desc, archived, s) = archive p dest overwrite s;
                            (c, desc) =
                              (case archived of
                                 Inl e \<Rightarrow>
                                   if c = 200
                                   then (500, ''File '' @ p @ '' was read but could not be archived to '' @
                                           dest @ '': '' @ error_detail os_text e)
                                   else (c, desc)
                               | Inr _ \<Rightarrow> (c, desc))
                        in (read_result c desc d, s))))"

definition delete_file :: "json \<Rightarrow> vfs \<Rightarrow> string \<times> vfs" where
  "delete_file req s =
     (case target_path (params_of req) of
        None \<Rightarrow> (missing_parameters, s)
      | Some p \<Rightarrow>
          if \<not> file_exists s p then (result_json 404 (''File '' @ p @ '' not found.'') None, s)
          else (case remove_file p s of
                  (Inr _, s) \<Rightarrow> (result_json 200 (''File '' @ p @ '' deleted successfully'') None, s)
                | (Inl _, s) \<Rightarrow> (result_json 400 (''Error deleting file: '' @ p) None, s)))"

definition move_file :: "json \<Rightarrow> vfs \<Rightarrow> string \<times> vfs" where
  "move_file req s =
     (let p = params_of req;
          src = target_path p;
          dest_folder = param_str p ''DestinationFolder'';
          dest_name = (case p of None \<Rightarrow> []
                       | Some j \<Rightarrow> get_str j ''DestinationFileName'' (get_str j ''FileName'' []))
      in if src = None \<or> dest_folder = [] \<or> dest_name = []
         then (result_json 400
                 ''Missing parameters: TargetFolder, FileName and DestinationFolder are required'' None, s)
         else
           (let src = the src;
                dest = path_join dest_folder dest_name;
                overwrite = get_bool (the p) ''OverwriteIfExists'' False
            in if \<not> file_exists s src
               then (result_json 404 (''File '' @ src @ '' not found.'') None, s)
               else if file_exists s dest \<and> \<not> overwrite
               then (result_json 409
                       (''File '' @ dest @ '' already exists and overwrite is not allowed.'') None, s)
               else
                 (let s = (if \<not> dir_exists s dest_folder then snd (fs_mkdir dest_folder s) else s);
                      s = (if file_exists s dest then snd (remove_file dest s) else s)
                  in case fs_move src dest s of
                       (Inr _, s) \<Rightarrow>
                         (result_json 200 (''File moved from '' @ src @ '' to '' @ dest) None, s)
                     | (Inl _, s) \<Rightarrow>
                         (result_json 400 (''Error moving file '' @ src @ '' to '' @ dest) None, s))))"

subsection \<open>The entry points\<close>

definition make_error :: "int \<Rightarrow> string \<Rightarrow> string" where
  "make_error c desc =
     dump (json_set (json_set (JObject []) ''StatusCode'' (JNumber (dbl_of_int c)))
             ''StatusDescription'' (JString desc))"

definition handlers ::
  "(u32 \<Rightarrow> string) \<Rightarrow> (string \<times> (json \<Rightarrow> vfs \<Rightarrow> string \<times> vfs)) list" where
  "handlers os_text =
     [(''listfolder'', list_folder), (''createfolder'', create_folder),
      (''createfile'', create_file), (''readfile'', read_file os_text),
      (''deletefile'', delete_file), (''movefile'', move_file), (''move'', move_file)]"

definition adapter_main :: "(u32 \<Rightarrow> string) \<Rightarrow> string \<Rightarrow> vfs \<Rightarrow> string \<times> vfs" where
  "adapter_main os_text request_json s =
     (case json_parse request_json of
        Inl _ \<Rightarrow> (make_error 400 ''Invalid JSON format.'', s)
      | Inr root \<Rightarrow>
          (let cmd = get_str root ''Command'' []
           in if cmd = []
              then (make_error 400 ''\"Command\" parameter is required.'', s)
              else (case map_of (handlers os_text) (map to_lower cmd) of
                      Some f \<Rightarrow> f root s
                    | None \<Rightarrow>
                        (make_error 404 (''Command \"'' @ cmd @ ''\" not found.''), s))))"

text \<open>
  \<^verbatim>\<open>RunAdapterCommand\<close>: the argument is a C string, \<^const>\<open>None\<close> the null pointer, and so is the
  result (\<^verbatim>\<open>to_abi\<close>; the allocation is taken to succeed).
\<close>

definition run_adapter_command :: "(u32 \<Rightarrow> string) \<Rightarrow> string option \<Rightarrow> vfs \<Rightarrow> string option \<times> vfs" where
  "run_adapter_command os_text request s =
     (case request of
        None \<Rightarrow> (Some (c_str (make_error 400 ''Empty request'')), s)
      | Some r \<Rightarrow> (let (out, s) = adapter_main os_text (c_str r) s in (Some (c_str out), s)))"

definition adapter_info :: string where
  "adapter_info =
     ''{'' @ ''\"id\":\"FileSystem\",'' @ ''\"name\":\"File System Adapter\",'' @ ''\"version\":\"1.0.0\",'' @
     ''\"vendor\":\"Veriland Consulting Ltd.\",'' @ ''\"capabilities\":['' @
     ''\"ListFolder\",\"CreateFolder\",\"CreateFile\",'' @ ''\"ReadFile\",\"DeleteFile\",\"MoveFile\"],'' @
     ''\"description\":\"Adapter providing basic file-system operations.\"'' @ ''}''"

end
