(* ===== verification/Fs_Adapter_Facts.thy ===== *)
theory Fs_Adapter_Facts
  imports Fs_Adapter Fs_Tree Answer
begin

text \<open>
  What the file-system adapter promises: every command answers with a proper result, a refused
  command changes nothing, and files that are created are read back and archived.
\<close>

subsection \<open>Every command answers\<close>

lemma result_json_status:
  "result_json c desc data =
     dump (status_object c desc (case data of None \<Rightarrow> [] | Some d \<Rightarrow> [(''Data'', d)]))"
  by (simp add: result_json_def status_object_def json_set_def Let_def split: option.split)

lemma make_error_status: "make_error c desc = dump (status_object c desc [])"
  by (simp add: make_error_def status_object_def json_set_def)

lemma read_result_status:
  "read_result c desc d =
     dump (status_object c desc
       [(''Data'', JString (base64_encode d)), (''FileSize'', JNumber (dbl_of_int (int (length d))))])"
  by (simp add: read_result_def status_object_def json_set_def Let_def)

text \<open>The file system holds no more than a \<^verbatim>\<open>double\<close> can count.\<close>

definition fs_sized :: "vfs \<Rightarrow> bool" where
  "fs_sized s \<longleftrightarrow>
     length (nodes s) \<le> 2 ^ 53 \<and>
     (\<forall>m \<in> set (nodes s). case snd m of Dir \<Rightarrow> True | File d \<Rightarrow> length d \<le> 2 ^ 53)"

lemma fs_sized_read: "fs_sized s \<Longrightarrow> read_all p s = Inr d \<Longrightarrow> length d \<le> 2 ^ 53"
  by (fastforce simp: fs_sized_def read_all_def stream_read_def node_at_def
      dest: map_of_SomeD split: sum.splits option.splits node.splits if_splits read_outcome.splits)

lemma fs_sized_list: "fs_sized s \<Longrightarrow> list_files p s = Inr ns \<Longrightarrow> length ns \<le> 2 ^ 53"
  by (auto simp: fs_sized_def list_files_def scan_dir_def
      intro: le_trans [OF length_filter_le] split: sum.splits option.splits node.splits if_splits)

lemma size_ok: "n \<le> 2 ^ 53 \<Longrightarrow> member_ok (k, JNumber (dbl_of_int (int n)))"
  using number_ok [of "int n"] by (simp add: member_ok_def kMaxDepth_def)

lemma member_ok_string [simp]: "member_ok (k, JString t)"
  by (simp add: member_ok_def kMaxDepth_def)

lemma fold_json_add:
  "foldl (\<lambda>a n. json_add a (JString n)) (JArray es) ns = JArray (es @ map JString ns)"
  by (induction ns arbitrary: es) (simp_all add: json_add_def)

lemma files_member:
  assumes "length ns \<le> 2 ^ 53"
  shows "member_ok (''Data'', json_set (json_set (JObject []) ''files'' (JArray (map JString ns))) ''FileCount''
     (JNumber (dbl_of_int (int (length ns)))))"
proof -
  have "foldr max (map jdepth (map JString ns)) 0 \<le> 1" by (intro foldr_max_bound) auto
  moreover have "json_ok (JNumber (dbl_of_int (int (length ns))))"
    by (rule number_ok) (use assms in simp)
  ultimately show ?thesis by (simp add: member_ok_def json_set_def kMaxDepth_def)
qed

lemma status_code_simps [simp]:
  "status_code 200" "status_code 400" "status_code 404" "status_code 409" "status_code 500"
  "status_code 403" "status_code 501"
  by (simp_all add: status_code_def)

lemma proper_result: "status_code c \<Longrightarrow> proper (result_json c desc None)"
  unfolding result_json_status by (rule properI) simp_all

lemma proper_result_data: "member_ok (''Data'', d) \<Longrightarrow> proper (result_json 200 desc (Some d))"
  unfolding result_json_status by (rule properI) simp_all

lemma proper_error: "status_code c \<Longrightarrow> proper (make_error c desc)"
  unfolding make_error_status by (rule properI) simp_all

lemma proper_read: "status_code c \<Longrightarrow> length d \<le> 2 ^ 53 \<Longrightarrow> proper (read_result c desc d)"
  unfolding read_result_status by (rule properI) (simp_all add: size_ok)

lemma answer_of_result:
  "status_code c \<Longrightarrow> answer_of (result_json c desc None) = Some (c, desc)"
  unfolding result_json_status by (simp add: answer_of_status)

lemma answer_of_result_data:
  "member_ok (''Data'', d) \<Longrightarrow> answer_of (result_json 200 desc (Some d)) = Some (200, desc)"
  unfolding result_json_status by (simp add: answer_of_status)

lemma answer_of_error: "status_code c \<Longrightarrow> answer_of (make_error c desc) = Some (c, desc)"
  unfolding make_error_status by (simp add: answer_of_status)

lemma answer_of_read:
  "status_code c \<Longrightarrow> length d \<le> 2 ^ 53 \<Longrightarrow> answer_of (read_result c desc d) = Some (c, desc)"
  "status_code c \<Longrightarrow> length d \<le> 2 ^ 53 \<Longrightarrow> data_of (read_result c desc d) = Some (JString (base64_encode d))"
  unfolding read_result_status by (simp_all add: answer_of_status size_ok status_names)

lemmas proper_results = proper_result proper_error proper_result_data proper_read
lemmas answer_simps = answer_of_result answer_of_error answer_of_result_data answer_of_read

lemma list_folder_proper: "fs_sized s \<Longrightarrow> proper (fst (list_folder req s))"
  by (auto simp: list_folder_def missing_parameters_def Let_def fold_json_add
      intro!: proper_results files_member dest: fs_sized_list split: sum.split)

lemma create_folder_proper: "proper (fst (create_folder req s))"
  by (auto simp: create_folder_def missing_parameters_def Let_def
      intro!: proper_results split: sum.split prod.split)

lemma store_content_proper: "proper (fst (store_content p d s))"
  by (auto simp: store_content_def intro!: proper_results split: sum.split prod.split)

lemma create_file_proper: "proper (fst (create_file req s))"
  by (auto simp: create_file_def missing_parameters_def Let_def
      intro!: proper_results store_content_proper split: option.split)

lemma archive_code: "archive p dest ov s = (c, desc, r, s') \<Longrightarrow> c = 200 \<or> c = 409"
  by (auto simp: archive_def Let_def split: if_splits prod.splits)

text \<open>The branch of \<^verbatim>\<open>read_file\<close> that has read the file: its answer and the tree it leaves.\<close>

lemma read_file_read:
  assumes "target_path (params_of req) = Some p" and "file_exists s p" and "read_all p s = Inr d"
  obtains copy_dir dest t c0 desc0 r s' c desc where
    "copy_dir = path_join (param_str (params_of req) ''TargetFolder'') ''COPY''"
    "dest = path_join copy_dir (get_str (the (params_of req)) ''FileName'' [])"
    "t = (if \<not> dir_exists s copy_dir then snd (fs_mkdir copy_dir s) else s)"
    "archive p dest (get_bool (the (params_of req)) ''OverwriteIfExists'' False) t = (c0, desc0, r, s')"
    "c = (case r of Inl _ \<Rightarrow> if c0 = 200 then 500 else c0 | Inr _ \<Rightarrow> c0)"
    "read_file os_text req s = (read_result c desc d, s')"
proof -
  define copy_dir where "copy_dir = path_join (param_str (params_of req) ''TargetFolder'') ''COPY''"
  define dest where "dest = path_join copy_dir (get_str (the (params_of req)) ''FileName'' [])"
  define t where "t = (if \<not> dir_exists s copy_dir then snd (fs_mkdir copy_dir s) else s)"
  obtain c0 desc0 r s' where a:
    "archive p dest (get_bool (the (params_of req)) ''OverwriteIfExists'' False) t = (c0, desc0, r, s')"
    by (cases "archive p dest (get_bool (the (params_of req)) ''OverwriteIfExists'' False) t") auto
  have "\<exists>desc. read_file os_text req s =
      (read_result (case r of Inl _ \<Rightarrow> if c0 = 200 then 500 else c0 | Inr _ \<Rightarrow> c0) desc d, s')"
    using assms a unfolding copy_dir_def dest_def t_def
    by (cases r) (auto simp: read_file_def Let_def)
  with that [OF copy_dir_def dest_def t_def a refl] show ?thesis by blast
qed

text \<open>The branches before that answer with a description only.\<close>

lemma read_file_refused:
  assumes "\<And>p d. target_path (params_of req) = Some p \<Longrightarrow> file_exists s p \<Longrightarrow> read_all p s \<noteq> Inr d"
  shows "\<exists>c desc. c \<in> {400, 404, 500} \<and> read_file os_text req s = (result_json c desc None, s)"
proof (cases "target_path (params_of req)")
  case None
  then show ?thesis by (simp add: read_file_def Let_def) blast
next
  case (Some p)
  show ?thesis
  proof (cases "file_exists s p")
    case True
    then obtain e where "read_all p s = Inl e" using assms [OF Some True] by (cases "read_all p s") auto
    with Some True show ?thesis by (simp add: read_file_def Let_def) blast
  next
    case False
    with Some show ?thesis by (simp add: read_file_def Let_def) blast
  qed
qed

lemma read_file_cases:
  obtains (refused) c desc where "c \<in> {400, 404, 500}" "read_file os_text req s = (result_json c desc None, s)"
  | (read) p d where "target_path (params_of req) = Some p" "file_exists s p" "read_all p s = Inr d"
  using read_file_refused [of req s os_text] by blast

lemma read_file_proper:
  assumes "fs_sized s"
  shows "proper (fst (read_file os_text req s))"
proof (cases rule: read_file_cases [of os_text req s])
  case (refused c desc)
  then show ?thesis by (auto intro!: proper_result)
next
  case (read p d)
  show ?thesis
  proof (rule read_file_read [OF read, of os_text], goal_cases)
    case (1 copy_dir dest t c0 desc0 r s' c desc)
    have "status_code c" using 1(5) archive_code [OF 1(4)] by (cases r) auto
    then show ?case using 1(6) proper_read [OF _ fs_sized_read [OF assms read(3)]] by simp
  qed
qed

lemma delete_file_proper: "proper (fst (delete_file req s))"
  by (auto simp: delete_file_def missing_parameters_def
      intro!: proper_results split: option.split sum.split prod.split)

definition move_target :: "json \<Rightarrow> string" where
  "move_target req =
     path_join (param_str (params_of req) ''DestinationFolder'')
       (case params_of req of None \<Rightarrow> []
        | Some j \<Rightarrow> get_str j ''DestinationFileName'' (get_str j ''FileName'' []))"

definition move_prepared :: "json \<Rightarrow> vfs \<Rightarrow> vfs" where
  "move_prepared req s =
     (let df = param_str (params_of req) ''DestinationFolder'';
          t = (if \<not> dir_exists s df then snd (fs_mkdir df s) else s)
      in if file_exists t (move_target req) then snd (remove_file (move_target req) t) else t)"

lemma move_file_cases:
  obtains (refused) c desc where "c \<in> {400, 404, 409}" "move_file req s = (result_json c desc None, s)"
  | (moved) src r s' desc where "target_path (params_of req) = Some src" "file_exists s src"
      "file_exists s (move_target req) \<Longrightarrow> get_bool (the (params_of req)) ''OverwriteIfExists'' False"
      "fs_move src (move_target req) (move_prepared req s) = (r, s')"
      "move_file req s = (result_json (case r of Inl _ \<Rightarrow> 400 | Inr _ \<Rightarrow> 200) desc None, s')"
proof -
  define df where "df = param_str (params_of req) ''DestinationFolder''"
  define nm where "nm = (case params_of req of None \<Rightarrow> []
    | Some j \<Rightarrow> get_str j ''DestinationFileName'' (get_str j ''FileName'' []))"
  have tgt: "move_target req = path_join df nm" by (simp add: move_target_def df_def nm_def)
  note mf = move_file_def [of req s, unfolded Let_def, folded df_def nm_def, folded tgt]
  have refuse: thesis if "\<exists>desc. move_file req s = (result_json c desc None, s)" "c \<in> {400, 404, 409}" for c
    using that refused by blast
  show ?thesis
  proof (cases "target_path (params_of req) = None \<or> df = [] \<or> nm = []")
    case True
    then show ?thesis using mf by (intro refuse [of 400]) auto
  next
    case False
    then obtain src where src: "target_path (params_of req) = Some src" by auto
    note mf = mf [unfolded src option.sel]
    show ?thesis
    proof (cases "file_exists s src")
      case nex: False
      show ?thesis using mf nex False src by (intro refuse [of 404]) auto
    next
      case ex: True
      show ?thesis
      proof (cases "file_exists s (move_target req) \<and> \<not> get_bool (the (params_of req)) ''OverwriteIfExists'' False")
        case True
        then show ?thesis using mf ex False src by (intro refuse [of 409]) auto
      next
        case ok: False
        obtain r s' where m: "fs_move src (move_target req) (move_prepared req s) = (r, s')"
          by (cases "fs_move src (move_target req) (move_prepared req s)") auto
        have "\<exists>desc. move_file req s = (result_json (case r of Inl _ \<Rightarrow> 400 | Inr _ \<Rightarrow> 200) desc None, s')"
          using mf ex ok False src m [unfolded move_prepared_def Let_def, folded df_def]
          by (cases r) auto
        then show ?thesis using moved src ex ok m by blast
      qed
    qed
  qed
qed

lemma move_file_proper: "proper (fst (move_file req s))"
proof (cases rule: move_file_cases [of req s])
  case (refused c desc)
  then show ?thesis by (auto intro!: proper_result)
next
  case (moved src r s' desc)
  then show ?thesis by (cases r) (simp_all add: proper_result)
qed

lemma handlers_cases:
  assumes "map_of (handlers os_text) n = Some f"
  obtains "f = list_folder" | "f = create_folder" | "f = create_file" | "f = read_file os_text"
  | "f = delete_file" | "f = move_file"
  using assms by (auto simp: handlers_def split: if_splits)

lemma adapter_main_proper: "fs_sized s \<Longrightarrow> proper (fst (adapter_main os_text rq s))"
  by (auto simp: adapter_main_def Let_def intro!: proper_results
      list_folder_proper create_folder_proper create_file_proper read_file_proper delete_file_proper
      move_file_proper elim!: handlers_cases split: sum.split option.split)

subsection \<open>What the commands do to the tree\<close>



lemma store_content_tree: "tree_ok s \<Longrightarrow> tree_ok (snd (store_content p d s))"
  by (auto simp: store_content_def dest: tree_ok_results split: sum.split prod.split)

lemma create_file_tree: "tree_ok s \<Longrightarrow> tree_ok (snd (create_file req s))"
  by (auto simp: create_file_def Let_def store_content_tree split: option.split)






subsection \<open>Refused commands\<close>

definition refused_code :: "int \<Rightarrow> bool" where
  "refused_code c \<longleftrightarrow> c = 404 \<or> c = 409"

lemma archive_refused: "archive p dest ov s = (409, desc, r, s') \<Longrightarrow> s' = s"
  by (auto simp: archive_def Let_def split: if_splits prod.splits)

lemma create_folder_answer:
  "answer_of (fst (create_folder req s)) = Some (c, desc) \<Longrightarrow> \<not> refused_code c"
  by (auto simp: create_folder_def missing_parameters_def Let_def answer_simps refused_code_def
      split: if_splits sum.splits prod.splits)

lemma store_content_answer:
  "answer_of (fst (store_content p d s)) = Some (c, desc) \<Longrightarrow> c = 200 \<or> c = 400"
  by (auto simp: store_content_def answer_simps split: sum.splits prod.splits)

lemma create_file_refused:
  "answer_of (fst (create_file req s)) = Some (c, desc) \<Longrightarrow> refused_code c \<Longrightarrow> snd (create_file req s) = s"
  by (auto simp: create_file_def missing_parameters_def Let_def answer_simps refused_code_def
      dest: store_content_answer split: if_splits option.splits)

lemma read_file_refused_files:
  assumes "fs_sized s" and "answer_of (fst (read_file os_text req s)) = Some (c, desc)" and "refused_code c"
  shows "same_files s (snd (read_file os_text req s))"
proof (cases rule: read_file_cases [of os_text req s])
  case (refused c desc)
  then show ?thesis by simp
next
  case (read p d)
  show ?thesis
  proof (rule read_file_read [OF read, of os_text], goal_cases)
    case (1 copy_dir dest t c0 desc0 r s' c1 desc1)
    have c1: "status_code c1" using 1(5) archive_code [OF 1(4)] by (cases r) auto
    then have "c1 = c"
      using assms(2) 1(6) answer_of_read(1) [OF c1 fs_sized_read [OF assms(1) read(3)]] by simp
    then have "c0 = 409"
      using assms(3) 1(5) archive_code [OF 1(4)] by (cases r) (auto simp: refused_code_def split: if_splits)
    then have "s' = t" using 1(4) archive_refused by blast
    then show ?case using 1(3,6) mkdir_same_files by simp
  qed
qed

lemma delete_file_refused:
  "answer_of (fst (delete_file req s)) = Some (c, desc) \<Longrightarrow> refused_code c \<Longrightarrow> snd (delete_file req s) = s"
  by (auto simp: delete_file_def missing_parameters_def answer_simps refused_code_def
      split: if_splits option.splits sum.splits prod.splits)

lemma move_file_refused:
  assumes "answer_of (fst (move_file req s)) = Some (c, desc)" and "refused_code c"
  shows "snd (move_file req s) = s"
proof (cases rule: move_file_cases [of req s])
  case (refused c desc)
  then show ?thesis by simp
next
  case (moved src r s' desc)
  then show ?thesis using assms by (cases r) (auto simp: answer_simps refused_code_def)
qed

lemma handlers_refused:
  assumes "map_of (handlers os_text) n = Some f" and "fs_sized s"
    and "answer_of (fst (f req s)) = Some (c, desc)" and "refused_code c"
  shows "same_files s (snd (f req s))"
  using assms(1)
proof (cases rule: handlers_cases)
  case 1
  then show ?thesis by (simp add: list_folder_def Let_def split: sum.split)
next
  case 2
  then show ?thesis using create_folder_answer assms(3,4) by blast
next
  case 3
  then show ?thesis using create_file_refused assms(3,4) by (metis same_files_refl)
next
  case 4
  then show ?thesis using read_file_refused_files assms(2-4) by blast
next
  case 5
  then show ?thesis using delete_file_refused assms(3,4) by (metis same_files_refl)
next
  case 6
  then show ?thesis using move_file_refused assms(3,4) by (metis same_files_refl)
qed

lemma adapter_main_refused:
  assumes "fs_sized s" and "answer_of (fst (adapter_main os_text rq s)) = Some (c, desc)" and "refused_code c"
  shows "same_files s (snd (adapter_main os_text rq s))"
  using assms handlers_refused [of os_text _ _ s _ c desc]
  by (auto simp: adapter_main_def Let_def split: sum.splits option.splits if_splits)

subsection \<open>Archiving\<close>

lemma archive_moves:
  assumes "archive p dest ov t = (200, desc, Inr (), s')" and "tree_ok t" and "healthy t"
    and "resolve t p = Inr k" and "node_at t k = Some (File d)"
  shows "\<not> file_exists s' p" and "read_all dest s' = Inr d"
proof -
  have "\<not> file_exists s' p \<and> read_all dest s' = Inr d"
  proof (cases "file_exists t dest")
    case False
    then have "fs_move p dest t = (Inr (), s')" using assms(1)
      by (auto simp: archive_def Let_def split: prod.splits)
    from fs_move_file [OF assms(2,3) this assms(4,5)] show ?thesis by blast
  next
    case True
    define u where "u = snd (remove_file dest t)"
    have mv: "fs_move p dest u = (Inr (), s')" using assms(1) True
      by (auto simp: archive_def Let_def u_def split: prod.splits if_splits)
    have h: "tree_ok u" using assms(2) by (simp add: u_def)
    obtain j e where j: "resolve t dest = Inr j" "node_at t j = Some (File e)"
      using True by (auto simp: file_exists_iff [OF assms(3)])
    from remove_effect [OF j] consider "u = t" | "j \<noteq> []" "u = drop_node j t" by (auto simp: u_def)
    then show ?thesis
    proof cases
      case 1
      then show ?thesis using fs_move_file [OF assms(2,3) _ assms(4,5)] mv by blast
    next
      case 2
      have r: "resolve u p = Inr k"
        unfolding 2(2) by (rule resolve_drop_file [OF assms(4)]) (use j 2(1) in simp_all)
      have "node_at u k \<noteq> None"
        using mv r by (auto elim!: fs_move_ok std_rename_ok)
      then have n: "node_at u k = Some (File d)"
        using 2 assms(5) by (auto simp: node_at_drop split: if_splits)
      have "healthy u" using assms(3) 2(2) by simp
      from fs_move_file [OF h this mv r n] show ?thesis by blast
    qed
  qed
  then show "\<not> file_exists s' p" and "read_all dest s' = Inr d" by blast+
qed

definition archived_path :: "json \<Rightarrow> string" where
  "archived_path req =
     path_join (path_join (param_str (params_of req) ''TargetFolder'') ''COPY'')
       (get_str (the (params_of req)) ''FileName'' [])"

lemma read_file_archives:
  assumes "healthy s" and "tree_ok s" and "fs_sized s"
    and "target_path (params_of req) = Some p"
    and "read_file os_text req s = (out, s')" and "answer_of out = Some (200, desc)"
  obtains d where "read_all p s = Inr d" "data_of out = Some (JString (base64_encode d))"
    "\<not> file_exists s' p" "read_all (archived_path req) s' = Inr d"
proof (cases rule: read_file_cases [of os_text req s])
  case (refused c desc')
  then show ?thesis using assms(5,6) by (auto simp: answer_simps)
next
  case (read q d)
  then have q: "q = p" using assms(4) by simp
  note sz = fs_sized_read [OF assms(3) read(3)]
  show ?thesis
  proof (rule read_file_read [OF read, of os_text], goal_cases)
    case (1 copy_dir dest t c0 desc0 r s'' c1 desc1)
    have c1: "status_code c1" using 1(5) archive_code [OF 1(4)] by (cases r) auto
    have out: "out = read_result c1 desc1 d" "s' = s''" using assms(5) 1(6) by auto
    have "c1 = 200" using assms(6) answer_of_read(1) [OF c1 sz] by (simp add: out)
    then have c0: "c0 = 200" "r = Inr ()"
      using 1(5) archive_code [OF 1(4)] by (cases r; auto split: if_splits)+
    obtain k where k: "resolve s p = Inr k" "node_at s k = Some (File d)"
      using read q assms(1) by (auto simp: file_exists_iff read_all_def stream_read_def)
    have t: "healthy t" "tree_ok t" "resolve t p = Inr k" "node_at t k = Some (File d)"
      using 1(3) assms(1,2) k mkdir_keeps [OF k] by (simp_all add: healthy_def)
    have "dest = archived_path req" using 1(1,2) by (simp add: archived_path_def)
    with archive_moves [OF 1(4) [unfolded c0] t(2,1)] t(3,4) q
    have "\<not> file_exists s' p" "read_all (archived_path req) s' = Inr d" by (auto simp: out)
    then show ?case
      using that read(3) q answer_of_read(2) [OF c1 sz] by (simp add: out)
  qed
qed

text \<open>What \<^verbatim>\<open>create_file\<close> is asked to store.\<close>

definition created_content :: "json \<Rightarrow> bytes" where
  "created_content req =
     (let content = param_str (params_of req) ''FileContent''
      in if iequals (param_str (params_of req) ''FileContentType'') ''base64''
         then the (base64_decode content) else as_bytes content)"

lemma store_content_stores:
  assumes "healthy s" and "store_content p d s = (out, s')" and "answer_of out = Some (200, desc)"
  shows "healthy s' \<and> tree_ok s \<longrightarrow> tree_ok s'" and "read_all p s' = Inr d" and "healthy s'"
proof -
  have w: "write_all p d s = (Inr (), s')"
    using assms(2,3) by (auto simp: store_content_def answer_simps split: prod.splits sum.splits)
  from read_after_write [OF assms(1) w] show "read_all p s' = Inr d" .
  obtain k where "s' = put_node k (File d) s" using write_all_ok [OF assms(1) w] by blast
  with assms(1) show "healthy s'" by simp
  from tree_ok_results(3) [OF w] show "healthy s' \<and> tree_ok s \<longrightarrow> tree_ok s'" by blast
qed

lemma create_file_stores:
  assumes "healthy s" and "target_path (params_of req) = Some p"
    and "create_file req s = (out, s')" and "answer_of out = Some (200, desc)"
  shows "read_all p s' = Inr (created_content req)" and "healthy s'"
proof -
  obtain j where j: "params_of req = Some j" using assms(2) by (auto simp: target_path_def split: option.splits)
  have st: "store_content p (created_content req) s = (out, s')"
    using assms(2-4)
    by (auto simp: create_file_def Let_def j created_content_def param_str_def answer_simps
        split: if_splits option.splits)
  from store_content_stores(2,3) [OF assms(1) st assms(4)]
  show "read_all p s' = Inr (created_content req)" "healthy s'" by blast+
qed

text \<open>Moving a file onto itself with the overwrite flag.\<close>

lemma remove_file_healthy:
  assumes "healthy s" and "tree_ok s" and "resolve s p = Inr k" and "node_at s k = Some (File d)"
  shows "snd (remove_file p s) = drop_node k s"
proof -
  have "k \<noteq> []" using assms(4) by (auto simp: node_at_def)
  moreover have "\<not> list_ex (\<lambda>(k', _). strict_prefix k k') (nodes s)"
  proof
    assume "list_ex (\<lambda>(k', _). strict_prefix k k') (nodes s)"
    then obtain k' where k': "k' \<in> fst ` set (nodes s)" "strict_prefix k k'" by (force simp: list_ex_iff)
    then obtain n where "map_of (nodes s) k' = Some n" using map_of_eq_None_iff [of "nodes s" k'] by blast
    moreover have "k' \<noteq> []" using k'(2) by auto
    ultimately have "node_at s k' = Some n" by (simp add: node_at_def)
    from tree_ok_prefix [OF assms(2) this k'(2)] assms(4) show False by (simp add: dir_at_def)
  qed
  ultimately show ?thesis using assms by (simp add: remove_file_def std_remove_def)
qed

lemma move_onto_itself:
  assumes "healthy s" and "tree_ok s" and "params_of req = Some j"
    and "target_path (params_of req) = Some p" and "move_target req = p" and "file_exists s p"
    and "get_bool j ''OverwriteIfExists'' False" and "get_str j ''DestinationFolder'' [] \<noteq> []"
    and "get_str j ''DestinationFileName'' (get_str j ''FileName'' []) \<noteq> []"
  shows "\<exists>desc. answer_of (fst (move_file req s)) = Some (400, desc)"
    and "\<not> file_exists (snd (move_file req s)) p"
proof -
  obtain k d where k: "resolve s p = Inr k" "node_at s k = Some (File d)"
    using assms(6) by (auto simp: file_exists_iff [OF assms(1)])
  have ne: "k \<noteq> []" using k(2) by (auto simp: node_at_def)
  define t where "t = (if \<not> dir_exists s (get_str j ''DestinationFolder'' [])
    then snd (fs_mkdir (get_str j ''DestinationFolder'' []) s) else s)"
  have t: "healthy t" "tree_ok t" "resolve t p = Inr k" "node_at t k = Some (File d)"
    using assms(1,2) k mkdir_keeps [OF k] by (simp_all add: t_def healthy_def)
  have ex: "file_exists t p" using t by (auto simp: file_exists_iff)
  define u where "u = drop_node k t"
  have prep: "move_prepared req s = u"
    using remove_file_healthy [OF t] ex
    by (simp add: move_prepared_def Let_def assms(3,5) param_str_def t_def [symmetric] u_def)
  have r: "resolve u p = Inr k"
    unfolding u_def by (rule resolve_drop_file [OF t(3)]) (use t(4) ne in simp_all)
  have none: "node_at u k = None" using ne by (simp add: u_def node_at_drop)
  have mv: "fs_move p p u = (Inl (with_code Io ENOENT), u)"
    using r none by (simp add: fs_move_def std_exists_def stat_node_def std_rename_def ENOENT_def)
  have "\<exists>desc. move_file req s = (result_json 400 desc None, u)"
    using assms mv prep
    by (auto simp: move_file_def Let_def param_str_def move_target_def move_prepared_def)
  then obtain desc where m: "move_file req s = (result_json 400 desc None, u)" by blast
  then show "\<exists>desc. answer_of (fst (move_file req s)) = Some (400, desc)" by (simp add: answer_simps)
  have "healthy u" using t(1) by (simp add: u_def)
  with m r none show "\<not> file_exists (snd (move_file req s)) p" by (simp add: file_exists_iff)
qed

subsection \<open>Properties\<close>

lemma run_adapter_command_main:
  "run_adapter_command os_text (Some rq) s =
     (Some (c_str (fst (adapter_main os_text (c_str rq) s))), snd (adapter_main os_text (c_str rq) s))"
  by (simp add: run_adapter_command_def split: prod.split)

text \<open>
  C12: whatever bytes the entry point of the adapter is called with, the null pointer included,
  and in whatever state and with whatever failures of the file system, it returns a C string that
  reads as a JSON object with one of the program's status codes and a description.
\<close>

theorem fs_answers:
  assumes "fs_sized s"
  shows "\<exists>out c desc. fst (run_adapter_command os_text rq s) = Some out \<and>
    answer_of out = Some (c, desc) \<and> status_code c"
proof (cases rq)
  case None
  have "proper (make_error 400 ''Empty request'')" by (simp add: proper_error)
  from proper_answer [OF this] proper_c_str [OF this] show ?thesis
    by (simp add: run_adapter_command_def None)
next
  case (Some t)
  from adapter_main_proper [OF assms, of os_text "c_str t"]
  show ?thesis using proper_answer proper_c_str by (simp add: Some run_adapter_command_main)
qed

definition demo_params :: "(string \<times> json) list" where
  "demo_params =
     [(''TargetFolder'', JString ''/d''), (''FileName'', JString ''f''), (''FileContent'', JString ''aGk=''),
      (''FileContentType'', JString ''Base64''), (''DestinationFolder'', JString ''/d''),
      (''OverwriteIfExists'', JBool True)]"

definition demo_request :: "string \<Rightarrow> json" where
  "demo_request cmd = JObject [(''Command'', JString cmd), (''Parameters'', JObject demo_params)]"

lemma iequals_length: "length a \<noteq> length b \<Longrightarrow> \<not> iequals a b"
  by (simp add: iequals_def)

lemma demo_lookups:
  "params_of (demo_request cmd) = Some (JObject demo_params)"
  "get_str (demo_request cmd) ''Command'' dflt = cmd"
  "get_str (JObject demo_params) ''TargetFolder'' dflt = ''/d''"
  "get_str (JObject demo_params) ''FileName'' dflt = ''f''"
  "get_str (JObject demo_params) ''FileContent'' dflt = ''aGk=''"
  "get_str (JObject demo_params) ''FileContentType'' dflt = ''Base64''"
  "get_str (JObject demo_params) ''DestinationFolder'' dflt = ''/d''"
  "get_str (JObject demo_params) ''DestinationFileName'' dflt = dflt"
  "get_bool (JObject demo_params) ''OverwriteIfExists'' b"
proof -
  have ne: "\<not> iequals ''DestinationFolder'' ''OverwriteIfExists''" by code_simp
  show "params_of (demo_request cmd) = Some (JObject demo_params)"
    "get_str (demo_request cmd) ''Command'' dflt = cmd"
    "get_str (JObject demo_params) ''TargetFolder'' dflt = ''/d''"
    "get_str (JObject demo_params) ''FileName'' dflt = ''f''"
    "get_str (JObject demo_params) ''FileContent'' dflt = ''aGk=''"
    "get_str (JObject demo_params) ''FileContentType'' dflt = ''Base64''"
    "get_str (JObject demo_params) ''DestinationFolder'' dflt = ''/d''"
    "get_str (JObject demo_params) ''DestinationFileName'' dflt = dflt"
    "get_bool (JObject demo_params) ''OverwriteIfExists'' b"
    by (simp_all add: params_of_def demo_request_def demo_params_def get_str_def get_bool_def iequals_length ne)
qed

lemma demo_paths:
  "target_path (params_of (demo_request cmd)) = Some ''/d/f''"
  "move_target (demo_request cmd) = ''/d/f''"
  "path_join ''/d'' ''COPY'' = ''/d/COPY''" "path_join ''/d/COPY'' ''f'' = ''/d/COPY/f''"
  "target_path (Some (JObject demo_params)) = Some ''/d/f''"
  by (simp_all add: target_path_def move_target_def demo_lookups param_str_def path_join_def)

lemma demo_vfs_facts: "fs_sized demo_vfs" "healthy demo_vfs" "tree_ok demo_vfs"
proof -
  show "fs_sized demo_vfs" by (simp add: fs_sized_def demo_vfs_def)
  show "healthy demo_vfs" by (simp add: healthy_def demo_vfs_def)
  show "tree_ok demo_vfs" by (simp add: tree_ok_def demo_vfs_def)
qed

lemma fs_answers_witness:
  "\<exists>out c desc. fst (run_adapter_command (\<lambda>_. []) (Some ''no json'') demo_vfs) = Some out \<and>
     answer_of out = Some (c, desc) \<and> status_code c"
  by (rule fs_answers [OF demo_vfs_facts(1)])

text \<open>
  C13: a command that is answered with 404 or 409 has changed no file, neither the one it names nor
  another: at most it has made a directory.
\<close>

theorem fs_refusal_harmless:
  assumes "fs_sized s" and "answer_of (fst (adapter_main os_text rq s)) = Some (c, desc)"
    and "c = 404 \<or> c = 409"
  shows "same_files s (snd (adapter_main os_text rq s))"
  using assms(3) by (intro adapter_main_refused [OF assms(1,2)]) (simp add: refused_code_def)

lemma fs_refusal_harmless_witness:
  "\<exists>desc. answer_of (fst (adapter_main (\<lambda>_. []) (dump (demo_request ''ReadFile'')) demo_vfs)) = Some (404, desc) \<and>
     same_files demo_vfs (snd (adapter_main (\<lambda>_. []) (dump (demo_request ''ReadFile'')) demo_vfs))"
proof -
  have j: "json_parse (dump (demo_request ''ReadFile'')) = Inr (demo_request ''ReadFile'')"
    by (rule json_parse_dump) (simp_all add: demo_request_def demo_params_def kMaxDepth_def)
  have n: "map to_lower ''ReadFile'' = ''readfile''" "file_exists demo_vfs ''/d/f'' = False"
    by code_simp+
  have "fst (read_file (\<lambda>_. []) (demo_request ''ReadFile'') demo_vfs) =
      result_json 404 ''File /d/f not found.'' None" by (simp add: read_file_def Let_def n demo_paths)
  then have a: "answer_of (fst (adapter_main (\<lambda>_. []) (dump (demo_request ''ReadFile'')) demo_vfs)) =
      Some (404, ''File /d/f not found.'')"
    unfolding adapter_main_def j by (simp add: n demo_lookups handlers_def answer_simps del: list.map)
  from fs_refusal_harmless [OF demo_vfs_facts(1) a] a show ?thesis by blast
qed



text \<open>
  C11: what \<^verbatim>\<open>CreateFile\<close> stored, \<^verbatim>\<open>ReadFile\<close> returns: on a file system without faults, when both are
  answered with 200, the data of the second answer is the base64 of the content of the first
  request (decoded when that was base64), and the file has moved from its place to the archive
  \<^verbatim>\<open>COPY\<close>, with that content.
\<close>

theorem fs_create_read:
  assumes "healthy s" and "tree_ok s" and "target_path (params_of req) = Some p"
    and "create_file req s = (out1, s1)" and "answer_of out1 = Some (200, desc1)"
    and "fs_sized s1" and "target_path (params_of req') = Some p"
    and "read_file os_text req' s1 = (out2, s2)" and "answer_of out2 = Some (200, desc2)"
  shows "data_of out2 = Some (JString (base64_encode (created_content req))) \<and>
    \<not> file_exists s2 p \<and> read_all (archived_path req') s2 = Inr (created_content req)"
proof -
  from create_file_stores [OF assms(1,3,4,5)] have 1: "read_all p s1 = Inr (created_content req)" "healthy s1"
    by blast+
  have "tree_ok s1" using create_file_tree [OF assms(2), of req] assms(4) by simp
  from read_file_archives [OF 1(2) this assms(6-9)] 1(1) show ?thesis by (metis sum.inject(2))
qed

lemma fs_create_read_witness:
  "\<exists>s1. snd (create_file (demo_request ''CreateFile'') demo_vfs) = s1 \<and>
     data_of (fst (read_file (\<lambda>_. []) (demo_request ''ReadFile'') s1)) = Some (JString ''aGk='') \<and>
     \<not> file_exists (snd (read_file (\<lambda>_. []) (demo_request ''ReadFile'') s1)) ''/d/f''"
proof -
  define s1 where "s1 = put_node [''d'', ''f''] (File [0x68, 0x69]) demo_vfs"
  note t = demo_paths(1)
  have r: "resolve demo_vfs ''/d/f'' = Inr [''d'', ''f'']" "resolve demo_vfs ''/d/COPY'' = Inr [''d'', ''COPY'']"
    by (simp_all add: resolve_def c_str_def Let_def node_at_def demo_vfs_def)
  have w: "write_all ''/d/f'' [0x68, 0x69] demo_vfs = (Inr (), s1)"
  proof -
    from r show ?thesis by (simp add: write_all_def stream_write_def s1_def) (simp add: demo_vfs_def node_at_def)
  qed
  have f: "file_exists demo_vfs ''/d/f'' = False"
    using r by (simp add: file_exists_def std_is_regular_file_def stat_node_def) (simp add: demo_vfs_def node_at_def)
  have i: "iequals ''Base64'' ''base64'' = True" by code_simp
  have b64: "base64_decode ''aGk='' = Some [0x68, 0x69]" by code_simp
  note f = f i b64
  have c: "create_file (demo_request ''CreateFile'') demo_vfs =
      (result_json 200 ''Data written successfully to file: /d/f'' None, s1)"
    by (simp add: create_file_def demo_paths demo_lookups Let_def f store_content_def w)
  have a: "answer_of (result_json 200 ''Data written successfully to file: /d/f'' None) =
      Some (200, ''Data written successfully to file: /d/f'')" by (simp add: answer_simps)
  have z: "fs_sized s1" by (simp add: s1_def fs_sized_def put_node_def demo_vfs_def)
  have "fst (read_file (\<lambda>_. []) (demo_request ''ReadFile'') s1) =
      read_result 200 ''File /d/f read successfully'' [0x68, 0x69]"
  proof -
    from r have k: "resolve s1 ''/d/f'' = Inr [''d'', ''f'']" "resolve s1 ''/d/COPY'' = Inr [''d'', ''COPY'']"
      unfolding s1_def by (auto intro!: resolve_put_file simp: demo_vfs_def node_at_def)
    have e: "file_exists s1 ''/d/f'' = True" "dir_exists s1 ''/d/COPY'' = False"
      using k by (simp_all add: file_exists_def std_is_regular_file_def dir_exists_def std_is_directory_def
          stat_node_def s1_def demo_vfs_def node_at_def put_node_def)
    note e = e read_after_write [OF demo_vfs_facts(2) w]
    have mk: "snd (fs_mkdir ''/d/COPY'' s1) = put_node [''d'', ''COPY''] Dir s1"
      by (simp add: fs_mkdir_def std_create_directory_def k)
        (simp add: s1_def demo_vfs_def node_at_def put_node_def)
    define t where "t = demo_vfs\<lparr>nodes := [([''d''], Dir), ([''d'', ''f''], File [0x68, 0x69]), ([''d'', ''COPY''], Dir)]\<rparr>"
    have t: "put_node [''d'', ''COPY''] Dir s1 = t" by (simp add: t_def s1_def put_node_def demo_vfs_def)
    have "resolve t ''/d/f'' = Inr [''d'', ''f'']" "resolve t ''/d/COPY/f'' = Inr [''d'', ''COPY'', ''f'']"
      by (simp_all add: resolve_def c_str_def Let_def node_at_def t_def demo_vfs_def)
    then have m: "file_exists (put_node [''d'', ''COPY''] Dir s1) ''/d/COPY/f'' = False"
      "fst (fs_move ''/d/f'' ''/d/COPY/f'' (put_node [''d'', ''COPY''] Dir s1)) = Inr ()"
      unfolding t
      by (simp_all add: file_exists_def std_is_regular_file_def fs_move_def std_exists_def stat_node_def
          std_rename_def t_def node_at_def demo_vfs_def)
    then have "fst (archive ''/d/f'' ''/d/COPY/f'' True (put_node [''d'', ''COPY''] Dir s1)) = 200 \<and>
        fst (snd (archive ''/d/f'' ''/d/COPY/f'' True (put_node [''d'', ''COPY''] Dir s1))) =
          ''File /d/f read successfully'' \<and>
        fst (snd (snd (archive ''/d/f'' ''/d/COPY/f'' True (put_node [''d'', ''COPY''] Dir s1)))) = Inr ()"
      by (simp add: archive_def Let_def split: prod.split)
    then show ?thesis
      by (cases "archive ''/d/f'' ''/d/COPY/f'' True (put_node [''d'', ''COPY''] Dir s1)")
        (simp add: read_file_def demo_paths demo_lookups param_str_def Let_def e mk)
  qed
  then have r: "answer_of (fst (read_file (\<lambda>_. []) (demo_request ''ReadFile'') s1)) =
      Some (200, ''File /d/f read successfully'')" by (simp add: answer_simps)
  have "base64_encode [0x68, 0x69] = ''aGk=''" by code_simp
  then have b: "base64_encode (created_content (demo_request ''CreateFile'')) = ''aGk=''"
    by (simp add: created_content_def param_str_def demo_lookups f)
  from fs_create_read [OF demo_vfs_facts(2,3) t c a z t prod.collapse [symmetric] r] b c
  show ?thesis by simp
qed

text \<open>
  C15: \<^verbatim>\<open>MoveFile\<close> with the overwrite flag whose destination is the file itself deletes the file: it
  removes the destination first, then fails to move and answers 400.
\<close>

theorem fs_self_move_deletes:
  assumes "healthy s" and "tree_ok s" and "params_of req = Some j"
    and "target_path (params_of req) = Some p" and "move_target req = p" and "file_exists s p"
    and "get_bool j ''OverwriteIfExists'' False" and "get_str j ''DestinationFolder'' [] \<noteq> []"
    and "get_str j ''DestinationFileName'' (get_str j ''FileName'' []) \<noteq> []"
  shows "(\<exists>desc. answer_of (fst (move_file req s)) = Some (400, desc)) \<and>
    \<not> file_exists (snd (move_file req s)) p"
  using move_onto_itself [OF assms] by blast

lemma fs_self_move_deletes_witness:
  "file_exists (put_node [''d'', ''f''] (File [1]) demo_vfs) ''/d/f'' \<and>
   \<not> file_exists (snd (move_file (demo_request ''MoveFile'') (put_node [''d'', ''f''] (File [1]) demo_vfs))) ''/d/f''"
proof -
  define s where "s = put_node [''d'', ''f''] (File [1]) demo_vfs"
  have h: "healthy s" using demo_vfs_facts(2) by (simp add: s_def)
  have o: "tree_ok s" unfolding s_def
    by (rule tree_ok_put [OF demo_vfs_facts(3)]) (simp_all add: dir_at_def node_at_def demo_vfs_def)
  have e: "file_exists s ''/d/f''" unfolding s_def by code_simp
  have f: "get_str (JObject demo_params) ''DestinationFolder'' [] \<noteq> []"
    "get_str (JObject demo_params) ''DestinationFileName'' (get_str (JObject demo_params) ''FileName'' []) \<noteq> []"
    by (simp_all add: demo_lookups)
  from fs_self_move_deletes [OF h o demo_lookups(1) demo_paths(1,2) e demo_lookups(9) f] e
  show ?thesis by (simp add: s_def)
qed

end
