(* ===== verification/Adapter.thy ===== *)
theory Adapter
  imports Answer Log
begin

text \<open>
  \<^verbatim>\<open>core/src/vc_adapter.cpp\<close>: loading adapters and dispatching a command to one. The shared
  libraries, the impersonation backend, the directory scan and the log are operations of the
  record \<open>host\<close> over a world; an adapter's entry points take and return C strings.
\<close>

record ('w) dynlib =
  dl_run :: "(string \<Rightarrow> 'w \<Rightarrow> string option \<times> 'w) option"
  dl_free :: bool
  dl_info :: "string option option"

record ('w) adapter =
  ad_id :: string
  ad_path :: string
  ad_run :: "string \<Rightarrow> 'w \<Rightarrow> string option \<times> 'w"

type_synonym imp_error = "error \<times> string"

record ('w) host =
  h_open :: "string \<Rightarrow> 'w dynlib option"
  h_impersonate :: "string \<Rightarrow> string \<Rightarrow> string \<Rightarrow> 'w \<Rightarrow> (imp_error + unit) \<times> 'w"
  h_revert :: "'w \<Rightarrow> 'w"
  h_list :: "string \<Rightarrow> 'w \<Rightarrow> string list result"
  h_log :: "level \<Rightarrow> string \<Rightarrow> 'w \<Rightarrow> 'w"
  h_lib_ext :: string

definition iends_with :: "string \<Rightarrow> string \<Rightarrow> bool" where
  "iends_with s sfx =
     (if length s < length sfx then False
      else iequals (drop (length s - length sfx) s) sfx)"

definition json_error :: "int \<Rightarrow> string \<Rightarrow> string" where
  "json_error c desc =
     dump (json_set (json_set (JObject []) ''StatusCode'' (JNumber (dbl_of_int c)))
             ''StatusDescription'' (JString desc))"

definition adapter_load :: "'w host \<Rightarrow> string \<Rightarrow> 'w adapter option" where
  "adapter_load h path =
     (case h_open h path of
        None \<Rightarrow> None
      | Some lib \<Rightarrow>
          if dl_run lib = None \<or> \<not> dl_free lib then None
          else
            (let ident =
               (case dl_info lib of
                  None \<Rightarrow> []
                | Some None \<Rightarrow> []
                | Some (Some raw) \<Rightarrow>
                    (case json_parse (c_str raw) of Inl _ \<Rightarrow> [] | Inr root \<Rightarrow> get_str root ''id'' []))
             in Some \<lparr>ad_id = (if ident = [] then path else ident), ad_path = path, ad_run = the (dl_run lib)\<rparr>))"

definition adapter_run :: "'w adapter \<Rightarrow> string \<Rightarrow> 'w \<Rightarrow> string \<times> 'w" where
  "adapter_run ad request_json w =
     (case ad_run ad (c_str request_json) w of
        (None, w) \<Rightarrow> ([], w)
      | (Some raw, w) \<Rightarrow> (c_str raw, w))"

text \<open>The registry is the list of its adapters.\<close>

fun load_each :: "'w host \<Rightarrow> string \<Rightarrow> string list \<Rightarrow> 'w adapter list \<Rightarrow> 'w \<Rightarrow> 'w adapter list \<times> 'w" where
  "load_each h dir [] ads w = (ads, w)"
| "load_each h dir (n # ns) ads w =
     (if \<not> iends_with n (h_lib_ext h) then load_each h dir ns ads w
      else (case adapter_load h (path_join dir n) of
              None \<Rightarrow> load_each h dir ns ads w
            | Some ad \<Rightarrow>
                load_each h dir ns (ads @ [ad])
                  (h_log h Info (''Loaded adapter '' @ [CHR 0x27] @ ad_id ad @ [CHR 0x27] @ '' from '' @ ad_path ad) w)))"

definition registry_load ::
  "'w host \<Rightarrow> string \<Rightarrow> 'w adapter list \<Rightarrow> 'w \<Rightarrow> status \<times> 'w adapter list \<times> 'w" where
  "registry_load h dir ads w =
     (case h_list h dir w of
        Inl _ \<Rightarrow> (Err NotFound, ads, w)
      | Inr names \<Rightarrow>
          (let (ads, w) = load_each h dir names ads w
           in (if ads = [] then Err NotFound else Inr (), ads, w)))"

definition registry_find :: "'w adapter list \<Rightarrow> string \<Rightarrow> 'w adapter option" where
  "registry_find ads ident = find (\<lambda>ad. iequals (ad_id ad) ident) ads"

text \<open>The credentials a request carries: user, domain, password.\<close>

definition credentials :: "json \<Rightarrow> string \<times> string \<times> string" where
  "credentials root =
     (let uc = (case find_ci root ''Parameters'' of
                  None \<Rightarrow> None
                | Some params \<Rightarrow> find_ci params ''UserCredentials'');
          uc = (case uc of None \<Rightarrow> find_ci root ''UserCredentials'' | Some j \<Rightarrow> Some j)
      in case uc of
           None \<Rightarrow> ([], [], [])
         | Some j \<Rightarrow> (get_str j ''Username'' [], get_str j ''Domain'' [], get_str j ''Password'' []))"

text \<open>The adapter a request names, if it is known, and its credentials.\<close>

definition route :: "'w adapter list \<Rightarrow> string \<Rightarrow> 'w adapter option \<times> string \<times> string \<times> string" where
  "route ads request_json =
     (case json_parse request_json of
        Inl _ \<Rightarrow> (None, [], [], [])
      | Inr root \<Rightarrow>
          (let ident = get_str root ''Adapter'' []
           in (if ident \<noteq> [] then registry_find ads ident else None, credentials root)))"

text \<open>Running the command once the impersonation, if any, has begun.\<close>

definition run_in_host :: "'w host \<Rightarrow> 'w adapter \<Rightarrow> string \<Rightarrow> string \<Rightarrow> 'w \<Rightarrow> string \<times> 'w" where
  "run_in_host h ad user request_json w =
     (let w = (if user \<noteq> []
               then h_log h Info (''Impersonating user '' @ [CHR 0x27] @ user @ [CHR 0x27] @
                 '' for this command'') w
               else w);
          (result, w) = adapter_run ad request_json w;
          w = (if user \<noteq> [] then h_revert h w else w)
      in (if result = [] then json_error 500 ''Adapter returned no result'' else result, w))"

definition dispatch :: "'w host \<Rightarrow> 'w adapter list \<Rightarrow> string \<Rightarrow> 'w \<Rightarrow> string \<times> 'w" where
  "dispatch h ads request_json w =
     (let (ad, user, domain, pass) = route ads request_json
      in if ad = None \<and> ads = [] then (json_error 404 ''No adapter available'', w)
         else
           (let ad = (case ad of None \<Rightarrow> hd ads | Some a \<Rightarrow> a);
                (imp, w) = (if user \<noteq> [] then h_impersonate h user domain pass w else (Inr (), w))
            in case imp of
                 Inl (e, msg) \<Rightarrow>
                   (json_error (if error_is e Unsupported then 501 else 403) msg,
                    h_log h Error_level (''Impersonation failed for user '' @ [CHR 0x27] @ user @ [CHR 0x27] @
                      '': '' @ msg) w)
               | Inr _ \<Rightarrow> run_in_host h ad user request_json w))"

text \<open>\<^verbatim>\<open>Impersonation::begin\<close> of \<^verbatim>\<open>platform/posix/vc_impersonate_posix.cpp\<close>.\<close>

definition posix_impersonate :: "string \<Rightarrow> string \<Rightarrow> string \<Rightarrow> 'w \<Rightarrow> (imp_error + unit) \<times> 'w" where
  "posix_impersonate user domain pass w =
     (Inl (mk_error Unsupported, ''Impersonation via UserCredentials is not supported on this platform''), w)"

subsection \<open>What a dispatch promises\<close>

lemma json_error_status: "json_error c desc = dump (status_object c desc [])"
  by (simp add: json_error_def status_object_def json_set_def)

lemma json_error_answer:
  "status_code c \<Longrightarrow> answer_of (json_error c desc) = Some (c, desc)" "json_error c desc \<noteq> []"
  unfolding json_error_status
  by (rule answer_of_status, simp_all only: list.set ball_empty)
    (simp add: status_object_def)

lemma registry_find_mem: "registry_find ads i = Some ad \<Longrightarrow> ad \<in> set ads"
  by (auto simp: registry_find_def find_Some_iff)

lemma route_mem: "route ads rq = (Some ad, user, domain, pass) \<Longrightarrow> ad \<in> set ads"
  by (auto simp: route_def Let_def dest: registry_find_mem split: sum.splits if_splits)

text \<open>
  What a dispatch relies on: in a good world every adapter of the registry answers with a
  result that reads as one, and neither the log nor the impersonation spoils the world.
\<close>

locale adapter_host =
  fixes h :: "'w host"
    and ads :: "'w adapter list"
    and good :: "'w \<Rightarrow> bool"
  assumes run_answers: "ad \<in> set ads \<Longrightarrow> good w \<Longrightarrow>
      \<exists>c desc. answer_of (fst (adapter_run ad rq w)) = Some (c, desc) \<and> status_code c"
    and log_good: "good w \<Longrightarrow> good (h_log h l m w)"
    and impersonate_good: "good w \<Longrightarrow> good (snd (h_impersonate h u d p w))"
begin

lemma run_nonempty:
  assumes "ad \<in> set ads" and "good w"
  shows "fst (adapter_run ad rq w) \<noteq> []"
proof
  assume e: "fst (adapter_run ad rq w) = []"
  have "answer_of [] = None" by code_simp
  with run_answers [OF assms, of rq] e show False by simp
qed

lemma run_in_host_answers:
  assumes "ad \<in> set ads" and "good w"
  shows "\<exists>c desc. answer_of (fst (run_in_host h ad user rq w)) = Some (c, desc) \<and> status_code c"
proof -
  define w1 where "w1 = (if user \<noteq> []
    then h_log h Info (''Impersonating user '' @ [CHR 0x27] @ user @ [CHR 0x27] @ '' for this command'') w else w)"
  have w1: "good w1" using assms(2) log_good by (simp add: w1_def)
  obtain result w2 where r: "adapter_run ad rq w1 = (result, w2)" by (cases "adapter_run ad rq w1") auto
  have "fst (run_in_host h ad user rq w) = result"
    using run_nonempty [OF assms(1) w1, of rq] r
    by (simp only: run_in_host_def Let_def w1_def [symmetric]) simp
  with run_answers [OF assms(1) w1, of rq] r show ?thesis by simp
qed

lemma dispatch_answers:
  assumes "good w"
  shows "\<exists>c desc. answer_of (fst (dispatch h ads rq w)) = Some (c, desc) \<and> status_code c"
proof -
  have err: "answer_of (json_error c m) = Some (c, m)" if "c \<in> {404, 403, 501}" for c m
    using that by (intro json_error_answer(1)) (auto simp: status_code_def)
  obtain ad user domain pass where r: "route ads rq = (ad, user, domain, pass)" by (cases "route ads rq") auto
  have mem: "x \<in> set ads" if "ad = Some x" for x using route_mem r that by blast
  show ?thesis
  proof (cases "ad = None \<and> ads = []")
    case True
    then show ?thesis unfolding dispatch_def r by (simp add: err status_code_def)
  next
    case False
    define a where "a = (case ad of None \<Rightarrow> hd ads | Some a \<Rightarrow> a)"
    have a: "a \<in> set ads" using False mem by (cases ad) (auto simp: a_def)
    note d = dispatch_def [of h ads rq w, unfolded r Let_def prod.case if_not_P [OF False], folded a_def]
    show ?thesis
    proof (cases "user = []")
      case True
      then show ?thesis using run_in_host_answers [OF a assms, of user rq] by (simp add: d)
    next
      case u: False
      obtain imp v where i: "h_impersonate h user domain pass w = (imp, v)"
        by (cases "h_impersonate h user domain pass w") auto
      have v: "good v" using impersonate_good [OF assms, of user domain pass] i by simp
      show ?thesis
        using u i run_in_host_answers [OF a v, of user rq] err
        by (cases imp) (auto simp: d status_code_def split: prod.split)
    qed
  qed
qed

end

end
