(* ===== verification/Host.thy ===== *)
theory Host
  imports Adapter Fs_Adapter_Facts
begin

text \<open>
  The adapter host on POSIX, with the file-system adapter loaded: its world is the file system
  and the lines logged. The shared libraries are a parameter; the one of the file-system adapter
  is given. Here the laws of \<open>adapter_host\<close> hold, and the properties of the dispatch are stated.
\<close>

type_synonym host_world = "vfs \<times> (level \<times> string) list"

definition fs_entry :: "(u32 \<Rightarrow> string) \<Rightarrow> string \<Rightarrow> host_world \<Rightarrow> string option \<times> host_world" where
  "fs_entry os_text rq w =
     (let (s, lg) = w; (out, s) = run_adapter_command os_text (Some rq) s in (out, (s, lg)))"

definition fs_library :: "(u32 \<Rightarrow> string) \<Rightarrow> host_world dynlib" where
  "fs_library os_text =
     \<lparr>dl_run = Some (fs_entry os_text), dl_free = True, dl_info = Some (Some adapter_info)\<rparr>"

definition fs_adapter :: "(u32 \<Rightarrow> string) \<Rightarrow> string \<Rightarrow> host_world adapter" where
  "fs_adapter os_text p = \<lparr>ad_id = ''FileSystem'', ad_path = p, ad_run = fs_entry os_text\<rparr>"

definition posix_host :: "(string \<Rightarrow> host_world dynlib option) \<Rightarrow> host_world host" where
  "posix_host libs =
     \<lparr>h_open = libs, h_impersonate = posix_impersonate, h_revert = (\<lambda>w. w),
      h_list = (\<lambda>dir (s, lg). list_files dir s), h_log = (\<lambda>l m (s, lg). (s, lg @ [(l, m)])),
      h_lib_ext = ''.so''\<rparr>"

lemma posix_host_simps [simp]:
  "h_open (posix_host libs) = libs" "h_impersonate (posix_host libs) = posix_impersonate"
  "h_revert (posix_host libs) w = w" "h_list (posix_host libs) dir (s, lg) = list_files dir s"
  "h_log (posix_host libs) l m (s, lg) = (s, lg @ [(l, m)])" "h_lib_ext (posix_host libs) = ''.so''"
  by (simp_all add: posix_host_def)

lemma fst_h_log [simp]: "fst (h_log (posix_host libs) l m w) = fst w"
  by (cases w) simp

text \<open>What the adapter says of itself is a document, and names it.\<close>

definition info_object :: json where
  "info_object =
     JObject [(''id'', JString ''FileSystem''), (''name'', JString ''File System Adapter''),
       (''version'', JString ''1.0.0''), (''vendor'', JString ''Veriland Consulting Ltd.''),
       (''capabilities'', JArray (map JString
          [''ListFolder'', ''CreateFolder'', ''CreateFile'', ''ReadFile'', ''DeleteFile'', ''MoveFile''])),
       (''description'', JString ''Adapter providing basic file-system operations.'')]"

lemma adapter_info_dump: "adapter_info = dump info_object"
  by (simp add: adapter_info_def info_object_def json_escape_def escape_char_def)

lemma adapter_info_parses: "json_parse (c_str adapter_info) = Inr info_object"
proof -
  have ok: "json_ok info_object" "jdepth info_object \<le> kMaxDepth"
    by (simp_all add: info_object_def kMaxDepth_def)
  show ?thesis
    unfolding adapter_info_dump c_str_id [OF dump_no_nul [OF ok(1)]] by (rule json_parse_dump [OF ok])
qed

lemma load_fs_adapter:
  assumes "libs p = Some (fs_library os_text)"
  shows "adapter_load (posix_host libs) p = Some (fs_adapter os_text p)"
proof -
  have "get_str info_object ''id'' [] = ''FileSystem''" by (simp add: info_object_def get_str_def)
  with assms show ?thesis
    by (simp add: adapter_load_def fs_library_def fs_adapter_def adapter_info_parses)
qed

subsection \<open>The laws hold\<close>

lemma run_fs_adapter:
  "adapter_run (fs_adapter os_text p) rq (s, lg) =
     (c_str (c_str (fst (adapter_main os_text (c_str (c_str rq)) s))),
      (snd (adapter_main os_text (c_str (c_str rq)) s), lg))"
  by (simp add: adapter_run_def fs_adapter_def fs_entry_def run_adapter_command_main)

lemma c_str_idem [simp]: "c_str (c_str t) = c_str t"
  by (simp add: c_str_def)

abbreviation sized :: "host_world \<Rightarrow> bool" where
  "sized w \<equiv> fs_sized (fst w)"

interpretation fs_host: adapter_host "posix_host libs" "[fs_adapter os_text p]" sized
  for libs os_text p
proof (unfold_locales, goal_cases)
  case (1 ad w rq)
  obtain s lg where w: "w = (s, lg)" by (cases w)
  have p: "proper (fst (adapter_main os_text (c_str rq) s))" by (rule adapter_main_proper) (use 1(2) w in simp)
  show ?case using 1(1) proper_answer [OF p] proper_c_str [OF p] by (simp add: w run_fs_adapter)
next
  case (2 w l m)
  then show ?case by simp
next
  case (3 w u d pw)
  then show ?case by (simp add: posix_impersonate_def)
qed

subsection \<open>Credentials on POSIX\<close>

text \<open>A request whose credentials are seen runs nothing: the world changes by one log line.\<close>

lemma posix_refuses:
  assumes "json_parse rq = Inr root" and "credentials root = (user, domain, pass)" and "user \<noteq> []"
    and "ads \<noteq> []"
  shows "\<exists>msg line. dispatch (posix_host libs) ads rq (s, lg) =
      (json_error 501 msg, (s, lg @ [(Error_level, line)]))"
proof -
  obtain ad where r: "route ads rq = (ad, user, domain, pass)"
    using assms(1,2) by (simp add: route_def Let_def)
  have n: "\<not> (ad = None \<and> ads = [])" using assms(4) by simp
  show ?thesis
    unfolding dispatch_def r Let_def prod.case if_not_P [OF n]
    using assms(3) by (auto simp: posix_impersonate_def)
qed

text \<open>Text behind a NUL hides the credentials from the host, but not the command from the adapter.\<close>

lemma nul_runs_first:
  assumes "json_ok v" and "jdepth v \<le> kMaxDepth"
  shows "dispatch h (ad # ads) (dump v @ CHR 0x00 # t) w = run_in_host h ad [] (dump v) w"
proof -
  have r: "route (ad # ads) (dump v @ CHR 0x00 # t) = (None, [], [], [])"
    by (simp add: route_def parse_behind_nul [OF assms])
  have "adapter_run ad (dump v @ CHR 0x00 # t) w = adapter_run ad (dump v) w" for w
    using dump_no_nul [OF assms(1)] by (simp add: adapter_run_def c_str_cut c_str_id)
  then show ?thesis by (simp add: dispatch_def r run_in_host_def)
qed

subsection \<open>Properties\<close>

text \<open>
  C9: on POSIX a request that carries a user name is refused with 501 whatever its command, no
  adapter is run, and the only change is the line in the log.
\<close>

theorem dispatch_posix_refuses:
  assumes "json_parse rq = Inr root" and "credentials root = (user, domain, pass)" and "user \<noteq> []"
    and "ads \<noteq> []"
  shows "\<exists>out msg line. dispatch (posix_host libs) ads rq (s, lg) = (out, (s, lg @ [(Error_level, line)])) \<and>
    answer_of out = Some (501, msg)"
  using posix_refuses [OF assms, of libs s lg] json_error_answer(1) [of 501] by auto

definition demo_credentials :: json where
  "demo_credentials =
     JObject [(''Command'', JString ''DeleteFile''), (''Parameters'', JObject demo_params),
       (''UserCredentials'', JObject [(''Username'', JString ''bob'')])]"

lemma demo_credentials_facts:
  "json_ok demo_credentials" "jdepth demo_credentials \<le> kMaxDepth"
  "credentials demo_credentials = (''bob'', [], [])"
proof -
  show "json_ok demo_credentials" "jdepth demo_credentials \<le> kMaxDepth"
    by (simp_all add: demo_credentials_def demo_params_def kMaxDepth_def)
  have "\<not> iequals ''FileContentType'' ''UserCredentials''" "\<not> iequals ''Username'' ''Password''"
    by code_simp+
  then show "credentials demo_credentials = (''bob'', [], [])"
    by (simp add: credentials_def demo_credentials_def demo_params_def get_str_def iequals_length)
qed

lemma dispatch_posix_refuses_witness:
  "\<exists>out msg line. dispatch (posix_host (\<lambda>_. None)) [fs_adapter (\<lambda>_. []) ''p''] (dump demo_credentials) (demo_vfs, []) =
      (out, (demo_vfs, [(Error_level, line)])) \<and> answer_of out = Some (501, msg)"
  using dispatch_posix_refuses [OF json_parse_dump [OF demo_credentials_facts(1,2)] demo_credentials_facts(3),
      of "[fs_adapter (\<lambda>_. []) ''p'']" "\<lambda>_. None" demo_vfs "[]"] by simp

text \<open>
  C10: a NUL and any text behind the same request turn the refusal off: the host cannot parse it and
  sees no credentials, but passes it on as a C string, so the first adapter runs the command
  as the service account.
\<close>

theorem dispatch_nul_bypass:
  assumes "json_ok v" and "jdepth v \<le> kMaxDepth" and "credentials v = (user, domain, pass)" and "user \<noteq> []"
  shows "(\<exists>out msg line. dispatch (posix_host libs) (ad # ads) (dump v) (s, lg) =
      (out, (s, lg @ [(Error_level, line)])) \<and> answer_of out = Some (501, msg)) \<and>
    dispatch (posix_host libs) (ad # ads) (dump v @ CHR 0x00 # t) (s, lg) =
      run_in_host (posix_host libs) ad [] (dump v) (s, lg)"
  using posix_refuses [OF json_parse_dump [OF assms(1,2)] assms(3,4), of "ad # ads" libs s lg]
    json_error_answer(1) [of 501] nul_runs_first [OF assms(1,2)] by auto

lemma dispatch_nul_bypass_witness:
  "\<exists>out s'. dispatch (posix_host (\<lambda>_. None)) [fs_adapter (\<lambda>_. []) ''p''] (dump demo_credentials @ CHR 0x00 # ''x'')
       (put_node [''d'', ''f''] (File [1]) demo_vfs, []) = (out, (s', [])) \<and>
     file_exists (put_node [''d'', ''f''] (File [1]) demo_vfs) ''/d/f'' \<and> \<not> file_exists s' ''/d/f''"
proof -
  define s where "s = put_node [''d'', ''f''] (File [1]) demo_vfs"
  have h: "healthy s" using demo_vfs_facts(2) by (simp add: s_def)
  have o: "tree_ok s" unfolding s_def
    by (rule tree_ok_put [OF demo_vfs_facts(3)]) (simp_all add: dir_at_def node_at_def demo_vfs_def)
  have r: "resolve s ''/d/f'' = Inr [''d'', ''f'']"
    by (simp add: resolve_def c_str_def Let_def node_at_def s_def demo_vfs_def put_node_def)
  have n: "node_at s [''d'', ''f''] = Some (File [1])" by (simp add: s_def node_at_put)
  have e: "file_exists s ''/d/f''" using r n by (auto simp: file_exists_iff [OF h])
  have p: "params_of demo_credentials = Some (JObject demo_params)"
    "get_str demo_credentials ''Command'' [] = ''DeleteFile''"
    by (simp_all add: params_of_def demo_credentials_def get_str_def iequals_length)
  have lower: "map to_lower ''DeleteFile'' = ''deletefile''" by code_simp
  have d: "snd (delete_file demo_credentials s) = drop_node [''d'', ''f''] s"
    using remove_file_healthy [OF h o r n] e
    by (cases "remove_file ''/d/f'' s") (simp add: delete_file_def p demo_paths split: sum.split)
  have m: "adapter_main (\<lambda>_. []) (dump demo_credentials) s = delete_file demo_credentials s"
    unfolding adapter_main_def json_parse_dump [OF demo_credentials_facts(1,2)]
    by (simp add: p lower handlers_def del: list.map)
  have gone: "\<not> file_exists (drop_node [''d'', ''f''] s) ''/d/f''"
  proof -
    have "resolve (drop_node [''d'', ''f''] s) ''/d/f'' = Inr [''d'', ''f'']"
      by (rule resolve_drop_file [OF r]) (simp_all add: n)
    then show ?thesis using h by (simp add: file_exists_iff node_at_drop)
  qed
  have "\<exists>out. run_in_host (posix_host (\<lambda>_. None)) (fs_adapter (\<lambda>_. []) ''p'') [] (dump demo_credentials) (s, []) =
      (out, (drop_node [''d'', ''f''] s, []))"
    by (simp add: run_in_host_def Let_def run_fs_adapter c_str_id [OF dump_no_nul [OF demo_credentials_facts(1)]]
        m d split: prod.split)
  with dispatch_nul_bypass [OF demo_credentials_facts, of "\<lambda>_. None" "fs_adapter (\<lambda>_. []) ''p''" "[]" s "[]" "''x''"]
    e gone show ?thesis unfolding s_def [symmetric] by auto
qed

end
