(* ===== verification/Agent.thy ===== *)
theory Agent
  imports Settings Host
begin

text \<open>
  \<^verbatim>\<open>core/src/vc_agent.cpp\<close>: the agent puts the parts together. It reads the settings, starts the
  log, loads the adapters and runs the relay listener with two callbacks: a request is
  dispatched to an adapter, an event is logged. The world of the run is the parameter \<^typ>\<open>'w\<close>;
  \<open>agent_env\<close> is what the run needs of it beside the relay's and the adapters' environment.
\<close>

record options =
  o_settings_path :: string
  o_verbose :: bool

record ('w) agent_env =
  ae_host :: "'w host"
  ae_load :: "string \<Rightarrow> 'w \<Rightarrow> settings result"
  ae_exe_dir :: "string option"
  ae_log_init :: "log_config \<Rightarrow> 'w \<Rightarrow> 'w"
  ae_log_shutdown :: "'w \<Rightarrow> 'w"

text \<open>
  \<^verbatim>\<open>static_cast<int>\<close> of a \<^verbatim>\<open>double\<close> outside the range of \<^verbatim>\<open>int\<close> is undefined behaviour: \<open>ub\<close> is
  the value it has.
\<close>

definition status_of_result :: "int \<Rightarrow> string \<Rightarrow> int \<times> string" where
  "status_of_result ub result =
     (case json_parse result of
        Inl _ \<Rightarrow> (200, ''OK'')
      | Inr root \<Rightarrow>
          (case dbl_to_int (get_num root ''StatusCode'' (dbl_of_int 200)) of None \<Rightarrow> ub | Some i \<Rightarrow> i,
           get_str root ''StatusDescription'' ''OK''))"

definition on_request ::
  "'w host \<Rightarrow> 'w adapter list \<Rightarrow> int \<Rightarrow> relay_request \<Rightarrow> relay_response \<Rightarrow> 'w \<Rightarrow>
     (bool \<times> relay_response) \<times> 'w" where
  "on_request h ads ub req resp w =
     (let w = h_log h Info (''REQUEST ['' @ rr_id req @ ''] '' @ rr_method req @ '' '' @ rr_target req @ '' ('' @
                to_string (length (rr_body req)) @ '' byte body)'') w;
          (result, w) = dispatch h ads (as_view (rr_body req)) w;
          (st, desc) = status_of_result ub result;
          w = h_log h (if 400 \<le> st then Warn else Succ_level)
                (''ADAPTER RESULT ['' @ rr_id req @ ''] '' @ int_to_string st @ '' '' @ desc @ '' ('' @
                 to_string (length result) @ '' bytes)'') w;
          w = h_log h Trace (''ADAPTER RESULT BODY ['' @ rr_id req @ '']: '' @ result) w
      in ((True, resp\<lparr>rs_status_code := st, rs_status_desc := desc,
                      rs_content_type := ''application/json'', rs_body := as_bytes result\<rparr>), w))"

definition event_level :: "string \<Rightarrow> level" where
  "event_level event =
     (if iequals event ''CONNECT_FAILED'' \<or> iequals event ''RESPONSE_ERROR'' \<or>
         iequals event ''RENDEZVOUS_FAILED'' then Error_level
      else if iequals event ''DISCONNECTED'' then Warn else Info)"

definition on_event :: "'w host \<Rightarrow> string \<Rightarrow> int \<Rightarrow> string \<Rightarrow> 'w \<Rightarrow> 'w" where
  "on_event h event c desc w =
     h_log h (event_level event)
       (''RELAY '' @ event @ '' ['' @ int_to_string c @ '']: '' @ desc) w"

definition resolve_adapters_dir :: "string option \<Rightarrow> string \<Rightarrow> string" where
  "resolve_adapters_dir exe configured =
     (let d = (if configured = [] then ''.'' else configured);
          absolute = (hd d = CHR ''/'' \<or> hd d = CHR 0x5C \<or> (1 < length d \<and> d ! 1 = CHR '':''))
      in if absolute then d
         else (case exe of None \<Rightarrow> d | Some e \<Rightarrow> path_join e d))"

text \<open>The settings a run starts with.\<close>

definition effective_settings :: "options \<Rightarrow> string option \<Rightarrow> settings result \<Rightarrow> settings" where
  "effective_settings opts exe loaded =
     (let st = (case loaded of
                  Inr st \<Rightarrow> st
                | Inl _ \<Rightarrow> default_settings
                    \<lparr>s_relay := default_relay_config\<lparr>rc_token_ttl_seconds := 3600\<rparr>\<rparr>);
          lg = s_logging st;
          lg = (if o_verbose opts then lg\<lparr>console := True, cfg_level := Trace\<rparr> else lg);
          lg = (case exe of None \<Rightarrow> lg | Some d \<Rightarrow> lg\<lparr>file_path := path_join d ''VeriConnect.log''\<rparr>)
      in st\<lparr>s_logging := lg\<rparr>)"

definition agent_callbacks ::
  "'w host \<Rightarrow> 'w adapter list \<Rightarrow> int \<Rightarrow> ('w, 't) relay_env \<Rightarrow> ('w, 't) relay_env" where
  "agent_callbacks h ads ub env =
     env\<lparr>re_on_request := Some (on_request h ads ub), re_on_event := Some (on_event h)\<rparr>"

definition agent_run ::
  "'w agent_env \<Rightarrow> int \<Rightarrow> ('w, 't) relay_env \<Rightarrow> options \<Rightarrow> 'w \<Rightarrow> (status \<times> 'w) option" where
  "agent_run ae ub env opts w =
     (let h = ae_host ae;
          settings_path = (if o_settings_path opts = [] then default_path (ae_exe_dir ae)
                           else o_settings_path opts);
          loaded = ae_load ae settings_path w;
          st = effective_settings opts (ae_exe_dir ae) loaded;
          rc = s_relay st;
          w = ae_log_init ae (s_logging st) w;
          w = h_log h Info ''VeriConnect agent starting'' w;
          w = (case loaded of
                 Inl _ \<Rightarrow> h_log h Warn (''Settings file not found ('' @ settings_path @ ''); using defaults'') w
               | Inr _ \<Rightarrow> h_log h Info (''Settings loaded from '' @ settings_path) w);
          w = h_log h Info (''Connection: ns='' @ rc_namespace_host rc @ '' hc='' @ rc_hybrid_connection rc @
                '' keyName='' @ rc_key_name rc) w;
          dir = resolve_adapters_dir (ae_exe_dir ae) (s_adapters_dir st);
          w = h_log h Info (''Loading adapters from '' @ dir) w;
          (r, ads, w) = registry_load h dir [] w;
          w = (case r of Inl _ \<Rightarrow> h_log h Warn (''No adapters loaded from '' @ dir) w | Inr _ \<Rightarrow> w)
      in do {
        (rc, w) \<leftarrow>
          (if rc_namespace_host rc = [] \<or> rc_hybrid_connection rc = []
           then Some (Err InvalidArg,
             h_log h Error_level ''Connection settings incomplete; cannot start listener'' w)
           else relay_listen_with (agent_callbacks h ads ub env) rc w);
        (let w = h_log h Info ''VeriConnect agent stopped'' w
         in Some (rc, ae_log_shutdown ae w))
      })"

subsection \<open>What the peer is told\<close>

lemma get_num_default: "get_num root k DNaN \<noteq> DNaN \<Longrightarrow> get_num root k d = get_num root k DNaN"
  by (auto simp: get_num_def split: option.splits json.splits)

text \<open>The agent reads a proper result as its reader does.\<close>

lemma status_of_answer:
  assumes "answer_of result = Some (c, desc)"
  shows "status_of_result ub result = (c, desc)"
proof -
  obtain root where root: "json_parse result = Inr root"
    "dbl_to_int (get_num root ''StatusCode'' DNaN) = Some c" "get_str root ''StatusDescription'' ''OK'' = desc"
    using assms by (auto simp: answer_of_def split: sum.splits option.splits)
  have "get_num root ''StatusCode'' DNaN \<noteq> DNaN" using root(2) by (auto simp: dbl_to_int_def)
  from get_num_default [OF this, of "dbl_of_int 200"] root show ?thesis by (simp add: status_of_result_def)
qed

context adapter_host
begin

lemma on_request_mirrors:
  assumes "good w"
  shows "\<exists>c desc resp' w'. on_request h ads ub req resp w = ((True, resp'), w') \<and>
    rs_status_code resp' = c \<and> rs_status_desc resp' = desc \<and> status_code c \<and>
    answer_of (as_view (rs_body resp')) = Some (c, desc)"
proof -
  define w1 where "w1 = h_log h Info (''REQUEST ['' @ rr_id req @ ''] '' @ rr_method req @ '' '' @
    rr_target req @ '' ('' @ to_string (length (rr_body req)) @ '' byte body)'') w"
  have "good w1" using assms log_good by (simp add: w1_def)
  from dispatch_answers [OF this, of "as_view (rr_body req)"] obtain c desc where
    a: "answer_of (fst (dispatch h ads (as_view (rr_body req)) w1)) = Some (c, desc)" "status_code c"
    by blast
  obtain result w2 where d: "dispatch h ads (as_view (rr_body req)) w1 = (result, w2)"
    by (cases "dispatch h ads (as_view (rr_body req)) w1")
  show ?thesis
    using a status_of_answer [of result c desc ub] unfolding on_request_def w1_def [symmetric]
    by (simp add: Let_def d)
qed

end

subsection \<open>Properties\<close>

text \<open>
  C8: whatever bytes a request's body holds, the agent with the file-system adapter answers it
  with a valid response: its HTTP status and description are those of the JSON object in its body,
  and the status is one of the program's.
\<close>

theorem agent_mirrors_status:
  assumes "fs_sized s"
  shows "\<exists>c desc resp' w'.
    on_request (posix_host libs) [fs_adapter os_text p] ub req resp (s, lg) = ((True, resp'), w') \<and>
    rs_status_code resp' = c \<and> rs_status_desc resp' = desc \<and> status_code c \<and>
    answer_of (as_view (rs_body resp')) = Some (c, desc)"
  by (rule fs_host.on_request_mirrors) (use assms in simp)

lemma agent_mirrors_status_witness:
  "\<exists>c desc resp' w'.
    on_request (posix_host (\<lambda>_. None)) [fs_adapter (\<lambda>_. []) ''p''] 0
      \<lparr>rr_id = ''1'', rr_method = ''GET'', rr_target = ''/'', rr_headers_json = [], rr_body = [0]\<rparr>
      default_response (demo_vfs, []) = ((True, resp'), w') \<and>
    rs_status_code resp' = c \<and> rs_status_desc resp' = desc \<and> status_code c \<and>
    answer_of (as_view (rs_body resp')) = Some (c, desc)"
  by (rule agent_mirrors_status [OF demo_vfs_facts(1)])

end
