(* ===== verification/Posix.thy ===== *)
theory Posix
  imports Common
begin

text \<open>
  \<^verbatim>\<open>platform/posix/vc_os_posix.cpp\<close>, and the system calls the POSIX layer makes, as the record
  \<open>kernel\<close> of operations over a world. A call that fails returns what it returns in C (a negative
  number, \<^const>\<open>None\<close> for a failed read) and leaves its reason where \<^verbatim>\<open>errno\<close> is looked up, in the
  world: \<open>k_errno\<close>. A loop that repeats an interrupted call is a partial function, \<^const>\<open>None\<close> when
  it never ends.
\<close>

record 'w kernel =
  k_errno :: "'w \<Rightarrow> u32"
  k_clock :: "'w \<Rightarrow> (int \<times> int) \<times> 'w"
  k_nanosleep :: "nat \<Rightarrow> nat \<Rightarrow> 'w \<Rightarrow> 'w"
  k_open :: "string \<Rightarrow> 'w \<Rightarrow> int \<times> 'w"
  k_read :: "int \<Rightarrow> nat \<Rightarrow> 'w \<Rightarrow> bytes option \<times> 'w"
  k_close :: "int \<Rightarrow> 'w \<Rightarrow> 'w"
  k_getaddrinfo :: "string \<Rightarrow> string \<Rightarrow> 'w \<Rightarrow> nat list \<times> 'w"
  k_socket :: "nat \<Rightarrow> 'w \<Rightarrow> int \<times> 'w"
  k_nonblock :: "int \<Rightarrow> bool \<Rightarrow> 'w \<Rightarrow> 'w"
  k_connect :: "int \<Rightarrow> nat \<Rightarrow> 'w \<Rightarrow> int \<times> 'w"
  k_poll :: "int \<Rightarrow> bool \<Rightarrow> int \<Rightarrow> 'w \<Rightarrow> int \<times> 'w"
  k_so_error :: "int \<Rightarrow> 'w \<Rightarrow> u32 \<times> 'w"
  k_keepalive :: "int \<Rightarrow> 'w \<Rightarrow> 'w"
  k_send :: "int \<Rightarrow> bytes \<Rightarrow> 'w \<Rightarrow> int \<times> 'w"
  k_recv :: "int \<Rightarrow> nat \<Rightarrow> 'w \<Rightarrow> bytes option \<times> 'w"

definition EINTR :: u32 where "EINTR = 4"
definition ETIMEDOUT :: u32 where "ETIMEDOUT = 110"
definition EINPROGRESS :: u32 where "EINPROGRESS = 115"

definition last_error :: "'w kernel \<Rightarrow> error_code \<Rightarrow> 'w \<Rightarrow> error" where
  "last_error k c w = \<lparr>code = c, os_code = k_errno k w\<rparr>"

definition os_sleep_ms :: "'w kernel \<Rightarrow> u32 \<Rightarrow> 'w \<Rightarrow> 'w" where
  "os_sleep_ms k ms w = k_nanosleep k (unat (ms div 1000)) (unat (ms mod 1000) * 1000000) w"

definition os_monotonic_ms :: "'w kernel \<Rightarrow> 'w \<Rightarrow> u64 \<times> 'w" where
  "os_monotonic_ms k w =
     (let ((sec, nsec), w) = k_clock k w
      in (word_of_int sec * 1000 + word_of_int nsec div 1000000, w))"

text \<open>\<open>need\<close> is what is still to be read, \<^verbatim>\<open>buf.size() - off\<close>.\<close>

function random_read :: "'w kernel \<Rightarrow> int \<Rightarrow> nat \<Rightarrow> bytes \<Rightarrow> 'w \<Rightarrow> bytes result \<times> 'w" where
  "random_read k fd need acc w =
     (if need = 0 then (Inr acc, k_close k fd w)
      else
        (case k_read k fd need w of
           (None, w) \<Rightarrow> (let e = last_error k Fail w in (Inl e, k_close k fd w))
         | (Some bs, w) \<Rightarrow>
             if bs = [] then (let e = last_error k Fail w in (Inl e, k_close k fd w))
             else random_read k fd (need - length bs) (acc @ bs) w))"
  by pat_completeness auto
termination
  by (relation "measure (\<lambda>(k, fd, need, acc, w). need)") auto

declare random_read.simps [simp del]

definition os_random_bytes :: "'w kernel \<Rightarrow> nat \<Rightarrow> 'w \<Rightarrow> bytes result \<times> 'w" where
  "os_random_bytes k n w =
     (let (fd, w) = k_open k ''/dev/urandom'' w
      in if fd < 0 then (Inl (last_error k Fail w), w) else random_read k fd n [] w)"

text \<open>Success gives as many bytes as were asked for, however few a read returns.\<close>

lemma random_read_length:
  assumes "\<And>fd n w bs w'. k_read k fd n w = (Some bs, w') \<Longrightarrow> length bs \<le> n"
    and "random_read k fd need acc w = (Inr bs, w')"
  shows "length bs = length acc + need"
  using assms
proof (induction k fd need acc w rule: random_read.induct)
  case (1 k fd need acc w)
  note IH = 1(1) and law = 1(2) and eq = 1(3)
  show ?case
  proof (cases "need = 0")
    case True
    then show ?thesis using eq by (subst (asm) random_read.simps) simp
  next
    case False
    obtain q v where r: "k_read k fd need w = (q, v)" by (cases "k_read k fd need w")
    then obtain cs where cs: "q = Some cs" "cs \<noteq> []" "random_read k fd (need - length cs) (acc @ cs) v = (Inr bs, w')"
      using eq False by (subst (asm) random_read.simps) (auto simp: Let_def split: option.splits if_splits)
    have "length cs \<le> need" using law r cs(1) by blast
    moreover have "length bs = length (acc @ cs) + (need - length cs)"
      by (rule IH [OF False r [symmetric] cs(1,2) law cs(3)])
    ultimately show ?thesis by simp
  qed
qed

lemma os_random_bytes_length:
  assumes "\<And>fd n w bs w'. k_read k fd n w = (Some bs, w') \<Longrightarrow> length bs \<le> n"
    and "os_random_bytes k n w = (Inr bs, w')"
  shows "length bs = n"
  using assms(2) random_read_length [OF assms(1)]
  by (fastforce simp: os_random_bytes_def split: if_splits prod.splits)

text \<open>\<^verbatim>\<open>strerror_r\<close> is the parameter \<open>strerror\<close>, \<^const>\<open>None\<close> the null pointer.\<close>

definition os_error_text :: "(int \<Rightarrow> string option) \<Rightarrow> u32 \<Rightarrow> string" where
  "os_error_text strerror c =
     (if c = 0 then []
      else
        (let e = sint c
         in int_to_string e @ '': '' @ (case strerror e of None \<Rightarrow> ''unknown'' | Some m \<Rightarrow> m)))"

definition os_last_error_text :: "'w kernel \<Rightarrow> (int \<Rightarrow> string option) \<Rightarrow> 'w \<Rightarrow> string" where
  "os_last_error_text k strerror w = os_error_text strerror (k_errno k w)"

definition shared_library_extension :: string where
  "shared_library_extension = ''.so''"

subsection \<open>What the calls promise\<close>

text \<open>
  What a client relies on: the bytes the kernel has accepted on a descriptor (\<open>out\<close>) and those
  it holds for it (\<open>inp\<close>), the descriptors that are open, the time spent waiting, and that calls
  are not interrupted for ever (\<open>patience\<close>).
\<close>

locale kernel_calls =
  fixes k :: "'w kernel"
    and out :: "int \<Rightarrow> 'w \<Rightarrow> bytes"
    and inp :: "int \<Rightarrow> 'w \<Rightarrow> bytes"
    and fds :: "'w \<Rightarrow> int set"
    and patience :: "'w \<Rightarrow> nat"
  assumes send_count: "k_send k fd d w = (m, w') \<Longrightarrow> m \<le> int (length d)"
    and send_out: "k_send k fd d w = (m, w') \<Longrightarrow> out fd w' = out fd w @ take (nat m) d"
    and send_rest: "k_send k fd d w = (m, w') \<Longrightarrow> inp fd w' = inp fd w \<and> fds w' = fds w"
    and send_patience: "k_send k fd d w = (m, w') \<Longrightarrow> patience w' \<le> patience w \<and>
      (d \<noteq> [] \<longrightarrow> m \<le> 0 \<longrightarrow> k_errno k w' = EINTR \<longrightarrow> patience w' < patience w)"
    and recv_some: "k_recv k fd n w = (Some bs, w') \<Longrightarrow> inp fd w = bs @ inp fd w' \<and> length bs \<le> n"
    and recv_none: "k_recv k fd n w = (None, w') \<Longrightarrow> inp fd w' = inp fd w"
    and recv_rest: "k_recv k fd n w = (q, w') \<Longrightarrow> out fd w' = out fd w \<and> fds w' = fds w"
    and recv_patience: "k_recv k fd n w = (q, w') \<Longrightarrow> patience w' \<le> patience w \<and>
      (q = None \<longrightarrow> k_errno k w' = EINTR \<longrightarrow> patience w' < patience w)"
    and poll_rest: "k_poll k fd b ms w = (r, w') \<Longrightarrow>
      out fd' w' = out fd' w \<and> inp fd' w' = inp fd' w \<and> fds w' = fds w"
    and poll_patience: "k_poll k fd b ms w = (r, w') \<Longrightarrow> patience w' \<le> patience w \<and>
      (r < 0 \<longrightarrow> k_errno k w' = EINTR \<longrightarrow> patience w' < patience w)"
    and socket_fds: "k_socket k ai w = (fd, w') \<Longrightarrow>
      if fd < 0 then fds w' = fds w else fd \<notin> fds w \<and> fds w' = insert fd (fds w)"
    and close_fds: "fds (k_close k fd w) = fds w - {fd}"
    and other_fds: "fds (k_nonblock k fd b w) = fds w" "fds (k_keepalive k fd w) = fds w"
      "k_connect k fd ai w = (c, w') \<Longrightarrow> fds w' = fds w"
      "k_so_error k fd w = (e, w') \<Longrightarrow> fds w' = fds w"
      "k_getaddrinfo k h p w = (ais, w') \<Longrightarrow> fds w' = fds w"
    and open_fds: "k_open k path w = (fd, w') \<Longrightarrow>
      if fd < 0 then fds w' = fds w else fd \<notin> fds w \<and> fds w' = insert fd (fds w)"
    and read_fds: "k_read k fd n w = (q, w') \<Longrightarrow> fds w' = fds w"
begin

text \<open>The random bytes come from a descriptor of their own, closed on every path.\<close>

lemma random_read_fds:
  assumes "random_read k fd need acc w = (r, w')"
  shows "fds w' = fds w - {fd}"
  using assms
proof (induction need arbitrary: acc w rule: less_induct)
  case (less need)
  note step = less.prems [unfolded random_read.simps [of k fd need acc w]]
  show ?case
  proof (cases "need = 0")
    case True
    then have "w' = k_close k fd w" using step by simp
    then show ?thesis by (simp only: close_fds)
  next
    case False
    obtain q v where r: "k_read k fd need w = (q, v)" by (cases "k_read k fd need w")
    have v: "fds v = fds w" by (rule read_fds [OF r])
    show ?thesis
    proof (cases "q = None \<or> q = Some []")
      case True
      then have "w' = k_close k fd v" using step False unfolding r by (cases q) (simp_all add: Let_def)
      then show ?thesis by (simp only: close_fds v)
    next
      case more: False
      then obtain bs where bs: "q = Some bs" "bs \<noteq> []" by auto
      then have "random_read k fd (need - length bs) (acc @ bs) v = (r, w')"
        using step False r by simp
      from less.IH [OF _ this] bs False v show ?thesis by simp
    qed
  qed
qed

lemma os_random_bytes_fds:
  assumes "os_random_bytes k n w = (r, w')"
  shows "fds w' = fds w"
proof -
  obtain fd v where o: "k_open k ''/dev/urandom'' w = (fd, v)" by fastforce
  show ?thesis
    using assms open_fds [OF o] random_read_fds [of fd n "[]" v r w']
    by (simp add: os_random_bytes_def o split: if_splits)
qed

end

subsection \<open>A kernel that follows a script\<close>

text \<open>
  Each call takes the next entry of a script: a count, or a negative number with the \<^verbatim>\<open>errno\<close> it
  leaves; so any pattern of partial transfers, interruptions and failures can be played. When
  the script is at its end every call succeeds in full.
\<close>

record kworld =
  kw_script :: "(int \<times> u32) list"
  kw_errno :: u32
  kw_out :: "int \<Rightarrow> bytes"
  kw_in :: "int \<Rightarrow> bytes"
  kw_fds :: "int list"
  kw_addresses :: "nat list"
  kw_waited :: nat
  kw_clock :: "int \<times> int"

definition next_entry :: "int \<Rightarrow> 'a kworld_scheme \<Rightarrow> int \<times> 'a kworld_scheme" where
  "next_entry dflt w =
     (case kw_script w of
        [] \<Rightarrow> (dflt, w)
      | (n, e) # rest \<Rightarrow> (n, w\<lparr>kw_script := rest, kw_errno := (if n < 0 then e else kw_errno w)\<rparr>))"

definition fresh_fd :: "'a kworld_scheme \<Rightarrow> int" where
  "fresh_fd w = fold max (kw_fds w) 2 + 1"

definition ks_send :: "int \<Rightarrow> bytes \<Rightarrow> 'a kworld_scheme \<Rightarrow> int \<times> 'a kworld_scheme" where
  "ks_send fd d w =
     (let (n, w) = next_entry (int (length d)) w
      in if n < 0 then (-1, w)
         else (let m = min (nat (max 1 n)) (length d)
               in (int m, w\<lparr>kw_out := (kw_out w)(fd := kw_out w fd @ take m d)\<rparr>)))"

definition ks_recv :: "int \<Rightarrow> nat \<Rightarrow> 'a kworld_scheme \<Rightarrow> bytes option \<times> 'a kworld_scheme" where
  "ks_recv fd sz w =
     (let (n, w) = next_entry (int sz) w
      in if n < 0 then (None, w)
         else (let m = min (nat (max 1 n)) sz
               in (Some (take m (kw_in w fd)), w\<lparr>kw_in := (kw_in w)(fd := drop m (kw_in w fd))\<rparr>)))"

definition ks_poll :: "int \<Rightarrow> bool \<Rightarrow> int \<Rightarrow> 'a kworld_scheme \<Rightarrow> int \<times> 'a kworld_scheme" where
  "ks_poll fd for_write timeout_ms w =
     (let (n, w) = next_entry 1 w
      in if n < 0 then (-1, w)
         else if n = 0 then (0, w\<lparr>kw_waited := kw_waited w + nat timeout_ms\<rparr>)
         else (1, w))"

definition ks_socket :: "nat \<Rightarrow> 'a kworld_scheme \<Rightarrow> int \<times> 'a kworld_scheme" where
  "ks_socket ai w =
     (let (n, w) = next_entry 0 w
      in if n < 0 then (-1, w)
         else (let fd = fresh_fd w in (fd, w\<lparr>kw_fds := fd # kw_fds w\<rparr>)))"

definition ks_open :: "string \<Rightarrow> 'a kworld_scheme \<Rightarrow> int \<times> 'a kworld_scheme" where
  "ks_open path w =
     (let (n, w) = next_entry 0 w
      in if n < 0 then (-1, w)
         else (let fd = fresh_fd w in (fd, w\<lparr>kw_fds := fd # kw_fds w\<rparr>)))"

definition ks_so_error :: "int \<Rightarrow> 'a kworld_scheme \<Rightarrow> u32 \<times> 'a kworld_scheme" where
  "ks_so_error fd w =
     (let (n, w) = next_entry 0 w in (if n < 0 then kw_errno w else 0, w))"

definition scripted_kernel :: "'a kworld_scheme kernel" where
  "scripted_kernel =
     \<lparr>k_errno = kw_errno, k_clock = (\<lambda>w. (kw_clock w, w)), k_nanosleep = (\<lambda>s ns w. w),
      k_open = ks_open,
      k_read = (\<lambda>fd n w. let (m, w) = next_entry (int n) w
                in (if m < 0 then None else Some (replicate (min (nat m) n) 0), w)),
      k_close = (\<lambda>fd w. w\<lparr>kw_fds := filter (\<lambda>x. x \<noteq> fd) (kw_fds w)\<rparr>),
      k_getaddrinfo = (\<lambda>h p w. (kw_addresses w, w)), k_socket = ks_socket,
      k_nonblock = (\<lambda>fd b w. w), k_connect = (\<lambda>fd ai w. next_entry 0 w), k_poll = ks_poll,
      k_so_error = ks_so_error, k_keepalive = (\<lambda>fd w. w), k_send = ks_send, k_recv = ks_recv\<rparr>"

lemma next_entry_rest:
  "next_entry d w = (n, w') \<Longrightarrow>
     kw_out w' = kw_out w \<and> kw_in w' = kw_in w \<and> kw_fds w' = kw_fds w \<and> kw_waited w' = kw_waited w \<and>
     kw_addresses w' = kw_addresses w \<and> length (kw_script w') \<le> length (kw_script w) \<and>
     (n < 0 \<longrightarrow> 0 \<le> d \<longrightarrow> length (kw_script w') < length (kw_script w))"
  by (auto simp: next_entry_def split: list.splits)

lemma fresh_fd_new: "fresh_fd w \<notin> set (kw_fds w)" "0 \<le> fresh_fd w"
proof -
  have m: "m \<le> fold max xs m \<and> (\<forall>x \<in> set xs. x \<le> fold max xs m)" for xs and m :: int
    by (induction xs arbitrary: m) (auto, meson max.bounded_iff order_trans, fastforce)
  show "fresh_fd w \<notin> set (kw_fds w)" "0 \<le> fresh_fd w"
    using m [of 2 "kw_fds w"] by (auto simp: fresh_fd_def)
qed

lemma next_entry_fresh:
  "next_entry d w = (n, w') \<Longrightarrow> fresh_fd w' \<notin> set (kw_fds w) \<and> \<not> fresh_fd w' < 0"
  using fresh_fd_new [of w'] next_entry_rest [of d w n w'] by simp

lemma min_pos: "d \<noteq> [] \<Longrightarrow> min (nat (max 1 n)) (length d) \<noteq> 0"
  by (cases d) auto

interpretation script: kernel_calls scripted_kernel "\<lambda>fd w. kw_out w fd" "\<lambda>fd w. kw_in w fd"
    "\<lambda>w. set (kw_fds w)" "\<lambda>w. length (kw_script w)"
  by unfold_locales
    (auto simp: scripted_kernel_def ks_send_def ks_recv_def ks_poll_def ks_socket_def ks_so_error_def ks_open_def
      Let_def fresh_fd_new min_pos dest: next_entry_rest next_entry_fresh split: prod.splits if_splits)

end
