(* ===== verification/Sock.thy ===== *)
theory Sock
  imports Posix Fs
begin

text \<open>
  \<^verbatim>\<open>platform/posix/vc_sock_posix.cpp\<close>: the TCP client socket over the system calls. A socket is its
  descriptor, negative when closed or moved from.
\<close>

definition sock_valid :: "int \<Rightarrow> bool" where
  "sock_valid fd \<longleftrightarrow> fd \<ge> 0"

definition sock_close :: "'w kernel \<Rightarrow> int \<Rightarrow> 'w \<Rightarrow> int \<times> 'w" where
  "sock_close k fd w = (if fd \<ge> 0 then (-1, k_close k fd w) else (fd, w))"

text \<open>Moving out of a socket leaves it without a descriptor; what is moved over is closed first.\<close>

definition sock_move :: "int \<Rightarrow> int \<times> int" where
  "sock_move fd = (fd, -1)"

definition sock_assign :: "'w kernel \<Rightarrow> bool \<Rightarrow> int \<Rightarrow> int \<Rightarrow> 'w \<Rightarrow> (int \<times> int) \<times> 'w" where
  "sock_assign k same this other w =
     (if same then ((this, other), w)
      else (let (_, w) = sock_close k this w in (sock_move other, w)))"

text \<open>Polling again as long as the call is interrupted, with the whole time limit each time.\<close>

partial_function (option) poll_again ::
  "'w kernel \<Rightarrow> int \<Rightarrow> bool \<Rightarrow> int \<Rightarrow> 'w \<Rightarrow> (int \<times> 'w) option" where
  "poll_again k fd for_write timeout_ms w =
     (let (pr, w) = k_poll k fd for_write timeout_ms w
      in if pr < 0 \<and> k_errno k w = EINTR then poll_again k fd for_write timeout_ms w
         else Some (pr, w))"

text \<open>One address: the descriptor when it connected, or the reason why not (the code so far when there is none).\<close>

definition try_connect ::
  "'w kernel \<Rightarrow> int \<Rightarrow> nat \<Rightarrow> int \<Rightarrow> 'w \<Rightarrow> ((u32 + unit) \<times> 'w) option" where
  "try_connect k fd ai timeout_ms w =
     (let w = k_nonblock k fd True w;
          (cr, w) = k_connect k fd ai w
      in if cr = 0 then Some (Inr (), k_nonblock k fd False w)
         else if k_errno k w \<noteq> EINPROGRESS then Some (Inl (k_errno k w), w)
         else
           (case poll_again k fd True timeout_ms w of
              None \<Rightarrow> None
            | Some (pr, w) \<Rightarrow>
                if pr > 0
                then (let (err, w) = k_so_error k fd w
                      in if err = 0 then Some (Inr (), k_nonblock k fd False w)
                         else Some (Inl err, w))
                else if pr = 0 then Some (Inl ETIMEDOUT, w)
                else Some (Inl (k_errno k w), w)))"

fun try_addresses ::
  "'w kernel \<Rightarrow> int \<Rightarrow> nat list \<Rightarrow> u32 \<Rightarrow> 'w \<Rightarrow> ((u32 + int) \<times> 'w) option" where
  "try_addresses k timeout_ms [] oe w = Some (Inl oe, w)"
| "try_addresses k timeout_ms (ai # ais) oe w =
     (let (fd, w) = k_socket k ai w
      in if fd < 0 then try_addresses k timeout_ms ais (k_errno k w) w
         else
           (case try_connect k fd ai timeout_ms w of
              None \<Rightarrow> None
            | Some (Inr _, w) \<Rightarrow> Some (Inr fd, w)
            | Some (Inl oe, w) \<Rightarrow> try_addresses k timeout_ms ais oe (k_close k fd w)))"

definition sock_connect :: "'w kernel \<Rightarrow> string \<Rightarrow> int \<Rightarrow> int \<Rightarrow> 'w \<Rightarrow> (int result \<times> 'w) option" where
  "sock_connect k host port timeout_ms w =
     (let (res, w) = k_getaddrinfo k (c_str host) (int_to_string port) w
      in if res = [] then Some (Err NotFound, w)
         else
           (case try_addresses k timeout_ms res 0 w of
              None \<Rightarrow> None
            | Some (Inl oe, w) \<Rightarrow> Some (Inl \<lparr>code = Io, os_code = oe\<rparr>, w)
            | Some (Inr fd, w) \<Rightarrow> Some (Inr fd, k_keepalive k fd w)))"

text \<open>The argument is what is still to be sent.\<close>

partial_function (option) sock_send :: "'w kernel \<Rightarrow> int \<Rightarrow> bytes \<Rightarrow> 'w \<Rightarrow> (status \<times> 'w) option" where
  "sock_send k fd data w =
     (if data = [] then Some (Inr (), w)
      else
        (let (n, w) = k_send k fd data w
         in if n \<le> 0
            then (if k_errno k w = EINTR then sock_send k fd data w
                  else Some (Inl (last_error k Io w), w))
            else sock_send k fd (drop (nat n) data) w))"

partial_function (option) recv_again :: "'w kernel \<Rightarrow> int \<Rightarrow> nat \<Rightarrow> 'w \<Rightarrow> (bytes option \<times> 'w) option" where
  "recv_again k fd n w =
     (case k_recv k fd n w of
        (None, w) \<Rightarrow> if k_errno k w = EINTR then recv_again k fd n w else Some (None, w)
      | (Some bs, w) \<Rightarrow> Some (Some bs, w))"

definition sock_recv :: "'w kernel \<Rightarrow> int \<Rightarrow> nat \<Rightarrow> int \<Rightarrow> 'w \<Rightarrow> (bytes result \<times> 'w) option" where
  "sock_recv k fd n timeout_ms w =
     (case poll_again k fd False timeout_ms w of
        None \<Rightarrow> None
      | Some (pr, w) \<Rightarrow>
          if pr = 0 then Some (Err Timeout, w)
          else if pr < 0 then Some (Inl (last_error k Io w), w)
          else
            (case recv_again k fd n w of
               None \<Rightarrow> None
             | Some (None, w) \<Rightarrow> Some (Inl (last_error k Io w), w)
             | Some (Some bs, w) \<Rightarrow> Some (Inr bs, w)))"

subsection \<open>What the loops keep\<close>

text \<open>What each call keeps of the world, the loop around it keeps.\<close>

lemma poll_again_keeps:
  assumes "\<And>b ms w r w'. k_poll k fd b ms w = (r, w') \<Longrightarrow> F w' = F w"
    and "poll_again k fd b ms w = Some (r, w')"
  shows "F w' = F w"
proof -
  have "F (snd y) = F w" if "poll_again k fd b ms w = Some y" for y
    by (rule poll_again.raw_induct [where P = "\<lambda>k' fd' b ms w y. k' = k \<longrightarrow> fd' = fd \<longrightarrow>
          F (snd y) = F w", rule_format, OF _ that refl refl])
      (auto simp: Let_def dest!: assms(1) split: prod.splits if_splits)
  from this [OF assms(2)] show ?thesis by simp
qed

lemma sock_send_keeps:
  assumes "\<And>d w m w'. k_send k fd d w = (m, w') \<Longrightarrow> F w' = F w"
    and "sock_send k fd d w = Some (r, w')"
  shows "F w' = F w"
proof -
  have "F (snd y) = F w" if "sock_send k fd d w = Some y" for y
    by (rule sock_send.raw_induct [where P = "\<lambda>k' fd' d w y. k' = k \<longrightarrow> fd' = fd \<longrightarrow>
          F (snd y) = F w", rule_format, OF _ that refl refl])
      (auto simp: Let_def dest!: assms(1) split: prod.splits if_splits)
  from this [OF assms(2)] show ?thesis by simp
qed

lemma recv_again_keeps:
  assumes "\<And>n w q w'. k_recv k fd n w = (q, w') \<Longrightarrow> F w' = F w"
    and "recv_again k fd n w = Some (q, w')"
  shows "F w' = F w"
proof -
  have "F (snd y) = F w" if "recv_again k fd n w = Some y" for y
    by (rule recv_again.raw_induct [where P = "\<lambda>k' fd' n w y. k' = k \<longrightarrow> fd' = fd \<longrightarrow>
          F (snd y) = F w", rule_format, OF _ that refl refl])
      (auto dest!: assms(1) split: prod.splits option.splits if_splits)
  from this [OF assms(2)] show ?thesis by simp
qed

lemma sock_recv_keeps:
  assumes "\<And>b ms w r w'. k_poll k fd b ms w = (r, w') \<Longrightarrow> F w' = F w"
    and "\<And>n w q w'. k_recv k fd n w = (q, w') \<Longrightarrow> F w' = F w"
    and "sock_recv k fd n ms w = Some (r, w')"
  shows "F w' = F w"
  using assms(3) poll_again_keeps [where F = F, OF assms(1)] recv_again_keeps [where F = F, OF assms(2)]
  by (fastforce simp: sock_recv_def split: option.splits prod.splits if_splits)

subsection \<open>What the socket promises\<close>

context kernel_calls
begin

lemma poll_again_returns: "poll_again k fd b ms w \<noteq> None"
proof (induction "patience w" arbitrary: w rule: less_induct)
  case less
  obtain r w' where p: "k_poll k fd b ms w = (r, w')" by (cases "k_poll k fd b ms w")
  show ?case
    using less [of w'] poll_patience [OF p]
    by (subst poll_again.simps) (simp add: p del: not_None_eq)
qed

lemma poll_again_rest:
  "poll_again k fd b ms w = Some (r, w') \<Longrightarrow>
     out fd' w' = out fd' w \<and> inp fd' w' = inp fd' w \<and> fds w' = fds w \<and> patience w' \<le> patience w"
proof (induction "patience w" arbitrary: w rule: less_induct)
  case less
  obtain n v where p: "k_poll k fd b ms w = (n, v)" by (cases "k_poll k fd b ms w")
  note q = poll_rest [OF p, of fd'] poll_patience [OF p]
  show ?case
  proof (cases "n < 0 \<and> k_errno k v = EINTR")
    case True
    then have "poll_again k fd b ms v = Some (r, w')"
      using less.prems by (subst (asm) poll_again.simps) (simp add: p)
    from less.hyps [OF _ this] q True show ?thesis by auto
  next
    case False
    then have "w' = v" using less.prems by (subst (asm) poll_again.simps) (auto simp: p)
    with q show ?thesis by simp
  qed
qed

text \<open>A send hands over a prefix of the data, all of it when it succeeds, and always ends.\<close>

lemma sock_send_prefix:
  "\<exists>r w' n. sock_send k fd d w = Some (r, w') \<and> n \<le> length d \<and> out fd w' = out fd w @ take n d \<and>
     inp fd w' = inp fd w \<and> fds w' = fds w \<and> (r = Inr () \<longrightarrow> n = length d)"
proof (induction "length d + patience w" arbitrary: d w rule: less_induct)
  case less
  show ?case
  proof (cases "d = []")
    case True
    then show ?thesis by (subst sock_send.simps) simp
  next
    case ne: False
    obtain m v where s: "k_send k fd d w = (m, v)" by (cases "k_send k fd d w")
    note laws = send_count [OF s] send_out [OF s] send_rest [OF s] send_patience [OF s]
    show ?thesis
    proof (cases "m \<le> 0")
      case nonpos: True
      then have v: "out fd v = out fd w" using laws(2) by simp
      show ?thesis
      proof (cases "k_errno k v = EINTR")
        case True
        have "sock_send k fd d w = sock_send k fd d v"
          by (subst sock_send.simps) (simp add: ne s nonpos True)
        moreover have "length d + patience v < length d + patience w" using laws(4) ne nonpos True by simp
        ultimately show ?thesis using less [of d v] v laws(3) by simp
      next
        case False
        have "sock_send k fd d w = Some (Inl (last_error k Io v), v)"
          by (subst sock_send.simps) (simp add: ne s nonpos False)
        then show ?thesis using v laws(3) by (auto intro: exI [of _ 0])
      qed
    next
      case pos: False
      have e: "sock_send k fd d w = sock_send k fd (drop (nat m) d) v"
        by (subst sock_send.simps) (simp add: ne s pos)
      have "length (drop (nat m) d) + patience v < length d + patience w"
        using laws(4) ne pos by (cases d) auto
      from less [OF this] obtain r w' n where i: "sock_send k fd (drop (nat m) d) v = Some (r, w')"
        "n \<le> length (drop (nat m) d)" "out fd w' = out fd v @ take n (drop (nat m) d)"
        "inp fd w' = inp fd v" "fds w' = fds v" "r = Inr () \<longrightarrow> n = length (drop (nat m) d)" by blast
      have "take (nat m) d @ take n (drop (nat m) d) = take (nat m + n) d" by (simp add: take_add)
      with i laws pos show ?thesis unfolding e by (intro exI [of _ r] exI [of _ w'] exI [of _ "nat m + n"]) auto
    qed
  qed
qed

lemma sock_recv_bytes:
  "\<exists>r w'. sock_recv k fd n ms w = Some (r, w') \<and> out fd w' = out fd w \<and> fds w' = fds w \<and>
     (case r of Inl _ \<Rightarrow> inp fd w' = inp fd w | Inr bs \<Rightarrow> inp fd w = bs @ inp fd w' \<and> length bs \<le> n)"
proof -
  have again: "\<exists>q v. recv_again k fd n w = Some (q, v) \<and> out fd v = out fd w \<and> fds v = fds w \<and>
      (case q of None \<Rightarrow> inp fd v = inp fd w | Some bs \<Rightarrow> inp fd w = bs @ inp fd v \<and> length bs \<le> n)" for w
  proof (induction "patience w" arbitrary: w rule: less_induct)
    case less
    obtain q v where p: "k_recv k fd n w = (q, v)" by (cases "k_recv k fd n w")
    note laws = recv_rest [OF p] recv_patience [OF p]
    show ?case
    proof (cases q)
      case None
      show ?thesis
      proof (cases "k_errno k v = EINTR")
        case True
        have "recv_again k fd n w = recv_again k fd n v"
          by (subst recv_again.simps) (simp add: p None True)
        moreover have "patience v < patience w" using laws None True by simp
        ultimately show ?thesis using less [of v] laws recv_none [OF p [unfolded None]]
          by (simp cong: option.case_cong)
      next
        case False
        have "recv_again k fd n w = Some (None, v)" by (subst recv_again.simps) (simp add: p None False)
        then show ?thesis using laws recv_none [OF p [unfolded None]] by simp
      qed
    next
      case (Some bs)
      have "recv_again k fd n w = Some (Some bs, v)" by (subst recv_again.simps) (simp add: p Some)
      then show ?thesis using laws recv_some [OF p [unfolded Some]] by simp
    qed
  qed
  obtain pr v where p: "poll_again k fd False ms w = Some (pr, v)"
    using poll_again_returns [of fd False ms w] by (cases "poll_again k fd False ms w") auto
  note rest = poll_again_rest [OF p, of fd]
  obtain q u where q: "recv_again k fd n v = Some (q, u)" "out fd u = out fd v" "fds u = fds v"
    "case q of None \<Rightarrow> inp fd u = inp fd v | Some bs \<Rightarrow> inp fd v = bs @ inp fd u \<and> length bs \<le> n"
    using again [of v] by blast
  show ?thesis using rest q by (cases q) (auto simp: sock_recv_def p)
qed

text \<open>Connecting opens at most the descriptor it returns.\<close>

lemma try_connect_fds:
  "\<exists>r w'. try_connect k fd ai ms w = Some (r, w') \<and> fds w' = fds w"
proof -
  obtain cr v where c: "k_connect k fd ai (k_nonblock k fd True w) = (cr, v)"
    by (cases "k_connect k fd ai (k_nonblock k fd True w)")
  have v: "fds v = fds w" using other_fds(3) [OF c] other_fds(1) by simp
  obtain pr u where p: "poll_again k fd True ms v = Some (pr, u)"
    using poll_again_returns [of fd True ms v] by (cases "poll_again k fd True ms v") auto
  have u: "fds u = fds w" using poll_again_rest [OF p] v by simp
  obtain e x where e: "k_so_error k fd u = (e, x)" by (cases "k_so_error k fd u")
  have x: "fds x = fds w" using other_fds(4) [OF e] u by simp
  show ?thesis using v u x by (simp add: try_connect_def c p e other_fds(1))
qed

lemma try_addresses_fds:
  "\<exists>r w'. try_addresses k ms ais oe w = Some (r, w') \<and>
     (case r of Inl _ \<Rightarrow> fds w' = fds w | Inr fd \<Rightarrow> 0 \<le> fd \<and> fd \<notin> fds w \<and> fds w' = insert fd (fds w))"
proof (induction ais arbitrary: oe w)
  case (Cons ai ais)
  obtain fd v where s: "k_socket k ai w = (fd, v)" by (cases "k_socket k ai w")
  note f = socket_fds [OF s]
  show ?case
  proof (cases "fd < 0")
    case True
    then show ?thesis using Cons [of "k_errno k v" v] f s by (simp cong: sum.case_cong)
  next
    case False
    obtain r u where t: "try_connect k fd ai ms v = Some (r, u)" "fds u = fds v"
      using try_connect_fds [of fd ai ms v] by blast
    have c: "fds (k_close k fd u) = fds w" using False f t(2) by (auto simp: close_fds)
    show ?thesis
    proof (cases r)
      case (Inl e)
      then show ?thesis using Cons [of e "k_close k fd u"] s False t c by (simp cong: sum.case_cong)
    next
      case (Inr q)
      then show ?thesis using s False t f by simp
    qed
  qed
qed simp

lemma sock_connect_fds:
  "\<exists>r w'. sock_connect k h p ms w = Some (r, w') \<and>
     (case r of Inl _ \<Rightarrow> fds w' = fds w | Inr fd \<Rightarrow> 0 \<le> fd \<and> fd \<notin> fds w \<and> fds w' = insert fd (fds w))"
proof -
  obtain res v where g: "k_getaddrinfo k (c_str h) (int_to_string p) w = (res, v)"
    by (cases "k_getaddrinfo k (c_str h) (int_to_string p) w")
  obtain r u where t: "try_addresses k ms res 0 v = Some (r, u)"
    "case r of Inl _ \<Rightarrow> fds u = fds v | Inr fd \<Rightarrow> 0 \<le> fd \<and> fd \<notin> fds v \<and> fds u = insert fd (fds v)"
    using try_addresses_fds [of ms res 0 v] by blast
  show ?thesis
    using t other_fds(5) [OF g] by (cases r) (auto simp: sock_connect_def g other_fds(2))
qed

end

subsection \<open>Over every kernel that keeps its promises\<close>

text \<open>
  C39: a socket's send always returns; what the kernel accepted is then the bytes accepted
  before followed by a prefix of the data, and by all of it when the send succeeded, whatever
  the partial transfers and interruptions on the way.
\<close>
theorem sock_send_delivers:
  assumes "kernel_calls k out inp fds patience"
  shows "\<exists>r w' n. sock_send k fd d w = Some (r, w') \<and> n \<le> length d \<and>
    out fd w' = out fd w @ take n d \<and> inp fd w' = inp fd w \<and> fds w' = fds w \<and>
    (r = Inr () \<longrightarrow> n = length d)"
  by (rule kernel_calls.sock_send_prefix [OF assms])

definition demo_kworld :: "(int \<times> u32) list \<Rightarrow> nat list \<Rightarrow> kworld" where
  "demo_kworld script addresses =
     \<lparr>kw_script = script, kw_errno = 0, kw_out = (\<lambda>_. []), kw_in = (\<lambda>_. []), kw_fds = [0, 1, 2],
      kw_addresses = addresses, kw_waited = 0, kw_clock = (0, 0)\<rparr>"

lemma demo_kworld_simps:
  "kw_out (demo_kworld s a) = (\<lambda>_. [])" "kw_in (demo_kworld s a) = (\<lambda>_. [])"
  "kw_fds (demo_kworld s a) = [0, 1, 2]"
  by (simp_all add: demo_kworld_def)

lemma sock_send_delivers_witness:
  "\<exists>r w'. sock_send scripted_kernel 3 [1, 2, 3, 4, 5] (demo_kworld [(2, 0), (-1, EINTR), (1, 0), (-1, 32)] []) =
      Some (r, w') \<and> prefix (kw_out w' 3) [1, 2, 3, 4, 5] \<and>
      (r = Inr () \<longrightarrow> kw_out w' 3 = [1, 2, 3, 4, 5])"
  using sock_send_delivers [OF script.kernel_calls_axioms, of 3 "[1, 2, 3, 4, 5]"
      "demo_kworld [(2, 0), (-1, EINTR), (1, 0), (-1, 32)] []"]
  by (auto simp: demo_kworld_simps take_is_prefix)

text \<open>
  C38: connecting always returns, and leaks no descriptor: a failure leaves open the descriptors
  that were open before, and success adds to them the one it returns, a new one.
\<close>
theorem sock_connect_no_leak:
  assumes "kernel_calls k out inp fds patience"
  shows "\<exists>r w'. sock_connect k host port timeout_ms w = Some (r, w') \<and>
    (case r of Inl _ \<Rightarrow> fds w' = fds w
     | Inr fd \<Rightarrow> 0 \<le> fd \<and> fd \<notin> fds w \<and> fds w' = insert fd (fds w))"
  by (rule kernel_calls.sock_connect_fds [OF assms])

lemma sock_connect_no_leak_witness:
  "\<exists>r w'. sock_connect scripted_kernel ''relay'' 443 10000
      (demo_kworld [(0, 0), (-1, 111), (-1, 24)] [1, 2, 3]) = Some (r, w') \<and>
    (case r of Inl _ \<Rightarrow> set (kw_fds w') = {0, 1, 2}
     | Inr fd \<Rightarrow> 0 \<le> fd \<and> fd \<notin> {0, 1, 2} \<and> set (kw_fds w') = insert fd {0, 1, 2})"
  using sock_connect_no_leak [OF script.kernel_calls_axioms, of "''relay''" 443 10000
      "demo_kworld [(0, 0), (-1, 111), (-1, 24)] [1, 2, 3]"]
  by (simp add: demo_kworld_simps cong: sum.case_cong)

text \<open>The time limit is one of each address and of each interrupted wait, not of the connect.\<close>

lemma sock_connect_waits_twice:
  "\<exists>w'. sock_connect scripted_kernel ''relay'' 443 10000
      (demo_kworld [(0, 0), (-1, EINPROGRESS), (0, 0), (0, 0), (-1, EINPROGRESS), (0, 0)] [1, 2]) =
        Some (Inl \<lparr>code = Io, os_code = ETIMEDOUT\<rparr>, w') \<and> kw_waited w' = 20000"
  by (simp add: demo_kworld_def sock_connect_def scripted_kernel_def ks_socket_def ks_poll_def
      next_entry_def try_connect_def poll_again.simps fresh_fd_def Let_def)

end
