(* ===== verification/Tls_Stream.thy ===== *)
theory Tls_Stream
  imports Sock Ws
begin

text \<open>
  \<^verbatim>\<open>platform/posix/vc_tls_openssl.cpp\<close>: the TLS stream over a socket. OpenSSL is the record
  \<open>engine\<close>, one operation for each use of it: the session of a handle, with the memory BIO the
  ciphertext to be sent is taken from and the one the received ciphertext is put into. A
  \<^verbatim>\<open>Tls\<close> is \<^const>\<open>None\<close> or its \<^verbatim>\<open>Impl\<close>.
\<close>

datatype ssl_error = Want_read | Want_write | Zero_return | Ssl_other

record 'w engine =
  e_new :: "string \<Rightarrow> 'w \<Rightarrow> nat option \<times> 'w"
  e_free :: "nat \<Rightarrow> 'w \<Rightarrow> 'w"
  e_handshake :: "nat \<Rightarrow> 'w \<Rightarrow> int \<times> 'w"
  e_error :: "nat \<Rightarrow> 'w \<Rightarrow> ssl_error"
  e_write :: "nat \<Rightarrow> int \<Rightarrow> bytes \<Rightarrow> 'w \<Rightarrow> int \<times> 'w"
  e_read :: "nat \<Rightarrow> int \<Rightarrow> 'w \<Rightarrow> bytes \<times> 'w"
  e_take :: "nat \<Rightarrow> nat \<Rightarrow> 'w \<Rightarrow> bytes \<times> 'w"
  e_feed :: "nat \<Rightarrow> bytes \<Rightarrow> 'w \<Rightarrow> 'w"

record tls_impl =
  ti_fd :: int
  ti_ssl :: nat
  ti_closed :: bool

definition int_of_size :: "nat \<Rightarrow> int" where
  "int_of_size n = to_int32 (of_nat n)"

partial_function (option) tls_flush ::
  "'w kernel \<Rightarrow> 'w engine \<Rightarrow> int \<Rightarrow> nat \<Rightarrow> 'w \<Rightarrow> (status \<times> 'w) option" where
  "tls_flush k e fd h w =
     (let (tmp, w) = e_take e h 8192 w
      in if tmp = [] then Some (Inr (), w)
         else
           (case sock_send k fd tmp w of
              None \<Rightarrow> None
            | Some (Inl _, w) \<Rightarrow> Some (Err Io, w)
            | Some (Inr _, w) \<Rightarrow> tls_flush k e fd h w))"

definition tls_pump ::
  "'w kernel \<Rightarrow> 'w engine \<Rightarrow> int \<Rightarrow> nat \<Rightarrow> int \<Rightarrow> 'w \<Rightarrow> (nat result \<times> 'w) option" where
  "tls_pump k e fd h timeout_ms w =
     (case sock_recv k fd 8192 timeout_ms w of
        None \<Rightarrow> None
      | Some (Inl er, w) \<Rightarrow> Some (Inl er, w)
      | Some (Inr bs, w) \<Rightarrow> Some (Inr (length bs), if bs \<noteq> [] then e_feed e h bs w else w))"

definition tls_drop :: "'w kernel \<Rightarrow> 'w engine \<Rightarrow> int \<Rightarrow> nat option \<Rightarrow> 'w \<Rightarrow> 'w" where
  "tls_drop k e fd ssl w =
     snd (sock_close k fd (case ssl of None \<Rightarrow> w | Some h \<Rightarrow> e_free e h w))"

partial_function (option) tls_handshake ::
  "'w kernel \<Rightarrow> 'w engine \<Rightarrow> int \<Rightarrow> nat \<Rightarrow> u64 \<Rightarrow> 'w \<Rightarrow> (status \<times> 'w) option" where
  "tls_handshake k e fd h deadline w =
     (let (r, w) = e_handshake e h w
      in if r = 1 then Some (Inr (), w)
         else
           (let err = e_error e h w
            in case tls_flush k e fd h w of
                 None \<Rightarrow> None
               | Some (Inl _, w) \<Rightarrow> Some (Err Io, w)
               | Some (Inr _, w) \<Rightarrow>
                   if err = Want_read
                   then
                     (let (now, w) = os_monotonic_ms k w
                      in if now \<ge> deadline then Some (Err Timeout, w)
                         else
                           (case tls_pump k e fd h (to_int32 (deadline - now)) w of
                              None \<Rightarrow> None
                            | Some (Inl er, w) \<Rightarrow>
                                Some (if error_is er Timeout then Err Timeout else Err Tls, w)
                            | Some (Inr n, w) \<Rightarrow>
                                if n = 0 then Some (Err Tls, w) else tls_handshake k e fd h deadline w))
                   else if err \<noteq> Want_write then Some (Err Tls, w)
                   else tls_handshake k e fd h deadline w))"

definition tls_connect ::
  "'w kernel \<Rightarrow> 'w engine \<Rightarrow> int \<Rightarrow> string \<Rightarrow> int \<Rightarrow> 'w \<Rightarrow> (tls_impl result \<times> 'w) option" where
  "tls_connect k e fd hostname timeout_ms w =
     (case e_new e (c_str hostname) w of
        (None, w) \<Rightarrow> Some (Err Tls, tls_drop k e fd None w)
      | (Some h, w) \<Rightarrow>
          (let (now, w) = os_monotonic_ms k w
           in case tls_handshake k e fd h (now + word_of_int timeout_ms) w of
                None \<Rightarrow> None
              | Some (Inl er, w) \<Rightarrow> Some (Inl er, tls_drop k e fd (Some h) w)
              | Some (Inr _, w) \<Rightarrow>
                  (case tls_flush k e fd h w of
                     None \<Rightarrow> None
                   | Some (Inl _, w) \<Rightarrow> Some (Err Io, tls_drop k e fd (Some h) w)
                   | Some (Inr _, w) \<Rightarrow> Some (Inr \<lparr>ti_fd = fd, ti_ssl = h, ti_closed = False\<rparr>, w))))"

partial_function (option) tls_send_loop ::
  "'w kernel \<Rightarrow> 'w engine \<Rightarrow> int \<Rightarrow> nat \<Rightarrow> bytes \<Rightarrow> 'w \<Rightarrow> (status \<times> 'w) option" where
  "tls_send_loop k e fd h data w =
     (if data = [] then Some (Inr (), w)
      else
        (let (n, w) = e_write e h (int_of_size (length data)) data w
         in if n \<le> 0
            then
              (let err = e_error e h w
               in if err = Want_write \<or> err = Want_read
                  then (case tls_flush k e fd h w of
                          None \<Rightarrow> None
                        | Some (Inl _, w) \<Rightarrow> Some (Err Io, w)
                        | Some (Inr _, w) \<Rightarrow> tls_send_loop k e fd h data w)
                  else Some (Err Tls, w))
            else
              (case tls_flush k e fd h w of
                 None \<Rightarrow> None
               | Some (Inl _, w) \<Rightarrow> Some (Err Io, w)
               | Some (Inr _, w) \<Rightarrow> tls_send_loop k e fd h (drop (nat n) data) w)))"

definition tls_send ::
  "'w kernel \<Rightarrow> 'w engine \<Rightarrow> tls_impl option \<Rightarrow> bytes \<Rightarrow> 'w \<Rightarrow> (status \<times> 'w) option" where
  "tls_send k e t data w =
     (case t of
        None \<Rightarrow> Some (Err Closed, w)
      | Some im \<Rightarrow>
          if ti_closed im then Some (Err Closed, w)
          else tls_send_loop k e (ti_fd im) (ti_ssl im) data w)"

text \<open>The flag says that the peer has closed.\<close>

partial_function (option) tls_recv_loop ::
  "'w kernel \<Rightarrow> 'w engine \<Rightarrow> int \<Rightarrow> nat \<Rightarrow> int \<Rightarrow> int \<Rightarrow> u64 \<Rightarrow> 'w \<Rightarrow> (bytes result \<times> bool \<times> 'w) option"
where
  "tls_recv_loop k e fd h num timeout_ms deadline w =
     (let (bs, w) = e_read e h num w
      in if bs \<noteq> [] then Some (Inr bs, False, w)
         else
           (let err = e_error e h w
            in if err = Zero_return then Some (Inr [], True, w)
               else if err = Want_read
               then
                 (let (now, w) = os_monotonic_ms k w;
                      wait = (if timeout_ms < 0 then 60000
                              else if now \<ge> deadline then 0 else to_int32 (deadline - now))
                  in if timeout_ms \<ge> 0 \<and> wait = 0 then Some (Err Timeout, False, w)
                     else
                       (case tls_pump k e fd h wait w of
                          None \<Rightarrow> None
                        | Some (Inl er, w) \<Rightarrow>
                            if error_is er Timeout
                            then (if timeout_ms < 0 then tls_recv_loop k e fd h num timeout_ms deadline w
                                  else Some (Err Timeout, False, w))
                            else Some (Inl er, False, w)
                        | Some (Inr n, w) \<Rightarrow>
                            if n = 0 then Some (Inr [], True, w)
                            else tls_recv_loop k e fd h num timeout_ms deadline w))
               else Some (Err Tls, False, w)))"

definition tls_recv ::
  "'w kernel \<Rightarrow> 'w engine \<Rightarrow> tls_impl option \<Rightarrow> nat \<Rightarrow> int \<Rightarrow> 'w \<Rightarrow>
     (bytes result \<times> tls_impl option \<times> 'w) option" where
  "tls_recv k e t size_buf timeout_ms w =
     (case t of
        None \<Rightarrow> Some (Err InvalidArg, t, w)
      | Some im \<Rightarrow>
          if ti_closed im then Some (Inr [], t, w)
          else
            (let (now, w) = os_monotonic_ms k w;
                 deadline = now + word_of_int (if timeout_ms < 0 then 0 else timeout_ms)
             in case tls_recv_loop k e (ti_fd im) (ti_ssl im) (int_of_size size_buf) timeout_ms deadline w of
                  None \<Rightarrow> None
                | Some (r, gone, w) \<Rightarrow> Some (r, Some (im\<lparr>ti_closed := gone\<rparr>), w)))"

definition tls_valid :: "tls_impl option \<Rightarrow> bool" where
  "tls_valid t \<longleftrightarrow> t \<noteq> None"

definition tls_close :: "'w kernel \<Rightarrow> 'w engine \<Rightarrow> tls_impl option \<Rightarrow> 'w \<Rightarrow> tls_impl option \<times> 'w" where
  "tls_close k e t w =
     (case t of
        None \<Rightarrow> (None, w)
      | Some im \<Rightarrow> (None, tls_drop k e (ti_fd im) (Some (ti_ssl im)) w))"


lemma tls_flush_empty:
  "e_take e h 8192 w = ([], w') \<Longrightarrow> tls_flush k e fd h w = Some (Inr (), w')"
  by (subst tls_flush.simps) simp

lemma int_of_size_le: "int_of_size n \<le> int n"
proof -
  have "sint (x :: u32) \<le> uint x" for x
    using order_trans [of "- 2147483648" 0 "uint x"] by (simp add: sint_uint signed_take_bit_int_less_eq_self_iff)
  moreover have "uint (ucast (of_nat n :: u64) :: u32) \<le> int n"
    by (simp add: unsigned_ucast_eq unsigned_of_nat)
  ultimately show ?thesis unfolding int_of_size_def to_int32_def by (rule order_trans)
qed

subsection \<open>What OpenSSL promises\<close>

text \<open>
  Of a session: the plaintext accepted, the ciphertext made so far and that not yet taken, the
  ciphertext received and the plaintext delivered; \<open>v_stalls\<close> bounds how often a write may
  still ask to be repeated.
\<close>

record tls_view =
  v_sealed :: bytes
  v_made :: bytes
  v_queued :: bytes
  v_fed :: bytes
  v_opened :: bytes
  v_stalls :: nat

definition same_kernel ::
  "(int \<Rightarrow> 'w \<Rightarrow> bytes) \<Rightarrow> (int \<Rightarrow> 'w \<Rightarrow> bytes) \<Rightarrow> ('w \<Rightarrow> int set) \<Rightarrow> 'w \<Rightarrow> 'w \<Rightarrow> bool" where
  "same_kernel out inp fds w w' \<longleftrightarrow>
     (\<forall>fd. out fd w' = out fd w \<and> inp fd w' = inp fd w) \<and> fds w' = fds w"

definition makes :: "bytes \<Rightarrow> nat \<Rightarrow> tls_view \<Rightarrow> tls_view" where
  "makes c n v = v\<lparr>v_made := v_made v @ c, v_queued := v_queued v @ c, v_stalls := n\<rparr>"

locale tls_engine = kernel_calls k out inp fds patience
  for k :: "'w kernel" and out inp fds patience +
  fixes e :: "'w engine"
    and view :: "nat \<Rightarrow> 'w \<Rightarrow> tls_view"
  assumes send_view: "k_send k fd d w = (m, w') \<Longrightarrow> view h w' = view h w"
    and recv_view: "k_recv k fd sz w = (q, w') \<Longrightarrow> view h w' = view h w"
    and poll_view: "k_poll k fd b ms w = (r, w') \<Longrightarrow> view h w' = view h w"
    and clock_view: "k_clock k w = (c, w') \<Longrightarrow> view h w' = view h w \<and> same_kernel out inp fds w w'"
    and new_kernel: "e_new e host w = (ho, w') \<Longrightarrow> same_kernel out inp fds w w'"
    and free_kernel: "same_kernel out inp fds w (e_free e h w)"
    and handshake_view: "e_handshake e h w = (r, w') \<Longrightarrow>
      same_kernel out inp fds w w' \<and> (\<exists>c n. view h w' = makes c n (view h w))"
    and take_kernel: "e_take e h n w = (bs, w') \<Longrightarrow> same_kernel out inp fds w w'"
    and take_view: "e_take e h n w = (bs, w') \<Longrightarrow>
      view h w' = (view h w)\<lparr>v_queued := v_queued (view h w')\<rparr> \<and>
      v_queued (view h w) = bs @ v_queued (view h w') \<and> (0 < n \<longrightarrow> bs = [] \<longrightarrow> v_queued (view h w) = [])"
    and write_kernel: "e_write e h num d w = (i, w') \<Longrightarrow> same_kernel out inp fds w w'"
    and write_view: "e_write e h num d w = (i, w') \<Longrightarrow> num \<le> int (length d) \<Longrightarrow> i \<le> int (length d) \<and>
      (\<exists>c m. view h w' = makes c m ((view h w)\<lparr>v_sealed := v_sealed (view h w) @ take (nat i) d\<rparr>) \<and>
         m \<le> v_stalls (view h w) \<and>
         (i \<le> 0 \<longrightarrow> e_error e h w' \<in> {Want_read, Want_write} \<longrightarrow> m < v_stalls (view h w)))"
    and read_kernel: "e_read e h num w = (bs, w') \<Longrightarrow> same_kernel out inp fds w w'"
    and read_view: "e_read e h num w = (bs, w') \<Longrightarrow>
      \<exists>c m. view h w' = makes c m ((view h w)\<lparr>v_opened := v_opened (view h w) @ bs\<rparr>)"
    and feed_view: "same_kernel out inp fds w (e_feed e h bs w) \<and>
      view h (e_feed e h bs w) = (view h w)\<lparr>v_fed := v_fed (view h w) @ bs\<rparr>"
begin

lemma os_clock_keeps:
  "os_monotonic_ms k w = (now, w') \<Longrightarrow> view h w' = view h w \<and> same_kernel out inp fds w w'"
  using clock_view by (auto simp: os_monotonic_ms_def split: prod.splits)

text \<open>Flushing always ends; on success all that was queued is with the kernel, in order.\<close>

lemma tls_flush_drains:
  "\<exists>r w' q. tls_flush k e fd h w = Some (r, w') \<and> view h w' = (view h w)\<lparr>v_queued := q\<rparr> \<and>
     inp fd w' = inp fd w \<and> fds w' = fds w \<and> prefix (out fd w') (out fd w @ v_queued (view h w)) \<and>
     (r = Inr () \<longrightarrow> q = [] \<and> out fd w' = out fd w @ v_queued (view h w))"
proof (induction "length (v_queued (view h w))" arbitrary: w rule: less_induct)
  case less
  obtain bs v where t: "e_take e h 8192 w = (bs, v)" by (cases "e_take e h 8192 w")
  note laws = take_kernel [OF t] take_view [OF t]
  show ?case
  proof (cases "bs = []")
    case True
    have "tls_flush k e fd h w = Some (Inr (), v)" by (subst tls_flush.simps) (simp add: t True)
    moreover have "v_queued (view h w) = []" "view h v = (view h w)\<lparr>v_queued := []\<rparr>" using laws True by auto
    ultimately show ?thesis using laws(1) by (auto simp: same_kernel_def)
  next
    case False
    obtain r u n where s: "sock_send k fd bs v = Some (r, u)" "n \<le> length bs" "out fd u = out fd v @ take n bs"
      "inp fd u = inp fd v" "fds u = fds v" "r = Inr () \<longrightarrow> n = length bs"
      using sock_send_prefix [of fd bs v] by blast
    have vu: "view h u = view h v" by (rule sock_send_keeps [OF send_view s(1)])
    have kv: "out fd v = out fd w" "inp fd v = inp fd w" "fds v = fds w" using laws(1) by (auto simp: same_kernel_def)
    show ?thesis
    proof (cases r)
      case (Inl x)
      have "tls_flush k e fd h w = Some (Err Io, u)" by (subst tls_flush.simps) (simp add: t False s(1) Inl)
      moreover have "prefix (take n bs) (v_queued (view h w))"
        using laws(2) take_is_prefix [of n bs] by (metis prefix_prefix)
      ultimately show ?thesis using laws(2) vu s kv by (auto simp: same_prefix_prefix)
    next
      case (Inr x)
      have fl: "tls_flush k e fd h w = tls_flush k e fd h u"
        by (subst tls_flush.simps) (simp add: t False s(1) Inr)
      have ou: "out fd u @ v_queued (view h u) = out fd w @ v_queued (view h w)"
        using s Inr kv laws(2) vu by auto
      have "length (v_queued (view h u)) < length (v_queued (view h w))" using laws(2) vu False by auto
      from less [OF this] obtain r' w' q where i: "tls_flush k e fd h u = Some (r', w')"
        "view h w' = (view h u)\<lparr>v_queued := q\<rparr>" "inp fd w' = inp fd u" "fds w' = fds u"
        "prefix (out fd w') (out fd u @ v_queued (view h u))"
        "r' = Inr () \<longrightarrow> q = [] \<and> out fd w' = out fd u @ v_queued (view h u)" by blast
      have "view h w' = (view h w)\<lparr>v_queued := q\<rparr>" using i(2) vu laws(2) by (metis tls_view.surjective tls_view.update_convs(3))
      with i fl ou s kv show ?thesis by (intro exI [of _ r'] exI [of _ w'] exI [of _ q]) simp
    qed
  qed
qed

lemma tls_send_loop_delivers:
  "\<exists>r w' n c. tls_send_loop k e fd h d w = Some (r, w') \<and> n \<le> length d \<and>
     v_sealed (view h w') = v_sealed (view h w) @ take n d \<and> v_made (view h w') = v_made (view h w) @ c \<and>
     inp fd w' = inp fd w \<and> fds w' = fds w \<and>
     prefix (out fd w') (out fd w @ v_queued (view h w) @ c) \<and>
     (r = Inr () \<longrightarrow> n = length d \<and>
        out fd w' @ v_queued (view h w') = out fd w @ v_queued (view h w) @ c \<and>
        (d \<noteq> [] \<longrightarrow> v_queued (view h w') = []))"
proof (induction "length d + v_stalls (view h w)" arbitrary: d w rule: less_induct)
  case less
  show ?case
  proof (cases "d = []")
    case True
    have "tls_send_loop k e fd h d w = Some (Inr (), w)" by (subst tls_send_loop.simps) (simp add: True)
    then show ?thesis using True by (auto intro!: exI [of _ "[]"])
  next
    case ne: False
    obtain i v where t: "e_write e h (int_of_size (length d)) d w = (i, v)"
      by (cases "e_write e h (int_of_size (length d)) d w")
    obtain c m where laws: "i \<le> int (length d)" "m \<le> v_stalls (view h w)"
      "view h v = makes c m ((view h w)\<lparr>v_sealed := v_sealed (view h w) @ take (nat i) d\<rparr>)"
      "i \<le> 0 \<longrightarrow> e_error e h v \<in> {Want_read, Want_write} \<longrightarrow> m < v_stalls (view h w)"
      using write_view [OF t int_of_size_le] by blast
    have kv: "out fd v = out fd w" "inp fd v = inp fd w" "fds v = fds w"
      using write_kernel [OF t] by (auto simp: same_kernel_def)
    obtain r u q where fl: "tls_flush k e fd h v = Some (r, u)" "view h u = (view h v)\<lparr>v_queued := q\<rparr>"
      "inp fd u = inp fd v" "fds u = fds v" "prefix (out fd u) (out fd v @ v_queued (view h v))"
      "r = Inr () \<longrightarrow> q = [] \<and> out fd u = out fd v @ v_queued (view h v)"
      using tls_flush_drains [of fd h v] by blast
    define dr where "dr = drop (nat i) d"
    have dd: "take (nat i) d @ take n dr = take (nat i + n) d" for n by (simp add: dr_def take_add)
    have seal: "v_sealed (view h u) = v_sealed (view h w) @ take (nat i) d"
      "v_made (view h u) = v_made (view h w) @ c" "v_stalls (view h u) = m"
      "v_queued (view h v) = v_queued (view h w) @ c"
      using fl(2) laws(3) by (simp_all add: makes_def)
    consider (fatal) "i \<le> 0" "e_error e h v \<notin> {Want_read, Want_write}"
      | (stop) "0 < i \<or> e_error e h v \<in> {Want_read, Want_write}" "r \<noteq> Inr ()"
      | (go) "0 < i \<or> e_error e h v \<in> {Want_read, Want_write}" "r = Inr ()"
      by (cases "i \<le> 0") auto
    then show ?thesis
    proof cases
      case fatal
      have "tls_send_loop k e fd h d w = Some (Err Tls, v)"
        by (subst tls_send_loop.simps) (use fatal ne in \<open>simp add: t\<close>)
      then show ?thesis using laws(3) kv fatal(1)
        by (intro exI [of _ "Err Tls"] exI [of _ v] exI [of _ 0] exI [of _ c]) (simp add: makes_def)
    next
      case stop
      then obtain x where "r = Inl x" by (cases r) auto
      then have "tls_send_loop k e fd h d w = Some (Err Io, u)"
        by (subst tls_send_loop.simps) (use stop ne in \<open>auto simp: t fl(1)\<close>)
      then show ?thesis using seal kv fl laws(1)
        by (intro exI [of _ "Err Io"] exI [of _ u] exI [of _ "nat i"] exI [of _ c]) auto
    next
      case go
      have step: "tls_send_loop k e fd h d w = tls_send_loop k e fd h dr u"
        by (subst tls_send_loop.simps) (use go ne in \<open>auto simp: t fl(1) dr_def\<close>)
      have "length dr + v_stalls (view h u) < length d + v_stalls (view h w)"
        using go(1) laws ne seal(3) by (cases "0 < i"; cases d) (auto simp: dr_def)
      from less [OF this] obtain r' w' n c' where i: "tls_send_loop k e fd h dr u = Some (r', w')"
        "n \<le> length dr" "v_sealed (view h w') = v_sealed (view h u) @ take n dr"
        "v_made (view h w') = v_made (view h u) @ c'" "inp fd w' = inp fd u" "fds w' = fds u"
        "prefix (out fd w') (out fd u @ v_queued (view h u) @ c')"
        "r' = Inr () \<longrightarrow> n = length dr \<and> out fd w' @ v_queued (view h w') = out fd u @ v_queued (view h u) @ c' \<and>
           (dr \<noteq> [] \<longrightarrow> v_queued (view h w') = [])" by blast
      have qu: "v_queued (view h u) = []" using fl(2,6) go(2) by simp
      have ou: "out fd u = out fd w @ v_queued (view h w) @ c" using fl(6) go(2) seal(4) kv by simp
      have empty: "v_queued (view h w') = []" if "r' = Inr ()" "dr = []"
        using i(1) that qu by (subst (asm) tls_send_loop.simps) simp
      have le: "nat i + n \<le> length d" using i(2) laws(1) by (simp add: dr_def)
      show ?thesis
        using i ou qu kv fl(3,4) seal le empty
        by (intro exI [of _ r'] exI [of _ w'] exI [of _ "nat i + n"] exI [of _ "c @ c'"])
          (auto simp: step dd [unfolded dr_def] dr_def)
    qed
  qed
qed

text \<open>What is read of the socket is given to the session, and nothing is sent.\<close>

definition pumped :: "int \<Rightarrow> nat \<Rightarrow> 'w \<Rightarrow> 'w \<Rightarrow> bool" where
  "pumped fd h w w' \<longleftrightarrow> out fd w' = out fd w \<and> fds w' = fds w \<and>
     (\<exists>x. inp fd w = x @ inp fd w' \<and> v_fed (view h w') = v_fed (view h w) @ x)"

lemma pumped_trans: "pumped fd h u v \<Longrightarrow> pumped fd h v w \<Longrightarrow> pumped fd h u w"
  by (auto simp: pumped_def)

lemma pumped_same: "same_kernel out inp fds w w' \<Longrightarrow> v_fed (view h w') = v_fed (view h w) \<Longrightarrow> pumped fd h w w'"
  by (auto simp: pumped_def same_kernel_def)

lemma tls_pump_pumped:
  "\<exists>r w'. tls_pump k e fd h ms w = Some (r, w') \<and> pumped fd h w w' \<and>
     view h w' = (view h w)\<lparr>v_fed := v_fed (view h w')\<rparr>"
proof -
  obtain r v where r: "sock_recv k fd 8192 ms w = Some (r, v)" "out fd v = out fd w" "fds v = fds w"
    "case r of Inl _ \<Rightarrow> inp fd v = inp fd w | Inr bs \<Rightarrow> inp fd w = bs @ inp fd v \<and> length bs \<le> 8192"
    using sock_recv_bytes [of fd 8192 ms w] by blast
  have v: "view h v = view h w" by (rule sock_recv_keeps [OF poll_view recv_view r(1)])
  show ?thesis
  proof (cases r)
    case (Inl x)
    then show ?thesis using r v by (simp add: tls_pump_def pumped_def)
  next
    case (Inr bs)
    then show ?thesis using r v feed_view [of v h bs]
      by (auto simp: tls_pump_def pumped_def same_kernel_def)
  qed
qed

lemma tls_recv_loop_stream:
  assumes "tls_recv_loop k e fd h num ms dl w = Some y"
  shows "pumped fd h w (snd (snd y)) \<and>
    v_opened (view h (snd (snd y))) = v_opened (view h w) @ (case fst y of Inl _ \<Rightarrow> [] | Inr bs \<Rightarrow> bs) \<and>
    (fst (snd y) \<longrightarrow> fst y = Inr [])"
proof (rule tls_recv_loop.raw_induct [where P = "\<lambda>k' e' fd' h' num ms dl w y. k' = k \<longrightarrow> e' = e \<longrightarrow>
    fd' = fd \<longrightarrow> h' = h \<longrightarrow> pumped fd h w (snd (snd y)) \<and>
    v_opened (view h (snd (snd y))) = v_opened (view h w) @ (case fst y of Inl _ \<Rightarrow> [] | Inr bs \<Rightarrow> bs) \<and>
    (fst (snd y) \<longrightarrow> fst y = Inr [])", rule_format, OF _ assms refl refl refl refl],
    goal_cases)
  case (1 loop k' e' fd' h' num ms dl w y)
  note IH = 1(1) [OF _ refl refl refl refl]
  obtain bs v where t: "e_read e h num w = (bs, v)" by (cases "e_read e h num w")
  obtain c m where rv: "view h v = makes c m ((view h w)\<lparr>v_opened := v_opened (view h w) @ bs\<rparr>)"
    using read_view [OF t] by blast
  have v: "pumped fd h w v" "v_opened (view h v) = v_opened (view h w) @ bs"
    using pumped_same [OF read_kernel [OF t]] rv by (auto simp: makes_def)
  obtain now u where cl: "os_monotonic_ms k v = (now, u)" by (cases "os_monotonic_ms k v")
  have u: "pumped fd h w u" "v_opened (view h u) = v_opened (view h w) @ bs"
    using os_clock_keeps [OF cl] v pumped_trans [OF v(1) pumped_same] by auto
  define wait where "wait = (if ms < 0 then 60000 else if now \<ge> dl then 0 else to_int32 (dl - now))"
  obtain r x where p: "tls_pump k e fd h wait u = Some (r, x)" "pumped fd h u x"
    "view h x = (view h u)\<lparr>v_fed := v_fed (view h x)\<rparr>" using tls_pump_pumped by blast
  have x: "pumped fd h w x" "v_opened (view h x) = v_opened (view h w) @ bs"
    using pumped_trans [OF u(1) p(2)] arg_cong [OF p(3), of v_opened] u(2) by simp_all
  have again: ?case if "loop k e fd h num ms dl x = Some y" "bs = []"
    using IH [OF that(1)] x that(2) pumped_trans [OF x(1)] by auto
  show ?case
  proof (cases "bs = [] \<and> e_error e h v = Want_read \<and> \<not> (ms \<ge> 0 \<and> wait = 0)")
    case True
    then show ?thesis
      using 1(2) again x unfolding 1(3-6)
      by (auto simp: Let_def t cl wait_def [symmetric] p(1) split: sum.splits if_splits)
  next
    case False
    then show ?thesis
      using 1(2) u v unfolding 1(3-6)
      by (auto simp: Let_def t cl wait_def split: if_splits)
  qed
qed

lemma tls_pump_length:
  assumes "tls_pump k e fd h ms w = Some (Inr n, w')"
  shows "length (inp fd w') + n = length (inp fd w)"
proof -
  obtain r v where r: "sock_recv k fd 8192 ms w = Some (r, v)"
    "case r of Inl _ \<Rightarrow> inp fd v = inp fd w | Inr bs \<Rightarrow> inp fd w = bs @ inp fd v \<and> length bs \<le> 8192"
    using sock_recv_bytes [of fd 8192 ms w] by blast
  show ?thesis
  proof (cases r)
    case (Inl er)
    then show ?thesis using assms r(1) by (simp add: tls_pump_def)
  next
    case (Inr bs)
    then show ?thesis using assms r feed_view [of v h bs]
      by (auto simp: tls_pump_def same_kernel_def split: if_splits)
  qed
qed

text \<open>With a time limit a receive returns: a turn that is not the last takes bytes of the socket.\<close>

lemma tls_recv_loop_returns:
  assumes "0 \<le> ms"
  shows "tls_recv_loop k e fd h num ms dl w \<noteq> None"
proof (induction "length (inp fd w)" arbitrary: w rule: less_induct)
  case less
  obtain bs v where t: "e_read e h num w = (bs, v)" by (cases "e_read e h num w")
  obtain now u where cl: "os_monotonic_ms k v = (now, u)" by (cases "os_monotonic_ms k v")
  have u: "inp fd u = inp fd w"
    using read_kernel [OF t] os_clock_keeps [OF cl] by (simp add: same_kernel_def)
  define wait where "wait = (if ms < 0 then 60000 else if now \<ge> dl then 0 else to_int32 (dl - now))"
  obtain r x where p: "tls_pump k e fd h wait u = Some (r, x)" using tls_pump_pumped by blast
  have go: "tls_recv_loop k e fd h num ms dl x \<noteq> None" if "r = Inr n" "n \<noteq> 0" for n
    using less [of x] tls_pump_length [of fd h wait u n x] p that u by simp
  show ?case
    unfolding tls_recv_loop.simps [of k e fd h num ms dl w] t prod.case Let_def cl wait_def [symmetric] p
      option.case
    using assms go by (cases r) auto
qed

text \<open>A connection that fails gives up the socket; one that succeeds keeps it.\<close>

lemma tls_handshake_fds:
  assumes "tls_handshake k e fd h dl w = Some y"
  shows "fds (snd y) = fds w \<and> (\<forall>er. fst y = Inl er \<longrightarrow> code er \<in> {Io, Timeout, Tls})"
proof (rule tls_handshake.raw_induct [where P = "\<lambda>k' e' fd' h' dl w y. k' = k \<longrightarrow> e' = e \<longrightarrow>
    fds (snd y) = fds w \<and> (\<forall>er. fst y = Inl er \<longrightarrow> code er \<in> {Io, Timeout, Tls})",
    rule_format, OF _ assms refl refl], goal_cases)
  case (1 loop k' e' fd h dl w y)
  note IH = 1(1) [OF _ refl refl]
  obtain r v where t: "e_handshake e h w = (r, v)" by (cases "e_handshake e h w")
  have v: "fds v = fds w" using handshake_view [OF t] by (simp add: same_kernel_def)
  obtain q u z where fl: "tls_flush k e fd h v = Some (q, u)" "fds u = fds v"
    using tls_flush_drains [of fd h v] by blast
  obtain now x where cl: "os_monotonic_ms k u = (now, x)" by (cases "os_monotonic_ms k u")
  have x: "fds x = fds w" using os_clock_keeps [OF cl] fl v by (simp add: same_kernel_def)
  obtain n z where p: "tls_pump k e fd h (to_int32 (dl - now)) x = Some (n, z)" "fds z = fds x"
    using tls_pump_pumped [of fd h "to_int32 (dl - now)" x] by (auto simp: pumped_def)
  have keep: "loop k e fd h dl z = Some y \<Longrightarrow> ?case" "loop k e fd h dl u = Some y \<Longrightarrow> ?case"
    using IH [of fd h dl z y] IH [of fd h dl u y] p(2) x fl(2) v by auto
  show ?case
    using 1(2) keep v fl(2) x p(2) unfolding 1(3,4)
    by (auto simp: Let_def t fl(1) cl p(1) mk_error_def split: if_splits sum.splits)
qed

lemma tls_drop_fds:
  "0 \<le> fd \<Longrightarrow> fds (tls_drop k e fd ssl w) = fds w - {fd}"
  using free_kernel by (auto simp: tls_drop_def sock_close_def close_fds same_kernel_def split: option.split)

lemma tls_connect_fds:
  assumes "tls_connect k e fd host ms w = Some (r, w')" and "0 \<le> fd"
  shows "case r of Inl er \<Rightarrow> fds w' = fds w - {fd} \<and> code er \<in> {Io, Timeout, Tls}
    | Inr im \<Rightarrow> fds w' = fds w \<and> ti_fd im = fd \<and> \<not> ti_closed im"
proof -
  obtain ho v where t: "e_new e (c_str host) w = (ho, v)" by (cases "e_new e (c_str host) w")
  have v: "fds v = fds w" using new_kernel [OF t] by (simp add: same_kernel_def)
  obtain now u where cl: "os_monotonic_ms k v = (now, u)" by (cases "os_monotonic_ms k v")
  have u: "fds u = fds w" using os_clock_keeps [OF cl] v by (simp add: same_kernel_def)
  show ?thesis
  proof (cases ho)
    case None
    then show ?thesis using assms v by (auto simp: tls_connect_def t tls_drop_fds mk_error_def)
  next
    case (Some h)
    obtain q x where hs: "tls_handshake k e fd h (now + word_of_int ms) u = Some (q, x)"
      using assms(1) by (auto simp: tls_connect_def t Some cl split: option.splits)
    note hx = tls_handshake_fds [OF hs]
    obtain q' z where fl: "tls_flush k e fd h x = Some (q', z)" "fds z = fds x"
      using tls_flush_drains [of fd h x] by blast
    show ?thesis
      using assms hx u fl(2)
      by (auto simp: tls_connect_def t Some cl hs fl(1) tls_drop_fds mk_error_def split: sum.splits)
  qed
qed

end

subsection \<open>A session that follows a script\<close>

text \<open>
  Each byte is encrypted by adding one. The script holds the errors the next writes and
  handshakes report, each once.
\<close>

record tls_world = kworld +
  tw_view :: "nat \<Rightarrow> tls_view"
  tw_script :: "ssl_error list"
  tw_err :: ssl_error
  tw_ended :: bool

definition set_view :: "nat \<Rightarrow> tls_view \<Rightarrow> tls_world \<Rightarrow> tls_world" where
  "set_view h v w = w\<lparr>tw_view := (tw_view w)(h := v)\<rparr>"

definition se_handshake :: "nat \<Rightarrow> tls_world \<Rightarrow> int \<times> tls_world" where
  "se_handshake h w =
     (case tw_script w of [] \<Rightarrow> (1, w) | er # rest \<Rightarrow> (-1, w\<lparr>tw_script := rest, tw_err := er\<rparr>))"

definition se_write :: "nat \<Rightarrow> int \<Rightarrow> bytes \<Rightarrow> tls_world \<Rightarrow> int \<times> tls_world" where
  "se_write h num d w =
     (case tw_script w of
        er # rest \<Rightarrow> (-1, w\<lparr>tw_script := rest, tw_err := er\<rparr>)
      | [] \<Rightarrow>
          (let n = min (nat num) (min (length d) 16384); v = tw_view w h
           in if n = 0 then (-1, w\<lparr>tw_err := Ssl_other\<rparr>)
              else (int n, set_view h (makes (map (\<lambda>b. b + 1) (take n d)) 0
                      (v\<lparr>v_sealed := v_sealed v @ take n d\<rparr>)) w)))"

definition se_read :: "nat \<Rightarrow> int \<Rightarrow> tls_world \<Rightarrow> bytes \<times> tls_world" where
  "se_read h num w =
     (let v = tw_view w h;
          bs = take (nat num) (map (\<lambda>b. b - 1) (drop (length (v_opened v)) (v_fed v)))
      in if bs = [] then ([], w\<lparr>tw_err := if tw_ended w then Zero_return else Want_read\<rparr>)
         else (bs, set_view h (v\<lparr>v_opened := v_opened v @ bs\<rparr>) w))"

definition se_take :: "nat \<Rightarrow> nat \<Rightarrow> tls_world \<Rightarrow> bytes \<times> tls_world" where
  "se_take h n w =
     (let v = tw_view w h
      in (take n (v_queued v), set_view h (v\<lparr>v_queued := drop n (v_queued v)\<rparr>) w))"

definition se_feed :: "nat \<Rightarrow> bytes \<Rightarrow> tls_world \<Rightarrow> tls_world" where
  "se_feed h bs w = (let v = tw_view w h in set_view h (v\<lparr>v_fed := v_fed v @ bs\<rparr>) w)"

definition scripted_engine :: "tls_world engine" where
  "scripted_engine =
     \<lparr>e_new = (\<lambda>host w. (Some 1, w)), e_free = (\<lambda>h w. w), e_handshake = se_handshake,
      e_error = (\<lambda>h w. tw_err w), e_write = se_write, e_read = se_read, e_take = se_take, e_feed = se_feed\<rparr>"

definition session_view :: "nat \<Rightarrow> tls_world \<Rightarrow> tls_view" where
  "session_view h w = (tw_view w h)\<lparr>v_stalls := length (tw_script w)\<rparr>"

lemma next_entry_session:
  "next_entry d w = (n, w') \<Longrightarrow> session_view h w' = session_view h w"
  by (auto simp: next_entry_def session_view_def split: list.splits)

interpretation session: tls_engine scripted_kernel "\<lambda>fd w. kw_out w fd" "\<lambda>fd w. kw_in w fd"
    "\<lambda>w. set (kw_fds w)" "\<lambda>w. length (kw_script w)" scripted_engine session_view
proof (unfold_locales, goal_cases)
  case (1 fd d w m w' h)
  then show ?case using next_entry_session [of "int (length d)" w _ _ h]
    by (auto simp: scripted_kernel_def ks_send_def Let_def session_view_def split: prod.splits if_splits)
next
  case (2 fd sz w q w' h)
  then show ?case using next_entry_session [of "int sz" w _ _ h]
    by (auto simp: scripted_kernel_def ks_recv_def Let_def session_view_def split: prod.splits if_splits)
next
  case (3 fd b ms w r w' h)
  then show ?case using next_entry_session [of 1 w _ _ h]
    by (auto simp: scripted_kernel_def ks_poll_def Let_def session_view_def split: prod.splits if_splits)
next
  case (7 h w r w')
  then show ?case
    by (intro conjI exI [of _ "[]"] exI [of _ "length (tw_script w')"])
      (auto simp: scripted_engine_def same_kernel_def se_handshake_def session_view_def makes_def split: list.splits)
next
  case (11 h num d w i w')
  show ?case
  proof (cases "tw_script w")
    case Nil
    with 11 show ?thesis
      by (auto simp: scripted_engine_def se_write_def Let_def session_view_def set_view_def makes_def
        intro: exI [of _ "[]"] split: if_splits)
  next
    case (Cons er rest)
    with 11 have "i = -1" "w' = w\<lparr>tw_script := rest, tw_err := er\<rparr>"
      by (simp_all add: scripted_engine_def se_write_def)
    with Cons show ?thesis
      by (intro conjI exI [of _ "[]"] exI [of _ "length rest"]) (simp_all add: session_view_def makes_def)
  qed
next
  case (13 h num w bs w')
  then show ?case
    by (intro exI [of _ "[]"] exI [of _ "length (tw_script w)"])
      (auto simp: scripted_engine_def se_read_def Let_def session_view_def set_view_def makes_def split: if_splits)
qed (auto simp: scripted_engine_def scripted_kernel_def same_kernel_def se_handshake_def se_take_def
  se_write_def se_read_def se_feed_def Let_def set_view_def session_view_def makes_def
  split: list.splits if_splits)

subsection \<open>Properties\<close>

definition demo_tls :: "(int \<times> u32) list \<Rightarrow> ssl_error list \<Rightarrow> bytes \<Rightarrow> tls_world" where
  "demo_tls script errs input =
     kworld.extend (demo_kworld script [] \<lparr>kw_in := (\<lambda>_. input)\<rparr>)
       \<lparr>tw_view = (\<lambda>_. \<lparr>v_sealed = [], v_made = [], v_queued = [], v_fed = [], v_opened = [], v_stalls = 0\<rparr>),
        tw_script = errs, tw_err = Ssl_other, tw_ended = False\<rparr>"

lemma demo_tls_simps:
  "kw_out (demo_tls s es input) = (\<lambda>_. [])" "kw_in (demo_tls s es input) = (\<lambda>_. input)"
  "kw_fds (demo_tls s es input) = [0, 1, 2]"
  "session_view h (demo_tls s es input) =
     \<lparr>v_sealed = [], v_made = [], v_queued = [], v_fed = [], v_opened = [], v_stalls = length es\<rparr>"
  by (simp_all add: demo_tls_def demo_kworld_def session_view_def kworld.defs)



text \<open>
  C29: receiving over TLS. What it takes of the socket it gives to the session, in order; what it
  returns is what the session then delivers, nothing on an error; and it sends nothing, so
  ciphertext the session has queued meanwhile stays where it is.
\<close>

theorem tls_recv_in_order:
  assumes "tls_engine k out inp fds patience e view"
    and "tls_recv k e (Some im) n timeout_ms w = Some (r, t', w')"
  shows "\<exists>x. inp (ti_fd im) w = x @ inp (ti_fd im) w' \<and>
    v_fed (view (ti_ssl im) w') = v_fed (view (ti_ssl im) w) @ x \<and>
    v_opened (view (ti_ssl im) w') =
      v_opened (view (ti_ssl im) w) @ (case r of Inl _ \<Rightarrow> [] | Inr bs \<Rightarrow> bs) \<and>
    out (ti_fd im) w' = out (ti_fd im) w \<and> (\<exists>gone. t' = Some (im\<lparr>ti_closed := gone\<rparr>) \<and> (gone \<longrightarrow> r = Inr []))"
proof (cases "ti_closed im")
  case True
  then show ?thesis using assms(2) by (auto simp: tls_recv_def intro: exI [of _ True])
next
  case False
  obtain now v where cl: "os_monotonic_ms k w = (now, v)" by (cases "os_monotonic_ms k w")
  have v: "view h v = view h w" "same_kernel out inp fds w v" for h
    using tls_engine.os_clock_keeps [OF assms(1) cl] by blast+
  obtain gone where l: "tls_recv_loop k e (ti_fd im) (ti_ssl im) (int_of_size n) timeout_ms
      (now + word_of_int (if timeout_ms < 0 then 0 else timeout_ms)) v = Some (r, gone, w')"
    "t' = Some (im\<lparr>ti_closed := gone\<rparr>)"
    using assms(2) False by (auto simp: tls_recv_def cl Let_def split: option.splits)
  from tls_engine.tls_recv_loop_stream [OF assms(1) l(1)] v l(2) show ?thesis
    by (auto simp: tls_engine.pumped_def [OF assms(1)] same_kernel_def)
qed

lemma demo_recv:
  "\<exists>t w'. tls_recv scripted_kernel scripted_engine (Some \<lparr>ti_fd = 3, ti_ssl = 1, ti_closed = False\<rparr>) 8 1000
     (demo_tls [] [] [2, 3, 4]) = Some (Inr [1, 2, 3], t, w')"
proof -
  have i: "int_of_size 8 = 8" "to_int32 1000 = 1000" by code_simp+
  note ops = scripted_kernel_def scripted_engine_def se_read_def se_feed_def set_view_def ks_poll_def
    ks_recv_def next_entry_def tls_pump_def sock_recv_def poll_again.simps recv_again.simps
    os_monotonic_ms_def Let_def demo_tls_def demo_kworld_def kworld.defs i
  show ?thesis
    by (simp add: tls_recv_def ops, subst tls_recv_loop.simps, simp add: ops, subst tls_recv_loop.simps,
        simp add: ops)
qed

lemma tls_recv_in_order_witness:
  "\<exists>t w' x. tls_recv scripted_kernel scripted_engine (Some \<lparr>ti_fd = 3, ti_ssl = 1, ti_closed = False\<rparr>) 8 1000
     (demo_tls [] [] [2, 3, 4]) = Some (Inr [1, 2, 3], t, w') \<and> [2, 3, 4] = x @ kw_in w' 3 \<and>
     v_fed (session_view 1 w') = x \<and> v_opened (session_view 1 w') = [1, 2, 3] \<and> kw_out w' 3 = []"
proof -
  obtain t w' where r: "tls_recv scripted_kernel scripted_engine (Some \<lparr>ti_fd = 3, ti_ssl = 1, ti_closed = False\<rparr>) 8 1000
     (demo_tls [] [] [2, 3, 4]) = Some (Inr [1, 2, 3], t, w')" using demo_recv by blast
  from tls_recv_in_order [OF session.tls_engine_axioms r] r show ?thesis by (auto simp: demo_tls_simps)
qed



text \<open>
  C31: connecting takes over the socket as \<^verbatim>\<open>vc_tls.h\<close> says: when it fails the socket is closed, and
  the error is one of Io, Timeout and Tls; when it succeeds the stream holds the socket.
\<close>

theorem tls_connect_owns_socket:
  assumes "tls_engine k out inp fds patience e view" and "0 \<le> fd"
    and "tls_connect k e fd host timeout_ms w = Some (r, w')"
  shows "case r of Inl er \<Rightarrow> fds w' = fds w - {fd} \<and> code er \<in> {Io, Timeout, Tls}
    | Inr im \<Rightarrow> fds w' = fds w \<and> ti_fd im = fd \<and> \<not> ti_closed im"
  by (rule tls_engine.tls_connect_fds [OF assms(1,3,2)])

lemma demo_connect:
  "\<exists>w'. tls_connect scripted_kernel scripted_engine 2 ''relay'' 0 (demo_tls [] [Want_read] []) =
     Some (Err Timeout, w')"
proof -
  define w where "w = demo_tls [] [Want_read] []"
  define v where "v = w\<lparr>tw_script := [], tw_err := Want_read\<rparr>"
  define u where "u = snd (se_take 1 8192 v)"
  have clock: "os_monotonic_ms scripted_kernel x = (0, x)" if "kw_clock x = (0, 0)" for x :: tls_world
    using that by (simp add: os_monotonic_ms_def scripted_kernel_def)
  have t: "kw_clock w = (0, 0)" "kw_clock u = (0, 0)" "se_take 1 8192 v = ([], u)"
    by (simp_all add: u_def v_def w_def demo_tls_def demo_kworld_def kworld.defs se_take_def set_view_def
        Let_def)
  have "e_handshake scripted_engine 1 w = (-1, v)" "e_error scripted_engine 1 v = Want_read"
    "e_take scripted_engine 1 8192 v = ([], u)" "e_new scripted_engine (c_str ''relay'') w = (Some 1, w)"
    using t by (simp_all add: scripted_engine_def se_handshake_def v_def w_def demo_tls_def kworld.defs)
  then have "tls_connect scripted_kernel scripted_engine 2 ''relay'' 0 w =
      Some (Err Timeout, tls_drop scripted_kernel scripted_engine 2 (Some 1) u)"
  proof -
    assume a: "e_handshake scripted_engine 1 w = (-1, v)" "e_error scripted_engine 1 v = Want_read"
      "e_take scripted_engine 1 8192 v = ([], u)" "e_new scripted_engine (c_str ''relay'') w = (Some 1, w)"
    have "tls_handshake scripted_kernel scripted_engine 2 1 0 w = Some (Err Timeout, u)"
      by (subst tls_handshake.simps) (simp only: a tls_flush_empty [OF a(3)] clock [OF t(2)] Let_def prod.case
        option.case sum.case, simp)
    then show ?thesis by (simp only: tls_connect_def a clock [OF t(1)] Let_def prod.case option.case sum.case
        word_of_int_0 add_0)
  qed
  then show ?thesis unfolding w_def by blast
qed

lemma tls_connect_owns_socket_witness:
  "\<exists>w'. tls_connect scripted_kernel scripted_engine 2 ''relay'' 0 (demo_tls [] [Want_read] []) =
     Some (Err Timeout, w') \<and> set (kw_fds w') = {0, 1}"
proof -
  have three: "insert 0 (insert 1 (insert 2 {})) - {2} = {0, 1 :: int}" by auto
  obtain w' where r: "tls_connect scripted_kernel scripted_engine 2 ''relay'' 0 (demo_tls [] [Want_read] []) =
     Some (Err Timeout, w')" using demo_connect by blast
  note q = tls_connect_owns_socket [OF session.tls_engine_axioms _ r]
  have "(0::int) \<le> 2" by simp
  note q = q [OF this]
  then have "set (kw_fds w') = set (kw_fds (demo_tls [] [Want_read] [])) - {2}" by (simp only: sum.case)
  then have "set (kw_fds w') = {0, 1}" unfolding demo_tls_simps by (simp only: list.set three)
  with r show ?thesis by blast
qed

text \<open>
  C32: a send spins for ever when the session cannot write before it has read: the loop repeats the
  write without taking anything from the socket, so nothing changes.
\<close>

theorem tls_send_spins:
  assumes "d \<noteq> []" and "e_write e h (int_of_size (length d)) d w = (-1, w)"
    and "e_error e h w = Want_read" and "e_take e h 8192 w = ([], w)"
  shows "tls_send k e (Some \<lparr>ti_fd = fd, ti_ssl = h, ti_closed = False\<rparr>) d w = None"
proof -
  have "False" if "tls_send_loop k e fd h d w = Some y" for y
    by (rule tls_send_loop.raw_induct [where P = "\<lambda>k' e' fd' h' d' w' y. k' = k \<longrightarrow> e' = e \<longrightarrow> fd' = fd \<longrightarrow>
        h' = h \<longrightarrow> d' = d \<longrightarrow> w' = w \<longrightarrow> False", rule_format, OF _ that refl refl refl refl refl refl])
      (simp add: assms tls_flush_empty)
  then show ?thesis by (cases "tls_send_loop k e fd h d w") (auto simp: tls_send_def)
qed

lemma tls_send_spins_witness:
  "tls_send scripted_kernel (scripted_engine\<lparr>e_write := \<lambda>h num d w. (-1, w), e_error := \<lambda>h w. Want_read\<rparr>)
     (Some \<lparr>ti_fd = 3, ti_ssl = 1, ti_closed = False\<rparr>) [1] (demo_tls [] [] [2, 3, 4]) = None"
  by (rule tls_send_spins)
    (simp_all add: scripted_engine_def se_take_def set_view_def Let_def demo_tls_def demo_kworld_def
      kworld.defs fun_eq_iff)

end
