(* ===== verification/Programs.thy ===== *)
theory Programs
  imports Agent Http
begin

text \<open>
  The two POSIX programs: \<^verbatim>\<open>apps/agent-posix/src/main.cpp\<close>, the agent's process host, and
  \<^verbatim>\<open>apps/testapp/src/main.cpp\<close>, which listens like the agent or sends a command through the
  relay. Arguments are C strings, so they hold no NUL. What a program prints is the list of its
  writes; \<^verbatim>\<open>%s\<close> and \<^verbatim>\<open>%.*s\<close> print up to a NUL. The agent's run and the network are parameters.
\<close>

datatype stream = Stdout | Stderr

type_synonym printed = "(stream \<times> string) list"

abbreviation nl :: string where "nl \<equiv> [CHR 0x0A]"

datatype signal = SIGINT | SIGTERM | SIGPIPE
datatype disposition = By_default | Sets_stop | Ignored

definition disposition_of :: "(signal \<times> disposition) list \<Rightarrow> signal \<Rightarrow> disposition" where
  "disposition_of hs s = (case map_of hs s of None \<Rightarrow> By_default | Some d \<Rightarrow> d)"

subsection \<open>The agent's host\<close>

definition agent_signal_handlers :: "(signal \<times> disposition) list" where
  "agent_signal_handlers = [(SIGINT, Sets_stop), (SIGTERM, Sets_stop), (SIGPIPE, Ignored)]"

definition agent_usage :: string where
  "agent_usage =
     ''vc-agent - VeriConnect Agent (POSIX host)'' @ nl @ nl @
     ''  vc-agent [--console] [--settings <path>]'' @ nl @ nl @
     ''  (no options)        Run in the foreground (service/daemon mode).'' @ nl @
     ''  --console, -c       Run in the foreground with verbose output.'' @ nl @
     ''  --settings <path>   Settings.ini to use (default: next to the binary).'' @ nl @
     ''  --help, -h          Show this help.'' @ nl"

fun agent_arg_value :: "string list \<Rightarrow> string \<Rightarrow> string option" where
  "agent_arg_value (a # b # rest) name =
     (if name = a then Some b else agent_arg_value (b # rest) name)"
| "agent_arg_value _ name = None"

definition agent_arg_flag :: "string list \<Rightarrow> string \<Rightarrow> string \<Rightarrow> bool" where
  "agent_arg_flag args a b \<longleftrightarrow> list_ex (\<lambda>x. a = x \<or> (b \<noteq> [] \<and> b = x)) (tl args)"

definition agent_options :: "string list \<Rightarrow> options" where
  "agent_options args =
     \<lparr>o_settings_path = (case agent_arg_value args ''--settings'' of None \<Rightarrow> [] | Some p \<Rightarrow> p),
      o_verbose = agent_arg_flag args ''--console'' ''-c''\<rparr>"

definition exit_code :: "status \<Rightarrow> int" where
  "exit_code r = (case r of Inr _ \<Rightarrow> 0 | Inl _ \<Rightarrow> 1)"

definition agent_main ::
  "(options \<Rightarrow> 'w \<Rightarrow> (status \<times> 'w) option) \<Rightarrow> string list \<Rightarrow> 'w \<Rightarrow> ((int \<times> printed) \<times> 'w) option" where
  "agent_main run args w =
     (if agent_arg_flag args ''--help'' ''-h'' then Some ((0, [(Stdout, agent_usage)]), w)
      else
        (let opts = agent_options args
         in case run opts w of
              None \<Rightarrow> None
            | Some (r, w) \<Rightarrow>
                Some ((exit_code r,
                  [(Stdout, ''VeriConnect Agent starting ('' @ (if o_verbose opts then ''console'' else ''service'') @
                     '' mode) - send SIGTERM/SIGINT to stop'' @ nl)]), w)))"

subsection \<open>The test program: arguments and the command it sends\<close>

definition test_signal_handlers :: "(signal \<times> disposition) list" where
  "test_signal_handlers = [(SIGINT, Sets_stop), (SIGTERM, Sets_stop)]"

definition app_iequals :: "string \<Rightarrow> string \<Rightarrow> bool" where
  "app_iequals a b \<longleftrightarrow>
     (if length a \<noteq> length b then False
      else list_all (\<lambda>i. to_lower (a ! i) = to_lower (b ! i)) [0..<length a])"

definition test_usage :: string where
  "test_usage =
     ''vc-test - VeriConnect relay test tool'' @ nl @ nl @
     ''  vc-test listen [--settings <path>]'' @ nl @
     ''      Run the agent listener in the console with verbose output.'' @ nl @ nl @
     ''  vc-test send [--settings <path>] --command <name> --folder <path>'' @ nl @
     ''               [--file <name>] [--content <text>] [--overwrite]'' @ nl @
     ''               [--dest-folder <path>] [--dest-file <name>]'' @ nl @
     ''  vc-test send [--settings <path>] --json <raw-json | @file>'' @ nl @
     ''      Send a command through the relay HTTPS endpoint.'' @ nl @ nl @
     ''  Commands: ListFolder CreateFolder CreateFile ReadFile DeleteFile MoveFile'' @ nl"

fun arg_value :: "string list \<Rightarrow> string \<Rightarrow> string option" where
  "arg_value (a # b # rest) name =
     (if app_iequals a name then Some b else arg_value (b # rest) name)"
| "arg_value _ name = None"

definition arg_flag :: "string list \<Rightarrow> string \<Rightarrow> bool" where
  "arg_flag args name \<longleftrightarrow> list_ex (\<lambda>a. app_iequals a name) args"

definition do_listen ::
  "(options \<Rightarrow> 'w \<Rightarrow> (status \<times> 'w) option) \<Rightarrow> string list \<Rightarrow> 'w \<Rightarrow> ((int \<times> printed) \<times> 'w) option" where
  "do_listen run args w =
     (let opts = \<lparr>o_settings_path = (case arg_value args ''--settings'' of None \<Rightarrow> [] | Some p \<Rightarrow> p),
                  o_verbose = True\<rparr>
      in case run opts w of
           None \<Rightarrow> None
         | Some (r, w) \<Rightarrow>
             Some ((exit_code r,
               [(Stdout, ''== VeriConnect test listener =='' @ nl),
                (Stdout, ''Connecting to Azure Relay... press Ctrl+C to stop.'' @ nl @ nl)]), w))"

definition set_arg :: "string list \<Rightarrow> string \<Rightarrow> string \<Rightarrow> json \<Rightarrow> json" where
  "set_arg args opt name j =
     (case arg_value args opt of None \<Rightarrow> j | Some v \<Rightarrow> json_set j name (JString v))"

definition params_json :: "string list \<Rightarrow> json" where
  "params_json args =
     (let j = JObject [];
          j = set_arg args ''--folder'' ''TargetFolder'' j;
          j = set_arg args ''--file'' ''FileName'' j;
          j = set_arg args ''--content'' ''FileContent'' j;
          j = set_arg args ''--dest-folder'' ''DestinationFolder'' j;
          j = set_arg args ''--dest-file'' ''DestinationFileName'' j;
          j = json_set j ''OverwriteIfExists'' (JBool (arg_flag args ''--overwrite''))
      in json_set j ''Encoding'' (JString ''utf-8''))"

definition command_json :: "string list \<Rightarrow> string \<Rightarrow> json" where
  "command_json args cmd =
     (let root = JObject [];
          root = json_set root ''Adapter'' (JString ''FileSystem'');
          root = json_set root ''Command'' (JString cmd)
      in json_set root ''Parameters'' (params_json args))"

definition build_command_json :: "vfs \<Rightarrow> string list \<Rightarrow> string option \<times> printed" where
  "build_command_json s args =
     (case arg_value args ''--json'' of
        Some raw \<Rightarrow>
          if raw \<noteq> [] \<and> hd raw = CHR ''@''
          then (case read_all (tl raw) s of
                  Inl _ \<Rightarrow> (None, [(Stderr, ''Cannot read '' @ tl raw @ nl)])
                | Inr data \<Rightarrow> (Some (as_view data), []))
          else (Some raw, [])
      | None \<Rightarrow>
          (case arg_value args ''--command'' of
             None \<Rightarrow> (None, [(Stderr, ''--command or --json is required for send mode'' @ nl)])
           | Some cmd \<Rightarrow> (Some (dump (command_json args cmd)), [])))"

subsection \<open>The test program: sending\<close>

definition dbl_nonneg :: "dbl \<Rightarrow> bool" where
  "dbl_nonneg x = (case x of DNaN \<Rightarrow> False | DInf neg \<Rightarrow> \<not> neg | DFin neg m e \<Rightarrow> \<not> neg \<or> m = 0)"

text \<open>\<open>ub\<close> is what the conversion of a number outside \<^verbatim>\<open>int\<close> gives.\<close>

definition print_body_pretty :: "int \<Rightarrow> bytes \<Rightarrow> printed" where
  "print_body_pretty ub bs =
     (if bs = [] then [(Stdout, ''  (empty body)'' @ nl)]
      else
        (let t = as_view bs
         in (Stdout, c_str t @ nl) #
            (case json_parse t of
               Inl _ \<Rightarrow> []
             | Inr root \<Rightarrow>
                 (let c = get_num root ''StatusCode'' (dbl_of_int (-1));
                      desc = get_str root ''StatusDescription'' []
                  in (if dbl_nonneg c
                      then [(Stdout, nl @ ''  -> StatusCode:        '' @
                              int_to_string (case dbl_to_int c of None \<Rightarrow> ub | Some i \<Rightarrow> i) @ nl)]
                      else []) @
                     (if desc \<noteq> []
                      then [(Stdout, ''  -> StatusDescription: '' @ c_str desc @ nl)] else [])))))"

definition send_request :: "settings \<Rightarrow> string \<Rightarrow> string \<Rightarrow> request" where
  "send_request st token json =
     \<lparr>rq_method = ''POST'', rq_host = rc_namespace_host (s_relay st), rq_port = 443,
      rq_path_and_query = ''/'' @ rc_hybrid_connection (s_relay st),
      rq_extra_headers = ''ServiceBusAuthorization: '' @ token @ crlf,
      rq_body = as_bytes json, rq_content_type = ''application/json'', rq_timeout_ms = 60000\<rparr>"

definition print_response :: "int \<Rightarrow> response \<Rightarrow> printed" where
  "print_response ub resp =
     [(Stdout, ''<< HTTP '' @ to_string (status resp) @ '' '' @ c_str (status_text resp) @ nl),
      (Stdout, ''<< HEADERS'' @ nl @ c_str (headers resp) @ nl), (Stdout, nl @ ''<< BODY'' @ nl)] @
     print_body_pretty ub (body resp)"

text \<open>
  \<open>exe\<close> is the directory of the program, \<open>now\<close> the wall clock, \<open>s\<close> the file system and
  \<open>request\<close> the HTTP client over the network \<^typ>\<open>'w\<close>.
\<close>

definition do_send ::
  "(request \<Rightarrow> 'w \<Rightarrow> (response result \<times> 'w) option) \<Rightarrow> (u32 \<Rightarrow> string) \<Rightarrow> int \<Rightarrow>
   string option \<Rightarrow> u64 \<Rightarrow> vfs \<Rightarrow> string list \<Rightarrow> 'w \<Rightarrow> ((int \<times> printed) \<times> 'w) option" where
  "do_send request os_text ub exe now s args w =
     (let settings_path = (case arg_value args ''--settings'' of None \<Rightarrow> default_path exe | Some p \<Rightarrow> p)
      in case settings_load settings_path s of
           Inl _ \<Rightarrow> Some ((1, [(Stderr, ''Cannot load settings from '' @ c_str settings_path @ nl)]), w)
         | Inr st \<Rightarrow>
             (let rc = s_relay st
              in if rc_namespace_host rc = [] \<or> rc_hybrid_connection rc = []
                 then Some ((1, [(Stderr, ''Settings are missing Namespace/HybridConnection'' @ nl)]), w)
                 else
                   (case build_command_json s args of
                      (None, msgs) \<Rightarrow> Some ((1, msgs), w)
                    | (Some json, _) \<Rightarrow>
                        (let p1 =
                           [(Stdout, ''== VeriConnect test sender =='' @ nl),
                            (Stdout, ''Namespace:        '' @ c_str (rc_namespace_host rc) @ nl),
                            (Stdout, ''HybridConnection: '' @ c_str (rc_hybrid_connection rc) @ nl),
                            (Stdout, nl @ ''>> REQUEST BODY'' @ nl @ c_str json @ nl)];
                             token = sas_token (rc_namespace_host rc) (rc_hybrid_connection rc)
                               (rc_key_name rc) (rc_key rc) 3600 now
                         in if token = []
                            then Some ((1, p1 @
                              [(Stderr, ''Failed to build SAS token (check AccessKey settings)'' @ nl)]), w)
                            else
                              (let p2 = p1 @
                                 [(Stdout, nl @ ''>> SAS token generated ('' @ to_string (length token) @ '' chars)'' @ nl),
                                  (Stdout, ''>> POST https://'' @ c_str (rc_namespace_host rc) @
                                     c_str (''/'' @ rc_hybrid_connection rc) @ nl),
                                  (Stdout, ''>> sending...'' @ nl @ nl)]
                               in case request (send_request st token json) w of
                                    None \<Rightarrow> None
                                  | Some (Inl e, w) \<Rightarrow>
                                      Some ((1, p2 @
                                        [(Stderr, ''HTTP request failed ('' @ c_str (error_detail os_text e) @
                                           ''). Is the network up and the relay reachable?'' @ nl)]), w)
                                  | Some (Inr resp, w) \<Rightarrow>
                                      Some ((if 200 \<le> status resp \<and> status resp < 300 then 0 else 1,
                                        p2 @ print_response ub resp), w))))))"

definition test_main ::
  "(options \<Rightarrow> 'w \<Rightarrow> (status \<times> 'w) option) \<Rightarrow> (request \<Rightarrow> 'w \<Rightarrow> (response result \<times> 'w) option) \<Rightarrow>
   (u32 \<Rightarrow> string) \<Rightarrow> int \<Rightarrow> string option \<Rightarrow> u64 \<Rightarrow> vfs \<Rightarrow> string list \<Rightarrow> 'w \<Rightarrow>
   ((int \<times> printed) \<times> 'w) option" where
  "test_main run request os_text ub exe now s args w =
     (if length args < 2 then Some ((1, [(Stdout, test_usage)]), w)
      else if app_iequals (args ! 1) ''listen'' then do_listen run args w
      else if app_iequals (args ! 1) ''send'' then do_send request os_text ub exe now s args w
      else Some ((1, [(Stdout, test_usage)]), w))"


subsection \<open>What is sent arrives\<close>

lemma app_iequals_iff [simp]: "app_iequals a b = iequals a b"
  by (auto simp: app_iequals_def iequals_def list_all2_conv_all_nth list_all_iff)

definition given :: "string list \<Rightarrow> string \<Rightarrow> string \<Rightarrow> (string \<times> json) list" where
  "given args opt name = (case arg_value args opt of None \<Rightarrow> [] | Some v \<Rightarrow> [(name, JString v)])"

lemma set_arg_object: "set_arg args opt name (JObject ms) = JObject (ms @ given args opt name)"
  by (simp add: set_arg_def given_def json_set_def split: option.split)

lemma find_given:
  "find_member (\<lambda>k. iequals k key) (given args opt name) =
     (if iequals name key then map_option JString (arg_value args opt) else None)"
  by (simp add: given_def split: option.split)

lemma params_json_members:
  "params_json args = JObject
     (given args ''--folder'' ''TargetFolder'' @ given args ''--file'' ''FileName'' @
      given args ''--content'' ''FileContent'' @ given args ''--dest-folder'' ''DestinationFolder'' @
      given args ''--dest-file'' ''DestinationFileName'' @
      [(''OverwriteIfExists'', JBool (arg_flag args ''--overwrite'')), (''Encoding'', JString ''utf-8'')])"
  by (simp add: params_json_def set_arg_object json_set_def)

lemma param_names_differ:
  "\<not> iequals ''FileName'' ''Encoding''" "\<not> iequals ''Encoding'' ''FileName''"
  "\<not> iequals ''DestinationFolder'' ''OverwriteIfExists''" "\<not> iequals ''OverwriteIfExists'' ''DestinationFolder''"
  "\<not> iequals ''Command'' ''Adapter''" "\<not> iequals ''Adapter'' ''Command''"
  by code_simp+

text \<open>What the adapter reads of the parameters is what was given on the command line.\<close>

lemma params_json_fields:
  "get_str (params_json args) ''TargetFolder'' d = (case arg_value args ''--folder'' of None \<Rightarrow> d | Some v \<Rightarrow> v)"
  "get_str (params_json args) ''FileName'' d = (case arg_value args ''--file'' of None \<Rightarrow> d | Some v \<Rightarrow> v)"
  "get_str (params_json args) ''FileContent'' d = (case arg_value args ''--content'' of None \<Rightarrow> d | Some v \<Rightarrow> v)"
  "get_str (params_json args) ''DestinationFolder'' d =
     (case arg_value args ''--dest-folder'' of None \<Rightarrow> d | Some v \<Rightarrow> v)"
  "get_str (params_json args) ''DestinationFileName'' d =
     (case arg_value args ''--dest-file'' of None \<Rightarrow> d | Some v \<Rightarrow> v)"
  "get_bool (params_json args) ''OverwriteIfExists'' b = arg_flag args ''--overwrite''"
  by (simp_all add: get_str_def get_bool_def find_ci_def params_json_members find_member_append find_given
      iequals_length param_names_differ split: option.split)

lemma command_json_members:
  "command_json args cmd = JObject [(''Adapter'', JString ''FileSystem''), (''Command'', JString cmd),
     (''Parameters'', params_json args)]"
  by (simp add: command_json_def json_set_def)

lemma command_json_ok:
  "json_ok (command_json args cmd)" "jdepth (command_json args cmd) \<le> kMaxDepth"
  by (auto simp: command_json_members params_json_members given_def kMaxDepth_def split: option.split)

lemma command_json_fields:
  "get_str (command_json args cmd) ''Adapter'' d = ''FileSystem''"
  "get_str (command_json args cmd) ''Command'' d = cmd"
  "params_of (command_json args cmd) = Some (params_json args)"
  "credentials (command_json args cmd) = ([], [], [])"
proof -
  have "find_ci (params_json args) ''UserCredentials'' = None"
    by (simp add: find_ci_def params_json_members find_member_append find_given iequals_length)
  then show "get_str (command_json args cmd) ''Adapter'' d = ''FileSystem''"
    "get_str (command_json args cmd) ''Command'' d = cmd"
    "params_of (command_json args cmd) = Some (params_json args)"
    "credentials (command_json args cmd) = ([], [], [])"
    by (simp_all add: get_str_def find_ci_def [of "JObject ms" for ms] params_of_def credentials_def
        command_json_members iequals_length param_names_differ)
qed

text \<open>The host runs it with its handler, and without credentials.\<close>

lemma dispatch_command:
  assumes "map_of (handlers os_text) (map to_lower cmd) = Some f" and "fs_sized t"
  shows "dispatch (posix_host libs) [fs_adapter os_text p] (dump (command_json args cmd)) (t, lg) =
     (fst (f (command_json args cmd) t), (snd (f (command_json args cmd) t), lg))"
proof -
  define root where "root = command_json args cmd"
  note ok = command_json_ok [of args cmd, folded root_def]
  note fields = command_json_fields [of args cmd, folded root_def]
  have r: "route [fs_adapter os_text p] (dump root) = (Some (fs_adapter os_text p), [], [], [])"
    by (simp add: route_def json_parse_dump [OF ok] fields registry_find_def fs_adapter_def)
  have "cmd \<noteq> []" using assms(1) by (auto simp: handlers_def)
  then have m: "adapter_main os_text (dump root) t = f root t"
    using assms(1) by (simp add: adapter_main_def json_parse_dump [OF ok] fields)
  have pr: "proper (fst (f root t))" using adapter_main_proper [OF assms(2), of os_text "dump root"] m by simp
  have "adapter_run (fs_adapter os_text p) (dump root) (t, lg) = (fst (f root t), (snd (f root t), lg))"
    by (simp add: run_fs_adapter c_str_id [OF dump_no_nul [OF ok(1)]] m proper_c_str [OF pr])
  then show ?thesis
    unfolding root_def [symmetric]
    by (simp add: dispatch_def r run_in_host_def proper_nonempty [OF pr])
qed

text \<open>And so does the agent, when the command is the body of a request.\<close>

lemma on_request_command:
  assumes "map_of (handlers os_text) (map to_lower cmd) = Some f" and "fs_sized t"
    and "rr_body req = as_bytes (dump (command_json args cmd))"
  shows "\<exists>resp' lg'. on_request (posix_host libs) [fs_adapter os_text p] ub req resp (t, lg) =
      ((True, resp'), (snd (f (command_json args cmd) t), lg')) \<and>
    rs_body resp' = as_bytes (fst (f (command_json args cmd) t))"
  by (simp add: on_request_def assms(3) dispatch_command [OF assms(1,2)] Let_def split: prod.split)

subsection \<open>Properties\<close>

text \<open>
  C26: a command given to the test program arrives. The text it sends is the body the agent's
  adapter runs as that command, with the folder, the names, the content and the overwrite flag
  of the command line, and the response's body is the result of that command's handler.
\<close>

theorem sender_command_arrives:
  assumes "arg_value args ''--json'' = None" and "arg_value args ''--command'' = Some cmd"
    and "map_of (handlers os_text) (map to_lower cmd) = Some f" and "fs_sized t"
  shows "\<exists>text root j. build_command_json s args = (Some text, []) \<and> params_of root = Some j \<and>
    (\<exists>resp' lg'. on_request (posix_host libs) [fs_adapter os_text p] ub
        \<lparr>rr_id = i, rr_method = m, rr_target = tg, rr_headers_json = hj,
         rr_body = rq_body (send_request st token text)\<rparr> resp (t, lg) =
        ((True, resp'), (snd (f root t), lg')) \<and> rs_body resp' = as_bytes (fst (f root t))) \<and>
    (\<forall>(opt, name) \<in> set [(''--folder'', ''TargetFolder''), (''--file'', ''FileName''),
        (''--content'', ''FileContent''), (''--dest-folder'', ''DestinationFolder''),
        (''--dest-file'', ''DestinationFileName'')].
       get_str j name [] = (case arg_value args opt of None \<Rightarrow> [] | Some v \<Rightarrow> v)) \<and>
    get_bool j ''OverwriteIfExists'' False = arg_flag args ''--overwrite''"
proof -
  let ?root = "command_json args cmd"
  have "build_command_json s args = (Some (dump ?root), [])" using assms(1,2) by (simp add: build_command_json_def)
  moreover have "\<exists>resp' lg'. on_request (posix_host libs) [fs_adapter os_text p] ub
        \<lparr>rr_id = i, rr_method = m, rr_target = tg, rr_headers_json = hj,
         rr_body = rq_body (send_request st token (dump ?root))\<rparr> resp (t, lg) =
        ((True, resp'), (snd (f ?root t), lg')) \<and> rs_body resp' = as_bytes (fst (f ?root t))"
    by (rule on_request_command [OF assms(3,4)]) (simp add: send_request_def)
  ultimately show ?thesis
    by (intro exI [of _ "dump ?root"] exI [of _ ?root] exI [of _ "params_json args"])
      (simp add: command_json_fields params_json_fields)
qed

definition demo_args :: "string list" where
  "demo_args = [''vc-test'', ''send'', ''--COMMAND'', ''DeleteFile'', ''--folder'', ''/d'', ''--file'', ''f'']"

lemma demo_args_values:
  "arg_value demo_args ''--json'' = None" "arg_value demo_args ''--command'' = Some ''DeleteFile''"
  "arg_value demo_args ''--folder'' = Some ''/d''" "arg_value demo_args ''--file'' = Some ''f''"
  by code_simp+

lemma sender_command_arrives_witness:
  "\<exists>text root j resp' lg'. build_command_json demo_vfs demo_args = (Some text, []) \<and> params_of root = Some j \<and>
    on_request (posix_host (\<lambda>_. None)) [fs_adapter (\<lambda>_. []) ''p''] 0
        \<lparr>rr_id = ''1'', rr_method = ''POST'', rr_target = ''/hc'', rr_headers_json = [],
         rr_body = rq_body (send_request default_settings ''tok'' text)\<rparr> default_response (demo_vfs, []) =
        ((True, resp'), (snd (delete_file root demo_vfs), lg')) \<and>
    get_str j ''TargetFolder'' [] = ''/d'' \<and> get_str j ''FileName'' [] = ''f''"
proof -
  have "map to_lower ''DeleteFile'' = ''deletefile''" by code_simp
  then have h: "map_of (handlers (\<lambda>_. [])) (map to_lower ''DeleteFile'') = Some delete_file"
    by (simp add: handlers_def del: list.map)
  show ?thesis
    using sender_command_arrives [OF demo_args_values(1,2) h demo_vfs_facts(1), of demo_vfs "\<lambda>_. None" "''p''" 0
        "''1''" "''POST''" "''/hc''" "[]" default_settings "''tok''" default_response "[]"]
    by (auto simp: demo_args_values) blast+
qed

text \<open>The value of an option is taken for an option as well.\<close>

lemma content_turns_on_overwrite:
  "get_bool (params_json [''vc-test'', ''send'', ''--content'', ''--overwrite'']) ''OverwriteIfExists'' False"
  by (simp add: params_json_fields arg_flag_def)

text \<open>The test listener leaves \<^verbatim>\<open>SIGPIPE\<close> as it is; the agent ignores it.\<close>

lemma test_listener_keeps_sigpipe:
  "disposition_of agent_signal_handlers SIGPIPE = Ignored"
  "disposition_of test_signal_handlers SIGPIPE = By_default"
  by (simp_all add: disposition_of_def agent_signal_handlers_def test_signal_handlers_def)

end
