(* ===== verification/Win_Host.thy ===== *)
theory Win_Host
  imports Host
begin

text \<open>
  \<^verbatim>\<open>platform/win/vc_impersonate_win.cpp\<close>: a command with credentials runs as the user they name. The
  Win32 calls are the record \<open>win32\<close>; a token is a number. The password's wide copy is scrubbed by
  the code; memory is no part of the model.
\<close>

type_synonym wide = "16 word list"

record 'w win32 =
  w_to_wide :: "string \<Rightarrow> wide option"
  w_logon :: "wide \<Rightarrow> wide \<Rightarrow> wide \<Rightarrow> 'w \<Rightarrow> (u32 + nat) \<times> 'w"
  w_impersonate :: "nat \<Rightarrow> 'w \<Rightarrow> (u32 + unit) \<times> 'w"
  w_close_handle :: "nat \<Rightarrow> 'w \<Rightarrow> 'w"
  w_revert :: "'w \<Rightarrow> 'w"

definition utf8_to_wide :: "'w win32 \<Rightarrow> string \<Rightarrow> wide" where
  "utf8_to_wide api s =
     (if s = [] then [] else (case w_to_wide api s of None \<Rightarrow> [] | Some ws \<Rightarrow> ws))"

definition wide_c_str :: "wide \<Rightarrow> wide" where
  "wide_c_str ws = takeWhile (\<lambda>c. c \<noteq> 0) ws"

definition win_impersonate ::
  "'w win32 \<Rightarrow> string \<Rightarrow> string \<Rightarrow> string \<Rightarrow> 'w \<Rightarrow> (imp_error + unit) \<times> 'w" where
  "win_impersonate api user domain pass w =
     (if user = [] then (Inl (mk_error InvalidArg, ''Missing username''), w)
      else
        (case w_logon api (wide_c_str (utf8_to_wide api user)) (wide_c_str (utf8_to_wide api domain))
                (wide_c_str (utf8_to_wide api pass)) w of
           (Inl e, w) \<Rightarrow>
             (Inl (\<lparr>code = Fail, os_code = e\<rparr>,
                ''Logon failed (Win32 error '' @ to_string (unat e) @ '')''), w)
         | (Inr token, w) \<Rightarrow>
             (let (r, w) = w_impersonate api token w; w = w_close_handle api token w
              in case r of
                   Inl e \<Rightarrow>
                     (Inl (\<lparr>code = Fail, os_code = e\<rparr>,
                        ''Impersonation failed (Win32 error '' @ to_string (unat e) @ '')''), w)
                 | Inr _ \<Rightarrow> (Inr (), w))))"

text \<open>The Windows host: the impersonation ends with \<^verbatim>\<open>RevertToSelf\<close> in the destructor.\<close>

definition win_host :: "'w win32 \<Rightarrow> 'w host \<Rightarrow> 'w host" where
  "win_host api h = h\<lparr>h_impersonate := win_impersonate api, h_revert := w_revert api\<rparr>"

subsection \<open>Whose identity a command has\<close>

text \<open>
  What Win32 documents of the thread's identity: only \<^verbatim>\<open>ImpersonateLoggedOnUser\<close> gives it one, and
  \<^verbatim>\<open>RevertToSelf\<close> takes it away. \<^const>\<open>None\<close> is the identity of the service.
\<close>

locale win_identity =
  fixes api :: "'w win32"
    and h :: "'w host"
    and ident :: "'w \<Rightarrow> nat option"
  assumes logon_ident: "w_logon api u d p w = (r, w') \<Longrightarrow> ident w' = ident w"
    and impersonate_ident: "w_impersonate api tok w = (q, w') \<Longrightarrow>
      ident w' = (case q of Inl _ \<Rightarrow> ident w | Inr _ \<Rightarrow> Some tok)"
    and close_ident: "ident (w_close_handle api tok w) = ident w"
    and revert_ident: "ident (w_revert api w) = None"
    and log_ident: "ident (h_log h l m w) = ident w"
begin

lemma impersonate_cases:
  assumes "user \<noteq> []"
  obtains (refused) e msg w' where "win_impersonate api user domain pass w = (Inl (e, msg), w')"
      "ident w' = ident w" "\<not> error_is e Unsupported"
  | (begun) tok w' where "win_impersonate api user domain pass w = (Inr (), w')" "ident w' = Some tok"
      "fst (w_logon api (wide_c_str (utf8_to_wide api user)) (wide_c_str (utf8_to_wide api domain))
         (wide_c_str (utf8_to_wide api pass)) w) = Inr tok"
proof -
  obtain r v where l: "w_logon api (wide_c_str (utf8_to_wide api user)) (wide_c_str (utf8_to_wide api domain))
      (wide_c_str (utf8_to_wide api pass)) w = (r, v)" by fastforce
  show ?thesis
  proof (cases r)
    case (Inl e)
    then have "win_impersonate api user domain pass w =
        (Inl (\<lparr>code = Fail, os_code = e\<rparr>, ''Logon failed (Win32 error '' @ to_string (unat e) @ '')''), v)"
      using assms by (simp add: win_impersonate_def l)
    from refused [OF this] show ?thesis using logon_ident [OF l] by (simp add: error_is_def)
  next
    case (Inr tok)
    obtain q u where i: "w_impersonate api tok v = (q, u)" by fastforce
    show ?thesis
    proof (cases q)
      case (Inl e)
      then have "win_impersonate api user domain pass w =
          (Inl (\<lparr>code = Fail, os_code = e\<rparr>, ''Impersonation failed (Win32 error '' @ to_string (unat e) @ '')''),
           w_close_handle api tok u)"
        using assms Inr by (simp add: win_impersonate_def l i)
      from refused [OF this] show ?thesis using logon_ident [OF l] impersonate_ident [OF i] Inl
        by (simp add: error_is_def close_ident)
    next
      case (Inr x)
      then have "win_impersonate api user domain pass w = (Inr (), w_close_handle api tok u)"
        using assms \<open>r = Inr tok\<close> by (simp add: win_impersonate_def l i)
      from begun [OF this] show ?thesis using impersonate_ident [OF i] Inr \<open>r = Inr tok\<close> l
        by (simp add: close_ident)
    qed
  qed
qed

lemma dispatch_identity:
  assumes "json_parse rq = Inr root" and "credentials root = (user, domain, pass)" and "user \<noteq> []"
    and "ads \<noteq> []"
  shows "(\<exists>msg w'. dispatch (win_host api h) ads rq w = (json_error 403 msg, w') \<and> ident w' = ident w) \<or>
    (\<exists>ad \<in> set ads. \<exists>tok w1 out w2.
       fst (w_logon api (wide_c_str (utf8_to_wide api user)) (wide_c_str (utf8_to_wide api domain))
         (wide_c_str (utf8_to_wide api pass)) w) = Inr tok \<and>
       ident w1 = Some tok \<and> adapter_run ad rq w1 = (out, w2) \<and>
       dispatch (win_host api h) ads rq w =
         (if out = [] then json_error 500 ''Adapter returned no result'' else out, w_revert api w2) \<and>
       ident (w_revert api w2) = None)"
proof -
  obtain a where r: "route ads rq = (a, user, domain, pass)" using assms(1,2) by (simp add: route_def Let_def)
  define ad where "ad = (case a of None \<Rightarrow> hd ads | Some x \<Rightarrow> x)"
  have mem: "ad \<in> set ads" using assms(4) r by (cases a) (auto simp: ad_def dest: route_mem)
  have sel: "h_impersonate (win_host api h) = win_impersonate api" "h_log (win_host api h) = h_log h"
    "h_revert (win_host api h) = w_revert api" by (simp_all add: win_host_def)
  have n: "\<not> (a = None \<and> ads = [])" using assms(4) by simp
  from assms(3) show ?thesis
  proof (cases rule: impersonate_cases [where domain = domain and pass = pass and w = w])
    case (refused e msg w')
    have "dispatch (win_host api h) ads rq w = (json_error 403 msg,
        h_log h Error_level (''Impersonation failed for user '' @ [CHR 0x27] @ user @ [CHR 0x27] @ '': '' @ msg) w')"
      unfolding dispatch_def r Let_def prod.case if_not_P [OF n] using assms(3) refused by (simp add: sel)
    then show ?thesis using refused(2) log_ident by (intro disjI1) auto
  next
    case (begun tok w')
    define w1 where "w1 = h_log h Info
      (''Impersonating user '' @ [CHR 0x27] @ user @ [CHR 0x27] @ '' for this command'') w'"
    obtain out w2 where run: "adapter_run ad rq w1 = (out, w2)" by fastforce
    have "dispatch (win_host api h) ads rq w =
        (if out = [] then json_error 500 ''Adapter returned no result'' else out, w_revert api w2)"
      unfolding dispatch_def r Let_def prod.case if_not_P [OF n] ad_def [symmetric]
      using assms(3) begun(1) run by (simp add: sel run_in_host_def w1_def Let_def)
    moreover have "ident w1 = Some tok" using begun(2) by (simp add: w1_def log_ident)
    ultimately show ?thesis using run mem begun(3) revert_ident by blast
  qed
qed

end

subsection \<open>A machine with accounts\<close>

record win_world =
  ww_accounts :: "((wide \<times> wide \<times> wide) \<times> nat) list"
  ww_ident :: "nat option"
  ww_ran_as :: "nat option list"
  ww_log :: "(level \<times> string) list"

definition win_machine :: "win_world win32" where
  "win_machine =
     \<lparr>w_to_wide = (\<lambda>s. Some (map (\<lambda>c. of_nat (of_char c)) s)),
      w_logon = (\<lambda>u d p w. (case map_of (ww_accounts w) (u, d, p) of None \<Rightarrow> Inl 1326 | Some t \<Rightarrow> Inr t, w)),
      w_impersonate = (\<lambda>t w. (Inr (), w\<lparr>ww_ident := Some t\<rparr>)), w_close_handle = (\<lambda>t w. w),
      w_revert = (\<lambda>w. w\<lparr>ww_ident := None\<rparr>)\<rparr>"

definition win_base :: "win_world host" where
  "win_base =
     \<lparr>h_open = (\<lambda>p. None), h_impersonate = win_impersonate win_machine, h_revert = w_revert win_machine,
      h_list = (\<lambda>d w. Err NotFound), h_log = (\<lambda>l m w. w\<lparr>ww_log := ww_log w @ [(l, m)]\<rparr>),
      h_lib_ext = ''.dll''\<rparr>"

interpretation machine: win_identity win_machine win_base ww_ident
  by unfold_locales (auto simp: win_machine_def win_base_def)

subsection \<open>Properties\<close>

text \<open>
  C27: on Windows a request with credentials either is answered with 403 and runs nothing, or one
  adapter runs it, and while it runs the thread has the identity the logon with these credentials
  gave; afterwards the thread has that of the service again.
\<close>

theorem win_dispatch_identity:
  assumes "win_identity api h ident" and "json_parse rq = Inr root"
    and "credentials root = (user, domain, pass)" and "user \<noteq> []" and "ads \<noteq> []"
  shows "(\<exists>msg w'. dispatch (win_host api h) ads rq w = (json_error 403 msg, w') \<and> ident w' = ident w) \<or>
    (\<exists>ad \<in> set ads. \<exists>tok w1 out w2.
       fst (w_logon api (wide_c_str (utf8_to_wide api user)) (wide_c_str (utf8_to_wide api domain))
         (wide_c_str (utf8_to_wide api pass)) w) = Inr tok \<and>
       ident w1 = Some tok \<and> adapter_run ad rq w1 = (out, w2) \<and>
       dispatch (win_host api h) ads rq w =
         (if out = [] then json_error 500 ''Adapter returned no result'' else out, w_revert api w2) \<and>
       ident (w_revert api w2) = None)"
  by (rule win_identity.dispatch_identity [OF assms])

definition demo_logon :: json where
  "demo_logon = JObject [(''UserCredentials'', JObject [(''Username'', JString ''bob'')])]"

definition demo_machine :: win_world where
  "demo_machine = \<lparr>ww_accounts = [((map (\<lambda>c. of_nat (of_char c)) ''bob'', [], []), 7)], ww_ident = None,
     ww_ran_as = [], ww_log = []\<rparr>"

definition spy :: "win_world adapter" where
  "spy = \<lparr>ad_id = ''Spy'', ad_path = [],
     ad_run = (\<lambda>rq w. (Some ''ok'', w\<lparr>ww_ran_as := ww_ident w # ww_ran_as w\<rparr>))\<rparr>"

lemma win_dispatch_identity_witness:
  "(\<exists>msg w'. dispatch (win_host win_machine win_base) [spy] (dump demo_logon) demo_machine =
      (json_error 403 msg, w') \<and> ww_ident w' = None) \<or>
   (\<exists>w'. dispatch (win_host win_machine win_base) [spy] (dump demo_logon) demo_machine = (''ok'', w') \<and>
      hd (ww_ran_as w') = Some 7 \<and> ww_ident w' = None)"
proof -
  have ok: "json_ok demo_logon" "jdepth demo_logon \<le> kMaxDepth" by (simp_all add: demo_logon_def kMaxDepth_def)
  have "\<not> iequals ''Username'' ''Password''" by code_simp
  then have c: "credentials demo_logon = (''bob'', [], [])"
    by (simp add: credentials_def demo_logon_def get_str_def find_ci_def iequals_length)
  have l: "fst (w_logon win_machine (wide_c_str (utf8_to_wide win_machine ''bob'')) (wide_c_str (utf8_to_wide win_machine []))
      (wide_c_str (utf8_to_wide win_machine [])) demo_machine) = Inr 7"
    by (simp add: win_machine_def demo_machine_def wide_c_str_def utf8_to_wide_def)
  have run: "adapter_run spy rq w = (''ok'', w\<lparr>ww_ran_as := ww_ident w # ww_ran_as w\<rparr>)" for rq w
    by (simp add: adapter_run_def spy_def c_str_def)
  from win_dispatch_identity [OF machine.win_identity_axioms json_parse_dump [OF ok] c, of "[spy]" demo_machine]
  show ?thesis
    by (auto simp: run l) (auto simp: win_machine_def demo_machine_def)
qed

end
