(* ===== verification/Win_Service.thy ===== *)
theory Win_Service
  imports Programs
begin

text \<open>
  The service part of \<^verbatim>\<open>apps/agent-win/src/main.cpp\<close>. The service manager calls \<^verbatim>\<open>svc_main\<close> on one
  thread and \<^verbatim>\<open>svc_ctrl_handler\<close> on another; the two share the status and the stop flag. A run is a
  sequence of steps of either, in any order: every report to the manager, the store to the flag and
  the return of the agent is one step. Controls are delivered one at a time, and only those the
  last reported status accepts.
\<close>

datatype service_state = SERVICE_STOPPED | SERVICE_START_PENDING | SERVICE_STOP_PENDING | SERVICE_RUNNING

datatype control = CONTROL_STOP | CONTROL_SHUTDOWN | CONTROL_INTERROGATE | CONTROL_OTHER

record service_status =
  dwCurrentState :: service_state
  dwWin32ExitCode :: u32
  dwControlsAccepted :: u32
  dwWaitHint :: u32

definition NO_ERROR :: u32 where "NO_ERROR = 0"
definition ERROR_CALL_NOT_IMPLEMENTED :: u32 where "ERROR_CALL_NOT_IMPLEMENTED = 120"
definition ERROR_SERVICE_SPECIFIC_ERROR :: u32 where "ERROR_SERVICE_SPECIFIC_ERROR = 1066"
definition accept_stop :: u32 where "accept_stop = 1"
definition accept_shutdown :: u32 where "accept_shutdown = 4"

text \<open>Where \<^verbatim>\<open>svc_main\<close> is, and what the handler has still to do for the control it was given.\<close>

datatype main_at = Entered | Registered | Starting | In_agent | Agent_returned bool | Returned

datatype handler_at = Idle | Delivered control | Reported

record service =
  s_main :: main_at
  s_handler :: handler_at
  s_reports :: "service_status list"
  s_stop :: bool

definition status_for :: "service_state \<Rightarrow> u32 \<Rightarrow> service_status" where
  "status_for st win32_exit =
     \<lparr>dwCurrentState = st, dwWin32ExitCode = win32_exit,
      dwControlsAccepted = (if st = SERVICE_START_PENDING then 0 else accept_stop OR accept_shutdown),
      dwWaitHint = (if st = SERVICE_START_PENDING \<or> st = SERVICE_STOP_PENDING then 30000 else 0)\<rparr>"

text \<open>The last report comes first in the list.\<close>

definition set_state :: "service_state \<Rightarrow> u32 \<Rightarrow> service \<Rightarrow> service" where
  "set_state st win32_exit s = s\<lparr>s_reports := status_for st win32_exit # s_reports s\<rparr>"

definition control_result :: "control \<Rightarrow> u32" where
  "control_result c =
     (case c of
        CONTROL_STOP \<Rightarrow> NO_ERROR | CONTROL_SHUTDOWN \<Rightarrow> NO_ERROR | CONTROL_INTERROGATE \<Rightarrow> NO_ERROR
      | CONTROL_OTHER \<Rightarrow> ERROR_CALL_NOT_IMPLEMENTED)"

definition accepts :: "service \<Rightarrow> control \<Rightarrow> bool" where
  "accepts s c =
     (case s_reports s of
        [] \<Rightarrow> False
      | st # _ \<Rightarrow>
          (case c of
             CONTROL_STOP \<Rightarrow> dwControlsAccepted st AND accept_stop \<noteq> 0
           | CONTROL_SHUTDOWN \<Rightarrow> dwControlsAccepted st AND accept_shutdown \<noteq> 0
           | CONTROL_INTERROGATE \<Rightarrow> True
           | CONTROL_OTHER \<Rightarrow> False))"

text \<open>The two threads. \<^verbatim>\<open>agent::run\<close> returns when it is asked to stop, and also by itself.\<close>

inductive main_step :: "service \<Rightarrow> service \<Rightarrow> bool" where
  register: "s_main s = Entered \<Longrightarrow> main_step s (s\<lparr>s_main := Registered\<rparr>)"
| no_handle: "s_main s = Entered \<Longrightarrow> main_step s (s\<lparr>s_main := Returned\<rparr>)"
| start_pending: "s_main s = Registered \<Longrightarrow>
    main_step s (set_state SERVICE_START_PENDING NO_ERROR (s\<lparr>s_main := Starting\<rparr>))"
| running: "s_main s = Starting \<Longrightarrow> main_step s (set_state SERVICE_RUNNING NO_ERROR (s\<lparr>s_main := In_agent\<rparr>))"
| agent_returns: "s_main s = In_agent \<Longrightarrow> main_step s (s\<lparr>s_main := Agent_returned ok\<rparr>)"
| stopped: "s_main s = Agent_returned ok \<Longrightarrow>
    main_step s (set_state SERVICE_STOPPED (if ok then NO_ERROR else ERROR_SERVICE_SPECIFIC_ERROR)
      (s\<lparr>s_main := Returned\<rparr>))"

inductive handler_step :: "service \<Rightarrow> service \<Rightarrow> bool" where
  deliver: "s_handler s = Idle \<Longrightarrow> accepts s c \<Longrightarrow> handler_step s (s\<lparr>s_handler := Delivered c\<rparr>)"
| report: "s_handler s = Delivered c \<Longrightarrow> c \<in> {CONTROL_STOP, CONTROL_SHUTDOWN} \<Longrightarrow>
    handler_step s (set_state SERVICE_STOP_PENDING NO_ERROR (s\<lparr>s_handler := Reported\<rparr>))"
| store: "s_handler s = Reported \<Longrightarrow> handler_step s (s\<lparr>s_stop := True, s_handler := Idle\<rparr>)"
| answer: "s_handler s = Delivered c \<Longrightarrow> c \<in> {CONTROL_INTERROGATE, CONTROL_OTHER} \<Longrightarrow>
    handler_step s (s\<lparr>s_handler := Idle\<rparr>)"

definition service_step :: "service \<Rightarrow> service \<Rightarrow> bool" where
  "service_step s s' \<longleftrightarrow> main_step s s' \<or> handler_step s s'"

definition service_start :: service where
  "service_start = \<lparr>s_main = Entered, s_handler = Idle, s_reports = [], s_stop = False\<rparr>"

inductive service_reaches :: "service \<Rightarrow> bool" where
  start: "service_reaches service_start"
| step: "service_reaches s \<Longrightarrow> service_step s s' \<Longrightarrow> service_reaches s'"

inductive_cases main_stepE: "main_step s s'"
inductive_cases handler_stepE: "handler_step s s'"

definition states :: "service \<Rightarrow> service_state list" where
  "states s = map dwCurrentState (s_reports s)"

lemma states_simps [simp]:
  "states (set_state st e s) = st # states s" "states (s\<lparr>s_main := m\<rparr>) = states s"
  "states (s\<lparr>s_handler := g\<rparr>) = states s" "states (s\<lparr>s_stop := b\<rparr>) = states s"
  "s_main (set_state st e s) = s_main s" "s_handler (set_state st e s) = s_handler s"
  "s_stop (set_state st e s) = s_stop s"
  by (simp_all add: states_def set_state_def status_for_def)

subsection \<open>What every run keeps\<close>



lemma reports_simps [simp]:
  "s_reports (set_state st e s) = status_for st e # s_reports s"
  by (simp add: set_state_def)




subsection \<open>Properties\<close>


lemma demo_service_run:
  "service_reaches \<lparr>s_main = In_agent, s_handler = Idle,
     s_reports = [status_for SERVICE_RUNNING 0, status_for SERVICE_START_PENDING 0], s_stop = False\<rparr>"
proof -
  note m = service_reaches.step [OF _ service_step_def [THEN iffD2, OF disjI1]]
  have 1: "service_reaches (service_start\<lparr>s_main := Registered\<rparr>)"
    by (rule m [OF service_reaches.start], rule register) (simp add: service_start_def)
  note 2 = m [OF 1 start_pending]
  note 3 = m [OF 2 running]
  from 3 show ?thesis by (simp add: service_start_def set_state_def NO_ERROR_def)
qed


text \<open>
  A stop that was delivered before the agent returned may be handled after STOPPED was reported: the
  manager is then told STOP_PENDING last, by a service that has returned and reports no more.
\<close>

theorem service_stop_overtaken:
  "\<exists>s. service_reaches s \<and> s_main s = Returned \<and> s_handler s = Idle \<and>
     hd (states s) = SERVICE_STOP_PENDING \<and> (\<forall>s'. \<not> main_step s s')"
proof -
  note m = service_reaches.step [OF _ service_step_def [THEN iffD2, OF disjI1]]
  note h = service_reaches.step [OF _ service_step_def [THEN iffD2, OF disjI2]]
  let ?r = "[status_for SERVICE_RUNNING 0, status_for SERVICE_START_PENDING 0]"
  let ?s = "\<lambda>ma ha rs b. \<lparr>s_main = ma, s_handler = ha, s_reports = rs, s_stop = b\<rparr>"
  let ?st = "status_for SERVICE_STOPPED NO_ERROR"
  let ?sp = "status_for SERVICE_STOP_PENDING NO_ERROR"
  have "accepts (?s In_agent Idle ?r False) CONTROL_STOP" by (simp add: accepts_def status_for_def accept_stop_def accept_shutdown_def)
  from h [OF demo_service_run deliver [OF _ this]] have 1: "service_reaches (?s In_agent (Delivered CONTROL_STOP) ?r False)" by simp
  from m [OF 1 agent_returns [of _ True]] have 2: "service_reaches (?s (Agent_returned True) (Delivered CONTROL_STOP) ?r False)" by simp
  from m [OF 2 stopped [of _ True]] have 3: "service_reaches (?s Returned (Delivered CONTROL_STOP) (?st # ?r) False)"
    by (simp add: set_state_def)
  from h [OF 3 report [of _ CONTROL_STOP]] have 4: "service_reaches (?s Returned Reported (?sp # ?st # ?r) False)"
    by (simp add: set_state_def)
  from h [OF 4 store] have 5: "service_reaches (?s Returned Idle (?sp # ?st # ?r) True)" by simp
  have "\<not> main_step (?s Returned Idle (?sp # ?st # ?r) True) s'" for s' by (auto elim: main_stepE)
  with 5 show ?thesis by (intro exI conjI) (auto simp: states_def status_for_def)
qed

subsection \<open>Installing, the console and \<^verbatim>\<open>main\<close>\<close>

text \<open>
  The service control manager is the record \<open>scm\<close>; a null handle is \<^const>\<open>None\<close>. A configuration call
  carries the actions on failure, as milliseconds before a restart.
\<close>

record 'w scm =
  m_module :: "'w \<Rightarrow> string option"
  m_open :: "'w \<Rightarrow> nat option \<times> 'w"
  m_create :: "nat \<Rightarrow> string \<Rightarrow> 'w \<Rightarrow> nat option \<times> 'w"
  m_open_service :: "nat \<Rightarrow> string \<Rightarrow> 'w \<Rightarrow> nat option \<times> 'w"
  m_describe :: "nat \<Rightarrow> string \<Rightarrow> 'w \<Rightarrow> 'w"
  m_on_failure :: "nat \<Rightarrow> nat list \<Rightarrow> 'w \<Rightarrow> 'w"
  m_control_stop :: "nat \<Rightarrow> 'w \<Rightarrow> 'w"
  m_delete :: "nat \<Rightarrow> 'w \<Rightarrow> bool \<times> 'w"
  m_close :: "nat \<Rightarrow> 'w \<Rightarrow> 'w"
  m_error :: "'w \<Rightarrow> u32"

definition ERROR_SERVICE_EXISTS :: u32 where "ERROR_SERVICE_EXISTS = 1073"
definition ERROR_FAILED_SERVICE_CONTROLLER_CONNECT :: u32 where
  "ERROR_FAILED_SERVICE_CONTROLLER_CONNECT = 1063"

definition SVC_NAME :: string where "SVC_NAME = ''VeriConnectAgent''"
definition SVC_DISP :: string where "SVC_DISP = ''VeriConnect Agent''"
definition SVC_DESC :: string where "SVC_DESC = ''VeriConnect Agent Service''"

definition with_error :: "string \<Rightarrow> u32 \<Rightarrow> string \<Rightarrow> stream \<times> string" where
  "with_error what e after = (Stderr, what @ '' failed ('' @ to_string (unat e) @ '')'' @ after @ nl)"

definition svc_install :: "'w scm \<Rightarrow> 'w \<Rightarrow> (int \<times> printed) \<times> 'w" where
  "svc_install m w =
     (case m_module m w of
        None \<Rightarrow> ((1, [with_error ''GetModuleFileName'' (m_error m w) []]), w)
      | Some exe \<Rightarrow>
          (case m_open m w of
             (None, w) \<Rightarrow>
               ((1, [with_error ''OpenSCManager'' (m_error m w) ''. Run as administrator.'']), w)
           | (Some mgr, w) \<Rightarrow>
               (case m_create m mgr exe w of
                  (None, w) \<Rightarrow>
                    (let err = m_error m w; w = m_close m mgr w
                     in if err = ERROR_SERVICE_EXISTS
                        then ((1, [(Stderr, ''Service already installed.'' @ nl)]), w)
                        else ((1, [with_error ''CreateService'' err []]), w))
                | (Some svc, w) \<Rightarrow>
                    (let w = m_describe m svc SVC_DESC w;
                         w = m_on_failure m svc [10000, 30000, 60000] w
                     in ((0, [(Stdout, ''Service '' @ [CHR 0x27] @ SVC_DISP @ [CHR 0x27] @ '' installed.'' @ nl)]),
                         m_close m mgr (m_close m svc w))))))"

definition svc_uninstall :: "'w scm \<Rightarrow> 'w \<Rightarrow> (int \<times> printed) \<times> 'w" where
  "svc_uninstall m w =
     (case m_open m w of
        (None, w) \<Rightarrow> ((1, [with_error ''OpenSCManager'' (m_error m w) []]), w)
      | (Some mgr, w) \<Rightarrow>
          (case m_open_service m mgr SVC_NAME w of
             (None, w) \<Rightarrow>
               ((1, [(Stderr, ''Service not found ('' @ to_string (unat (m_error m w)) @ '')'' @ nl)]),
                m_close m mgr w)
           | (Some svc, w) \<Rightarrow>
               (let w = m_control_stop m svc w; (ok, w) = m_delete m svc w;
                    msg = (if ok then (Stdout, ''Service '' @ [CHR 0x27] @ SVC_DISP @ [CHR 0x27] @ '' removed.'' @ nl)
                           else with_error ''DeleteService'' (m_error m w) [])
                in ((0, [msg]), m_close m mgr (m_close m svc w)))))"

datatype console_event = CTRL_C | CTRL_BREAK | CTRL_CLOSE | CTRL_OTHER

text \<open>Whether the event is handled, which is when it asks the agent to stop.\<close>

definition console_ctrl :: "console_event \<Rightarrow> bool" where
  "console_ctrl ev \<longleftrightarrow> ev = CTRL_C \<or> ev = CTRL_BREAK \<or> ev = CTRL_CLOSE"

definition run_console ::
  "(options \<Rightarrow> 'w \<Rightarrow> (status \<times> 'w) option) \<Rightarrow> string option \<Rightarrow> 'w \<Rightarrow> ((int \<times> printed) \<times> 'w) option" where
  "run_console run settings_path w =
     (case run \<lparr>o_settings_path = (case settings_path of None \<Rightarrow> [] | Some p \<Rightarrow> p), o_verbose = True\<rparr> w of
        None \<Rightarrow> None
      | Some (r, w) \<Rightarrow>
          Some ((exit_code r, [(Stdout, ''VeriConnect Agent (console mode) - Ctrl+C to stop'' @ nl)]), w))"

text \<open>\<open>dispatcher\<close> is \<^verbatim>\<open>StartServiceCtrlDispatcherW\<close>, the error when it fails.\<close>

definition win_main ::
  "'w scm \<Rightarrow> (options \<Rightarrow> 'w \<Rightarrow> (status \<times> 'w) option) \<Rightarrow> ('w \<Rightarrow> (u32 + unit) \<times> 'w) \<Rightarrow> string list \<Rightarrow> 'w \<Rightarrow>
   ((int \<times> printed) \<times> 'w) option" where
  "win_main m run dispatcher args w =
     (if length args > 1
      then
        (if iequals (args ! 1) ''--install'' then Some (svc_install m w)
         else if iequals (args ! 1) ''--uninstall'' then Some (svc_uninstall m w)
         else if iequals (args ! 1) ''--console''
         then run_console run (if length args > 2 then Some (args ! 2) else None) w
         else Some ((1, [(Stderr,
                ''Usage: vc-agent [--install | --uninstall | --console [settings.ini]]'' @ nl)]), w))
      else
        (case dispatcher w of
           (Inl err, w) \<Rightarrow>
             if err = ERROR_FAILED_SERVICE_CONTROLLER_CONNECT
             then Some ((1, [(Stderr, ''Not started by the Service Control Manager.'' @ nl @
                    ''Use --console to run interactively, --install to install.'' @ nl)]), w)
             else Some ((sint err, []), w)
         | (Inr _, w) \<Rightarrow> Some ((0, []), w)))"

text \<open>A removal that fails is reported on the error stream, but the program exits with 0.\<close>

lemma uninstall_failure_exits_zero:
  assumes "m_open m w = (Some mgr, w1)" and "m_open_service m mgr SVC_NAME w1 = (Some svc, w2)"
    and "m_delete m svc (m_control_stop m svc w2) = (False, w3)"
  shows "\<exists>msg w'. svc_uninstall m w = ((0, [(Stderr, msg)]), w')"
  using assms by (simp add: svc_uninstall_def with_error_def)

end
