(* ===== verification/Os_Services.thy ===== *)
theory Os_Services
  imports Posix Win_Host "HOL-Library.Multiset"
begin

text \<open>
  The rest of the platform layers: the local time, \<^verbatim>\<open>platform/win/vc_os_win.cpp\<close> and
  \<^verbatim>\<open>platform/win/vc_fs_win.cpp\<close>, and the owner of a shared library, \<^verbatim>\<open>DynLib\<close>, over the calls of
  \<^verbatim>\<open>vc_dynlib_posix.cpp\<close> and \<^verbatim>\<open>vc_dynlib_win.cpp\<close>.
\<close>

subsection \<open>Local time\<close>

text \<open>What \<^verbatim>\<open>localtime_r\<close> fills in.\<close>

record tm =
  tm_year :: int
  tm_mon :: int
  tm_mday :: int
  tm_hour :: int
  tm_min :: int
  tm_sec :: int

definition posix_local_time :: "(int \<Rightarrow> tm) \<Rightarrow> int \<Rightarrow> int \<Rightarrow> local_time" where
  "posix_local_time localtime_r tv_sec tv_usec =
     (let t = localtime_r tv_sec
      in \<lparr>lt_year = tm_year t + 1900, lt_month = tm_mon t + 1, lt_day = tm_mday t, lt_hour = tm_hour t,
          lt_minute = tm_min t, lt_second = tm_sec t, lt_millisecond = tv_usec div 1000\<rparr>)"

text \<open>A \<^verbatim>\<open>SYSTEMTIME\<close>, without the day of the week.\<close>

record system_time =
  st_year :: "16 word"
  st_month :: "16 word"
  st_day :: "16 word"
  st_hour :: "16 word"
  st_minute :: "16 word"
  st_second :: "16 word"
  st_ms :: "16 word"

definition win_local_time :: "system_time \<Rightarrow> local_time" where
  "win_local_time st =
     \<lparr>lt_year = uint (st_year st), lt_month = uint (st_month st), lt_day = uint (st_day st),
      lt_hour = uint (st_hour st), lt_minute = uint (st_minute st), lt_second = uint (st_second st),
      lt_millisecond = uint (st_ms st)\<rparr>"

subsection \<open>Services of Windows\<close>

text \<open>
  The tick count stands for the clock of the record \<^typ>\<open>'w kernel\<close>: \<^const>\<open>os_monotonic_ms\<close> of the
  clock it gives is the tick count.
\<close>

definition win_monotonic_ms :: "('w \<Rightarrow> u64) \<Rightarrow> 'w \<Rightarrow> u64" where
  "win_monotonic_ms get_tick_count w = get_tick_count w"

definition tick_clock :: "('w \<Rightarrow> u64) \<Rightarrow> 'w \<Rightarrow> (int \<times> int) \<times> 'w" where
  "tick_clock get_tick_count w =
     (let t = uint (get_tick_count w) in ((t div 1000, t mod 1000 * 1000000), w))"

lemma tick_clock_ms: "os_monotonic_ms (k\<lparr>k_clock := tick_clock ticks\<rparr>) w = (win_monotonic_ms ticks w, w)"
proof -
  define t where "t = uint (ticks w)"
  define m where "m = t mod 1000"
  have m: "0 \<le> m" "m < 1000" by (simp_all add: m_def)
  define x where "x = m * 1000000"
  have "uint (word_of_int x :: u64) = x" using m by (intro word_of_int_inverse [OF refl]) (simp_all add: x_def)
  then have "uint (word_of_int x div 1000000 :: u64) = m" by (simp add: uint_div x_def)
  then have d: "word_of_int x div 1000000 = (word_of_int m :: u64)"
    using m by (intro word_uint_eqI) (simp add: uint_word_of_int)
  have "word_of_int (t div 1000) * 1000 + word_of_int m = (word_of_int (t div 1000 * 1000 + m) :: u64)"
    by simp
  also have "\<dots> = ticks w" by (simp add: m_def t_def)
  finally show ?thesis
    by (simp add: os_monotonic_ms_def tick_clock_def Let_def win_monotonic_ms_def d
        t_def [symmetric] m_def [symmetric] x_def [symmetric])
qed

definition win_random_bytes :: "(nat \<Rightarrow> 'w \<Rightarrow> bytes option \<times> 'w) \<Rightarrow> bytes \<Rightarrow> 'w \<Rightarrow> bytes result \<times> 'w" where
  "win_random_bytes bcrypt buf w =
     (case bcrypt (length buf mod 2 ^ 32) w of
        (None, w) \<Rightarrow> (Err Fail, w)
      | (Some bs, w) \<Rightarrow> (Inr (bs @ drop (length bs) buf), w))"

text \<open>\<^verbatim>\<open>FormatMessageA\<close> is a parameter, \<^const>\<open>None\<close> when it found no text.\<close>

function strip_line_end :: "string \<Rightarrow> string" where
  "strip_line_end s =
     (if s \<noteq> [] \<and> (last s = CHR 0x0D \<or> last s = CHR 0x0A) then strip_line_end (butlast s) else s)"
  by pat_completeness auto
termination by (relation "measure length") auto

declare strip_line_end.simps [simp del]

definition win_error_text :: "(u32 \<Rightarrow> string option) \<Rightarrow> u32 \<Rightarrow> string" where
  "win_error_text format_message e =
     (if e = 0 then []
      else
        to_string (unat e) @ '': '' @
        (case format_message e of None \<Rightarrow> ''unknown'' | Some m \<Rightarrow> strip_line_end m))"

definition win_last_error_text :: "(u32 \<Rightarrow> string option) \<Rightarrow> u32 \<Rightarrow> string" where
  "win_last_error_text format_message last_code = win_error_text format_message last_code"

definition win_shared_library_extension :: string where
  "win_shared_library_extension = ''.dll''"

text \<open>
  The directory of the program. The buffer has room for 1040 wide characters; \<^verbatim>\<open>GetModuleFileNameW\<close>
  cuts a longer name and the code does not notice.
\<close>

definition wide_to_utf8 :: "(wide \<Rightarrow> string option) \<Rightarrow> wide \<Rightarrow> string" where
  "wide_to_utf8 to_utf8 ws = (case to_utf8 (wide_c_str ws) of None \<Rightarrow> [] | Some s \<Rightarrow> s)"

fun strip_filename :: "nat \<Rightarrow> wide \<Rightarrow> wide" where
  "strip_filename 0 ws = ws"
| "strip_filename (Suc i) ws =
     (if ws ! i = 0x5C \<or> ws ! i = 0x2F then ws[i := 0] else strip_filename i ws)"

definition win_exe_dir :: "(wide \<Rightarrow> string option) \<Rightarrow> wide option \<Rightarrow> string option" where
  "win_exe_dir to_utf8 name =
     (case name of
        None \<Rightarrow> None
      | Some ws \<Rightarrow>
          if ws = [] then None
          else (let ws = take 1039 ws in Some (wide_to_utf8 to_utf8 (strip_filename (length ws) ws))))"

lemma strip_filename_directory:
  assumes "c = 0x5C \<or> c = 0x2F" and "0x5C \<notin> set f" and "0x2F \<notin> set f"
  shows "strip_filename (length (dir @ c # f)) (dir @ c # f) = dir @ 0 # f"
proof -
  have "strip_filename (Suc (length dir) + n) (dir @ c # f) = dir @ 0 # f" if "n \<le> length f" for n
    using that
  proof (induction n)
    case 0
    then show ?case using assms(1) by (auto simp: nth_append list_update_append)
  next
    case (Suc n)
    then have "f ! n \<in> set f" by simp
    then have "f ! n \<noteq> 0x5C" "f ! n \<noteq> 0x2F" using assms by metis+
    moreover have "(dir @ c # f) ! (Suc (length dir) + n) = f ! n" by (simp add: nth_append)
    ultimately show ?case using Suc by simp
  qed
  from this [of "length f"] show ?thesis by simp
qed

subsection \<open>The owner of a shared library\<close>

text \<open>
  A library that is loaded is a handle, not 0; a \<^verbatim>\<open>DynLib\<close> holds one or \<^const>\<open>None\<close>. The reason of a
  failure is read at once: \<^verbatim>\<open>dlerror\<close>, or the last error.
\<close>

record 'w loader =
  l_open :: "string \<Rightarrow> 'w \<Rightarrow> nat option \<times> 'w"
  l_why :: "'w \<Rightarrow> string option"
  l_close :: "nat \<Rightarrow> 'w \<Rightarrow> 'w"
  l_symbol :: "nat \<Rightarrow> string \<Rightarrow> 'w \<Rightarrow> nat option"
  l_log :: "level \<Rightarrow> string \<Rightarrow> 'w \<Rightarrow> 'w"

definition lib_drop :: "'w loader \<Rightarrow> nat option \<Rightarrow> 'w \<Rightarrow> 'w" where
  "lib_drop l lib w = (case lib of None \<Rightarrow> w | Some h \<Rightarrow> l_close l h w)"

definition lib_move :: "nat option \<Rightarrow> nat option \<times> nat option" where
  "lib_move other = (other, None)"

definition lib_assign ::
  "'w loader \<Rightarrow> bool \<Rightarrow> nat option \<Rightarrow> nat option \<Rightarrow> 'w \<Rightarrow> (nat option \<times> nat option) \<times> 'w" where
  "lib_assign l same this other w =
     (if same then ((this, other), w) else ((other, None), lib_drop l this w))"

definition posix_lib_open :: "'w loader \<Rightarrow> string \<Rightarrow> 'w \<Rightarrow> nat option option \<times> 'w" where
  "posix_lib_open l path w =
     (case l_open l (c_str path) w of
        (None, w) \<Rightarrow>
          (None, l_log l Warn (''dlopen('' @ path @ '') failed: '' @
             (case l_why l w of None \<Rightarrow> ''unknown'' | Some why \<Rightarrow> c_str why)) w)
      | (Some h, w) \<Rightarrow> (Some (Some h), w))"

definition posix_lib_symbol :: "'w loader \<Rightarrow> nat option \<Rightarrow> string \<Rightarrow> 'w \<Rightarrow> nat option" where
  "posix_lib_symbol l lib name w = (case lib of None \<Rightarrow> None | Some h \<Rightarrow> l_symbol l h name w)"

text \<open>Windows opens the wide form of the name; \<open>wide_open\<close> is \<^verbatim>\<open>LoadLibraryW\<close>.\<close>

definition win_lib_open ::
  "'w win32 \<Rightarrow> (wide \<Rightarrow> 'w \<Rightarrow> nat option \<times> 'w) \<Rightarrow> (u32 \<Rightarrow> string option) \<Rightarrow> ('w \<Rightarrow> u32) \<Rightarrow>
     (level \<Rightarrow> string \<Rightarrow> 'w \<Rightarrow> 'w) \<Rightarrow> string \<Rightarrow> 'w \<Rightarrow> nat option option \<times> 'w" where
  "win_lib_open api wide_open format_message last_code log path w =
     (case wide_open (wide_c_str (utf8_to_wide api path)) w of
        (None, w) \<Rightarrow>
          (None, log Warn (''LoadLibrary('' @ path @ '') failed: '' @
             win_last_error_text format_message (last_code w)) w)
      | (Some h, w) \<Rightarrow> (Some (Some h), w))"

text \<open>What a loader promises of the handles that are open, and that no operation loses or repeats one.\<close>

locale library_loader =
  fixes l :: "'w loader"
    and handles :: "'w \<Rightarrow> nat multiset"
  assumes open_handles: "l_open l p w = (q, w') \<Longrightarrow>
      handles w' = handles w + (case q of None \<Rightarrow> {#} | Some h \<Rightarrow> {#h#})"
    and close_handles: "handles (l_close l h w) = handles w - {#h#}"
    and log_handles: "handles (l_log l lv m w) = handles w"
begin

definition held :: "nat option \<Rightarrow> nat multiset" where
  "held lib = (case lib of None \<Rightarrow> {#} | Some h \<Rightarrow> {#h#})"

lemma open_balance:
  "posix_lib_open l path w = (r, w') \<Longrightarrow>
     handles w' = handles w + (case r of None \<Rightarrow> {#} | Some lib \<Rightarrow> held lib)"
  using open_handles by (fastforce simp: posix_lib_open_def held_def log_handles split: prod.splits option.splits)

lemma drop_balance: "handles w = R + held lib \<Longrightarrow> handles (lib_drop l lib w) = R"
  by (auto simp: lib_drop_def held_def close_handles split: option.splits)

lemma move_balance: "lib_move other = (this, other') \<Longrightarrow> held this + held other' = held other"
  by (auto simp: lib_move_def held_def)

lemma assign_balance:
  "handles w = R + held this + held other \<Longrightarrow> lib_assign l same this other w = ((this', other'), w') \<Longrightarrow>
     handles w' = R + held this' + held other'"
  using drop_balance [of w "R + held other" this]
  by (auto simp: lib_assign_def ac_simps held_def split: if_splits option.splits)

end

text \<open>A loader that knows some libraries and counts its handles.\<close>

record loader_world =
  lw_open :: "nat multiset"
  lw_known :: "string list"
  lw_log :: "string list"

definition listed_loader :: "loader_world loader" where
  "listed_loader =
     \<lparr>l_open = (\<lambda>p w. if p \<in> set (lw_known w) then (Some (length p), w\<lparr>lw_open := add_mset (length p) (lw_open w)\<rparr>)
                      else (None, w)),
      l_why = (\<lambda>w. Some ''no such library''), l_close = (\<lambda>h w. w\<lparr>lw_open := lw_open w - {#h#}\<rparr>),
      l_symbol = (\<lambda>h name w. None), l_log = (\<lambda>lv m w. w\<lparr>lw_log := lw_log w @ [m]\<rparr>)\<rparr>"

interpretation listed: library_loader listed_loader lw_open
  by unfold_locales (auto simp: listed_loader_def split: if_splits)

text \<open>Loading one library over another: one handle is open afterwards.\<close>

lemma listed_reload:
  assumes "posix_lib_open listed_loader p w = (Some lib, u)" and "lw_open w = {#h#}"
    and "lib_assign listed_loader False (Some h) lib u = ((this, other), w')"
  shows "lw_open w' = listed.held this"
proof -
  have "lw_open u = {#} + listed.held (Some h) + listed.held lib"
    using listed.open_balance [OF assms(1)] assms(2) by (simp add: listed.held_def)
  from listed.assign_balance [OF this assms(3)] assms(3) show ?thesis
    by (simp add: lib_assign_def listed.held_def)
qed

end
