(* ===== verification/Win_Sock.thy ===== *)
theory Win_Sock
  imports Sock
begin

text \<open>
  \<^verbatim>\<open>platform/win/vc_sock_win.cpp\<close>: the TCP client socket over Winsock. The calls have the shape of the
  record \<^typ>\<open>'w kernel\<close>, with \<^verbatim>\<open>select\<close> for \<^const>\<open>k_poll\<close> and \<^verbatim>\<open>WSAGetLastError\<close> for \<^const>\<open>k_errno\<close>; a
  socket that is invalid is negative. No call is ever interrupted, so nothing is repeated.
\<close>

definition WSAEWOULDBLOCK :: u32 where "WSAEWOULDBLOCK = 10035"
definition WSAETIMEDOUT :: u32 where "WSAETIMEDOUT = 10060"

definition sock_error :: "'w kernel \<Rightarrow> error_code \<Rightarrow> 'w \<Rightarrow> error" where
  "sock_error k c w = \<lparr>code = c, os_code = k_errno k w\<rparr>"

definition win_close :: "'w kernel \<Rightarrow> int \<Rightarrow> 'w \<Rightarrow> int \<times> 'w" where
  "win_close k fd w = (if fd \<ge> 0 then (-1, k_close k fd w) else (fd, w))"

definition win_assign :: "'w kernel \<Rightarrow> bool \<Rightarrow> int \<Rightarrow> int \<Rightarrow> 'w \<Rightarrow> (int \<times> int) \<times> 'w" where
  "win_assign k same this other w =
     (if same then ((this, other), w) else (let (_, w) = win_close k this w in ((other, -1), w)))"

text \<open>
  Winsock is started once for the process, whose state is \<^verbatim>\<open>g_ws_init\<close> and how many calls of \<^verbatim>\<open>WSAStartup\<close>
  have no \<^verbatim>\<open>WSACleanup\<close> yet. Connecting starts it; it is kept apart from the world of the calls.
\<close>

record winsock_use =
  ws_init :: bool
  ws_startups :: nat

definition win_global_init :: "bool \<Rightarrow> winsock_use \<Rightarrow> winsock_use" where
  "win_global_init started u =
     (if \<not> ws_init u
      then (if started then u\<lparr>ws_init := True, ws_startups := ws_startups u + 1\<rparr> else u\<lparr>ws_init := False\<rparr>)
      else u)"

definition win_global_cleanup :: "winsock_use \<Rightarrow> winsock_use" where
  "win_global_cleanup u =
     (if ws_init u then u\<lparr>ws_init := False, ws_startups := ws_startups u - 1\<rparr> else u)"

lemma winsock_use_balanced:
  "ws_startups u = of_bool (ws_init u) \<Longrightarrow>
     ws_startups (win_global_init started u) = of_bool (ws_init (win_global_init started u)) \<and>
     ws_startups (win_global_cleanup u) = of_bool (ws_init (win_global_cleanup u))"
  by (simp add: win_global_init_def win_global_cleanup_def)

definition win_try_connect :: "'w kernel \<Rightarrow> int \<Rightarrow> nat \<Rightarrow> int \<Rightarrow> 'w \<Rightarrow> (u32 + unit) \<times> 'w" where
  "win_try_connect k fd ai timeout_ms w =
     (let w = k_nonblock k fd True w;
          (cr, w) = k_connect k fd ai w
      in if cr = 0 then (Inr (), k_nonblock k fd False w)
         else
           (let ce = k_errno k w
            in if ce \<noteq> WSAEWOULDBLOCK then (Inl ce, w)
               else
                 (let (sr, w) = k_poll k fd True timeout_ms w
                  in if sr > 0
                     then (let (err, w) = k_so_error k fd w
                           in if err = 0 then (Inr (), k_nonblock k fd False w) else (Inl err, w))
                     else if sr = 0 then (Inl WSAETIMEDOUT, w)
                     else (Inl (k_errno k w), w))))"

fun win_try_addresses :: "'w kernel \<Rightarrow> int \<Rightarrow> nat list \<Rightarrow> u32 \<Rightarrow> 'w \<Rightarrow> (u32 + int) \<times> 'w" where
  "win_try_addresses k timeout_ms [] oe w = (Inl oe, w)"
| "win_try_addresses k timeout_ms (ai # ais) oe w =
     (let (fd, w) = k_socket k ai w
      in if fd < 0 then win_try_addresses k timeout_ms ais (k_errno k w) w
         else
           (case win_try_connect k fd ai timeout_ms w of
              (Inr _, w) \<Rightarrow> (Inr fd, w)
            | (Inl oe, w) \<Rightarrow> win_try_addresses k timeout_ms ais oe (k_close k fd w)))"

definition win_connect :: "'w kernel \<Rightarrow> string \<Rightarrow> int \<Rightarrow> int \<Rightarrow> 'w \<Rightarrow> int result \<times> 'w" where
  "win_connect k host port timeout_ms w =
     (let (res, w) = k_getaddrinfo k (c_str host) (int_to_string port) w
      in if res = [] then (Err NotFound, w)
         else
           (case win_try_addresses k timeout_ms res 0 w of
              (Inl oe, w) \<Rightarrow> (Inl \<lparr>code = Io, os_code = oe\<rparr>, w)
            | (Inr fd, w) \<Rightarrow> (Inr fd, k_keepalive k fd w)))"

partial_function (option) win_send :: "'w kernel \<Rightarrow> int \<Rightarrow> bytes \<Rightarrow> 'w \<Rightarrow> (status \<times> 'w) option" where
  "win_send k fd data w =
     (if data = [] then Some (Inr (), w)
      else
        (let (n, w) = k_send k fd data w
         in if n < 0 then Some (Inl (sock_error k Io w), w)
            else win_send k fd (drop (nat n) data) w))"

definition win_recv :: "'w kernel \<Rightarrow> int \<Rightarrow> nat \<Rightarrow> int \<Rightarrow> 'w \<Rightarrow> bytes result \<times> 'w" where
  "win_recv k fd n timeout_ms w =
     (let (sel, w) = k_poll k fd False (if timeout_ms < 0 then -1 else timeout_ms) w
      in if sel = 0 then (Err Timeout, w)
         else if sel < 0 then (Inl (sock_error k Io w), w)
         else
           (case k_recv k fd n w of
              (None, w) \<Rightarrow> (Inl (sock_error k Io w), w)
            | (Some bs, w) \<Rightarrow> (Inr bs, w)))"

subsection \<open>What the socket promises\<close>

text \<open>Winsock's \<^verbatim>\<open>send\<close> of some bytes never transfers none.\<close>

locale winsock = kernel_calls k out inp fds patience
  for k :: "'w kernel" and out inp fds patience +
  assumes send_some: "k_send k fd d w = (m, w') \<Longrightarrow> d \<noteq> [] \<Longrightarrow> m \<noteq> 0"
begin

lemma win_send_prefix:
  "\<exists>r w' n. win_send k fd d w = Some (r, w') \<and> n \<le> length d \<and> out fd w' = out fd w @ take n d \<and>
     inp fd w' = inp fd w \<and> fds w' = fds w \<and> (r = Inr () \<longrightarrow> n = length d)"
proof (induction d arbitrary: w rule: length_induct)
  case (1 d)
  show ?case
  proof (cases "d = []")
    case True
    then show ?thesis by (subst win_send.simps) simp
  next
    case ne: False
    obtain m v where s: "k_send k fd d w = (m, v)" by (cases "k_send k fd d w")
    note laws = send_count [OF s] send_out [OF s] send_rest [OF s]
    show ?thesis
    proof (cases "m < 0")
      case True
      have "win_send k fd d w = Some (Inl (sock_error k Io v), v)"
        by (subst win_send.simps) (simp add: ne s True)
      then show ?thesis using laws True by (auto intro: exI [of _ 0])
    next
      case False
      then have m: "0 < m" using send_some [OF s ne] by simp
      have e: "win_send k fd d w = win_send k fd (drop (nat m) d) v"
        by (subst win_send.simps) (simp add: ne s False)
      have "length (drop (nat m) d) < length d" using m ne by (cases d) auto
      then obtain r w' n where i: "win_send k fd (drop (nat m) d) v = Some (r, w')"
        "n \<le> length (drop (nat m) d)" "out fd w' = out fd v @ take n (drop (nat m) d)"
        "inp fd w' = inp fd v" "fds w' = fds v" "r = Inr () \<longrightarrow> n = length (drop (nat m) d)"
        using 1 by blast
      have "take (nat m) d @ take n (drop (nat m) d) = take (nat m + n) d" by (simp add: take_add)
      with i laws m show ?thesis unfolding e
        by (intro exI [of _ r] exI [of _ w'] exI [of _ "nat m + n"]) auto
    qed
  qed
qed

lemma win_recv_bytes:
  assumes "win_recv k fd n ms w = (r, w')"
  shows "out fd w' = out fd w \<and> fds w' = fds w \<and>
    (case r of Inl _ \<Rightarrow> inp fd w' = inp fd w | Inr bs \<Rightarrow> inp fd w = bs @ inp fd w' \<and> length bs \<le> n)"
proof -
  obtain sel v where p: "k_poll k fd False (if ms < 0 then -1 else ms) w = (sel, v)" by fastforce
  obtain q u where q: "k_recv k fd n v = (q, u)" by (cases "k_recv k fd n v")
  show ?thesis
    using assms poll_rest [OF p, of fd] recv_rest [OF q] recv_none [of fd n v u] recv_some [of fd n v _ u] q
    by (auto simp: win_recv_def p split: if_splits option.splits)
qed

lemma win_try_addresses_fds:
  "win_try_addresses k ms ais oe w = (r, w') \<Longrightarrow>
     (case r of Inl _ \<Rightarrow> fds w' = fds w | Inr fd \<Rightarrow> 0 \<le> fd \<and> fd \<notin> fds w \<and> fds w' = insert fd (fds w))"
proof (induction ais arbitrary: oe w)
  case (Cons ai ais)
  obtain fd v where s: "k_socket k ai w = (fd, v)" by (cases "k_socket k ai w")
  note f = socket_fds [OF s]
  show ?case
  proof (cases "fd < 0")
    case True
    then show ?thesis using Cons.IH [of "k_errno k v" v] Cons.prems f s by (simp cong: sum.case_cong)
  next
    case False
    obtain q u where t: "win_try_connect k fd ai ms v = (q, u)" by (cases "win_try_connect k fd ai ms v")
    have "fds u = fds v"
      using t other_fds poll_rest
      by (fastforce simp: win_try_connect_def Let_def split: if_splits prod.splits)
    then have c: "fds (k_close k fd u) = fds w" using f False by (auto simp: close_fds)
    show ?thesis
    proof (cases q)
      case (Inl e)
      then show ?thesis using Cons.IH [of e "k_close k fd u"] Cons.prems s False t c
        by (simp cong: sum.case_cong)
    next
      case (Inr x)
      then show ?thesis using Cons.prems f s False t \<open>fds u = fds v\<close> by auto
    qed
  qed
qed auto

lemma win_connect_fds:
  "win_connect k h p ms w = (r, w') \<Longrightarrow>
     (case r of Inl _ \<Rightarrow> fds w' = fds w | Inr fd \<Rightarrow> 0 \<le> fd \<and> fd \<notin> fds w \<and> fds w' = insert fd (fds w))"
  using win_try_addresses_fds other_fds(2,5)
  by (fastforce simp: win_connect_def split: prod.splits sum.splits if_splits)

end

interpretation script_win: winsock scripted_kernel "\<lambda>fd w. kw_out w fd" "\<lambda>fd w. kw_in w fd"
    "\<lambda>w. set (kw_fds w)" "\<lambda>w. length (kw_script w)"
  by unfold_locales
    (auto simp: scripted_kernel_def ks_send_def Let_def min_pos split: prod.splits if_splits)

end
