(* ===== verification/Schannel.thy ===== *)
theory Schannel
  imports Win_Sock Tls_Stream
begin

text \<open>
  \<^verbatim>\<open>platform/win/vc_tls_schannel.cpp\<close>: the TLS stream over Schannel. The package works on the buffers
  of the stream: ciphertext received waits in \<open>si_enc\<close> until a whole record can be decrypted, and
  plaintext the caller had no room for waits in \<open>si_plain\<close>. Schannel is the record \<open>package\<close>; the
  length of a \<^verbatim>\<open>SECBUFFER_EXTRA\<close> is a number, 0 when there is none and never more than was given in.
  That \<^verbatim>\<open>QueryContextAttributes\<close> fails, which the code does not notice, is a \<open>p_max\<close> of 0.
\<close>

datatype init_status = Init_ok | Init_continue | Init_incomplete | Init_failed | Init_other

datatype decrypt_status = Decrypted bytes nat | Expired | Incomplete | Decrypt_failed

record 'w package =
  p_acquire :: "'w \<Rightarrow> bool \<times> 'w"
  p_init :: "string \<Rightarrow> bool \<Rightarrow> bytes \<Rightarrow> 'w \<Rightarrow> (init_status \<times> bytes \<times> nat) \<times> 'w"
  p_max :: "'w \<Rightarrow> nat"
  p_encrypt :: "bytes \<Rightarrow> 'w \<Rightarrow> bytes option \<times> 'w"
  p_decrypt :: "bytes \<Rightarrow> 'w \<Rightarrow> decrypt_status \<times> 'w"
  p_delete :: "bool \<Rightarrow> bool \<Rightarrow> 'w \<Rightarrow> 'w"

record schannel =
  si_fd :: int
  si_cred :: bool
  si_ctx :: bool
  si_max :: nat
  si_plain :: bytes
  si_enc :: bytes
  si_closed :: bool

definition consume :: "bytes \<Rightarrow> nat \<Rightarrow> bytes" where
  "consume b n = drop (min n (length b)) b"

definition new_schannel :: "int \<Rightarrow> schannel" where
  "new_schannel fd =
     \<lparr>si_fd = fd, si_cred = False, si_ctx = False, si_max = 0, si_plain = [], si_enc = [], si_closed = False\<rparr>"

definition sc_drop :: "'w kernel \<Rightarrow> 'w package \<Rightarrow> schannel \<Rightarrow> 'w \<Rightarrow> 'w" where
  "sc_drop k p im w = snd (win_close k (si_fd im) (p_delete p (si_ctx im) (si_cred im) w))"

definition recv_some :: "'w kernel \<Rightarrow> int \<Rightarrow> schannel \<Rightarrow> 'w \<Rightarrow> nat result \<times> schannel \<times> 'w" where
  "recv_some k timeout_ms im w =
     (case win_recv k (si_fd im) 8192 timeout_ms w of
        (Inl er, w) \<Rightarrow> (Inl er, im, w)
      | (Inr bs, w) \<Rightarrow> (Inr (length bs), im\<lparr>si_enc := si_enc im @ bs\<rparr>, w))"

text \<open>Waiting for ciphertext: until there is some, the peer closes, or the deadline is past.\<close>

partial_function (option) await_bytes ::
  "'w kernel \<Rightarrow> u64 \<Rightarrow> schannel \<Rightarrow> 'w \<Rightarrow> (status \<times> schannel \<times> 'w) option" where
  "await_bytes k deadline im w =
     (if si_enc im \<noteq> [] then Some (Inr (), im, w)
      else
        (let (now, w) = os_monotonic_ms k w
         in if now \<ge> deadline then Some (Err Timeout, im, w)
            else
              (case recv_some k (to_int32 (deadline - now)) im w of
                 (Inl er, im, w) \<Rightarrow>
                   if error_is er Timeout then await_bytes k deadline im w else Some (Err Tls, im, w)
               | (Inr n, im, w) \<Rightarrow>
                   if n = 0 then Some (Err Tls, im, w) else await_bytes k deadline im w)))"

text \<open>One turn of the handshake: \<^const>\<open>None\<close> when there is another.\<close>

definition handshake_turn ::
  "'w kernel \<Rightarrow> 'w package \<Rightarrow> string \<Rightarrow> u64 \<Rightarrow> bool \<Rightarrow> schannel \<Rightarrow> 'w \<Rightarrow> (status option \<times> schannel \<times> 'w) option"
where
  "handshake_turn k p target deadline first im w =
     (let ((ss, token, extra), w) = p_init p target first (if first then [] else si_enc im) w;
          im = im\<lparr>si_ctx := si_ctx im \<or> ss \<noteq> Init_other\<rparr>
      in case (if token \<noteq> [] then win_send k (si_fd im) token w else Some (Inr (), w)) of
           None \<Rightarrow> None
         | Some (Inl _, w) \<Rightarrow> Some (Some (Err Io), im, w)
         | Some (Inr _, w) \<Rightarrow>
             if ss = Init_incomplete
             then
               (let (now, w) = os_monotonic_ms k w
                in if now \<ge> deadline then Some (Some (Err Timeout), im, w)
                   else
                     (case recv_some k (to_int32 (deadline - now)) im w of
                        (Inl er, im, w) \<Rightarrow>
                          Some (if error_is er Timeout then None else Some (Err Tls), im, w)
                      | (Inr n, im, w) \<Rightarrow> Some (None, im, w)))
             else
               (let im = im\<lparr>si_enc := (if extra > 0 then consume (si_enc im) (length (si_enc im) - extra) else [])\<rparr>
                in case ss of
                     Init_continue \<Rightarrow> Some (None, im, w)
                   | Init_ok \<Rightarrow> Some (Some (Inr ()), im\<lparr>si_max := p_max p w\<rparr>, w)
                   | _ \<Rightarrow> Some (Some (Err Tls), im, w)))"

partial_function (option) sc_handshake ::
  "'w kernel \<Rightarrow> 'w package \<Rightarrow> string \<Rightarrow> u64 \<Rightarrow> bool \<Rightarrow> schannel \<Rightarrow> 'w \<Rightarrow> (status \<times> schannel \<times> 'w) option"
where
  "sc_handshake k p target deadline first im w =
     (case (if first then Some (Inr (), im, w) else await_bytes k deadline im w) of
        None \<Rightarrow> None
      | Some (Inl er, im, w) \<Rightarrow> Some (Inl er, im, w)
      | Some (Inr _, im, w) \<Rightarrow>
          (case handshake_turn k p target deadline first im w of
             None \<Rightarrow> None
           | Some (Some r, im, w) \<Rightarrow> Some (r, im, w)
           | Some (None, im, w) \<Rightarrow> sc_handshake k p target deadline False im w))"

definition sc_connect ::
  "'w kernel \<Rightarrow> 'w package \<Rightarrow> int \<Rightarrow> string \<Rightarrow> int \<Rightarrow> 'w \<Rightarrow> (schannel result \<times> 'w) option" where
  "sc_connect k p fd hostname timeout_ms w =
     (let im = new_schannel fd; (ok, w) = p_acquire p w
      in if \<not> ok then Some (Err Tls, sc_drop k p im w)
         else
           (let im = im\<lparr>si_cred := True\<rparr>; (now, w) = os_monotonic_ms k w
            in case sc_handshake k p (c_str hostname) (now + word_of_int timeout_ms) True im w of
                 None \<Rightarrow> None
               | Some (Inl _, im, w) \<Rightarrow> Some (Err Tls, sc_drop k p im w)
               | Some (Inr _, im, w) \<Rightarrow> Some (Inr im, w)))"

text \<open>The argument is what is still to be sent; a record holds at most \<open>si_max\<close> bytes of it.\<close>

partial_function (option) sc_send_loop ::
  "'w kernel \<Rightarrow> 'w package \<Rightarrow> int \<Rightarrow> nat \<Rightarrow> bytes \<Rightarrow> 'w \<Rightarrow> (status \<times> 'w) option" where
  "sc_send_loop k p fd maxmsg data w =
     (if data = [] then Some (Inr (), w)
      else
        (let chunk = min (length data) maxmsg
         in case p_encrypt p (take chunk data) w of
              (None, w) \<Rightarrow> Some (Err Tls, w)
            | (Some rec, w) \<Rightarrow>
                (case win_send k fd rec w of
                   None \<Rightarrow> None
                 | Some (Inl _, w) \<Rightarrow> Some (Err Io, w)
                 | Some (Inr _, w) \<Rightarrow> sc_send_loop k p fd maxmsg (drop chunk data) w)))"

definition sc_send ::
  "'w kernel \<Rightarrow> 'w package \<Rightarrow> schannel option \<Rightarrow> bytes \<Rightarrow> 'w \<Rightarrow> (status \<times> 'w) option" where
  "sc_send k p t data w =
     (case t of
        None \<Rightarrow> Some (Err Closed, w)
      | Some im \<Rightarrow>
          if si_closed im then Some (Err Closed, w)
          else sc_send_loop k p (si_fd im) (si_max im) data w)"

definition serve_plain :: "nat \<Rightarrow> schannel \<Rightarrow> bytes \<times> schannel" where
  "serve_plain sz im =
     (let n = min (length (si_plain im)) sz
      in (take n (si_plain im), im\<lparr>si_plain := consume (si_plain im) n\<rparr>))"

text \<open>A record of the received ciphertext, if there is a whole one.\<close>

definition take_record ::
  "'w package \<Rightarrow> nat \<Rightarrow> schannel \<Rightarrow> 'w \<Rightarrow> (bytes result option \<times> bool) \<times> schannel \<times> 'w" where
  "take_record p sz im w =
     (case p_decrypt p (si_enc im) w of
        (Decrypted d extra, w) \<Rightarrow>
          (let im = im\<lparr>si_plain := si_plain im @ d,
                       si_enc := (if extra > 0 then consume (si_enc im) (length (si_enc im) - extra) else [])\<rparr>
           in if si_plain im \<noteq> []
              then (let (bs, im) = serve_plain sz im in ((Some (Inr bs), False), im, w))
              else ((None, True), im, w))
      | (Expired, w) \<Rightarrow> ((Some (Inr []), False), im\<lparr>si_closed := True\<rparr>, w)
      | (Incomplete, w) \<Rightarrow> ((None, False), im, w)
      | (Decrypt_failed, w) \<Rightarrow> ((Some (Err Tls), False), im, w))"

partial_function (option) sc_recv_loop ::
  "'w kernel \<Rightarrow> 'w package \<Rightarrow> nat \<Rightarrow> int \<Rightarrow> u64 \<Rightarrow> schannel \<Rightarrow> 'w \<Rightarrow> (bytes result \<times> schannel \<times> 'w) option"
where
  "sc_recv_loop k p sz timeout_ms deadline im w =
     (let ((served, again), im, w) =
        (if si_enc im \<noteq> [] then take_record p sz im w else ((None, False), im, w))
      in case served of
           Some r \<Rightarrow> Some (r, im, w)
         | None \<Rightarrow>
             if again then sc_recv_loop k p sz timeout_ms deadline im w
             else
               (let (now, w) = os_monotonic_ms k w;
                    wait = (if timeout_ms < 0 then -1
                            else if now \<ge> deadline then 0 else to_int32 (deadline - now))
                in if timeout_ms \<ge> 0 \<and> wait = 0 \<and> si_enc im = [] then Some (Err Timeout, im, w)
                   else
                     (case recv_some k (if wait < 0 then 60000 else wait) im w of
                        (Inl er, im, w) \<Rightarrow>
                          if error_is er Timeout
                          then (if timeout_ms < 0 then sc_recv_loop k p sz timeout_ms deadline im w
                                else Some (Err Timeout, im, w))
                          else Some (Inl er, im, w)
                      | (Inr n, im, w) \<Rightarrow>
                          if n = 0 then Some (Inr [], im\<lparr>si_closed := True\<rparr>, w)
                          else sc_recv_loop k p sz timeout_ms deadline im w)))"

definition sc_recv ::
  "'w kernel \<Rightarrow> 'w package \<Rightarrow> schannel option \<Rightarrow> nat \<Rightarrow> int \<Rightarrow> 'w \<Rightarrow>
     (bytes result \<times> schannel option \<times> 'w) option" where
  "sc_recv k p t sz timeout_ms w =
     (case t of
        None \<Rightarrow> Some (Err InvalidArg, t, w)
      | Some im \<Rightarrow>
          if si_plain im \<noteq> [] then (let (bs, im) = serve_plain sz im in Some (Inr bs, Some im, w))
          else if si_closed im then Some (Inr [], t, w)
          else
            (let (now, w) = os_monotonic_ms k w
             in case sc_recv_loop k p sz timeout_ms
                       (now + word_of_int (if timeout_ms < 0 then 0 else timeout_ms)) im w of
                  None \<Rightarrow> None
                | Some (r, im, w) \<Rightarrow> Some (r, Some im, w)))"

definition sc_close :: "'w kernel \<Rightarrow> 'w package \<Rightarrow> schannel option \<Rightarrow> 'w \<Rightarrow> schannel option \<times> 'w" where
  "sc_close k p t w = (case t of None \<Rightarrow> (None, w) | Some im \<Rightarrow> (None, sc_drop k p im w))"

subsection \<open>What Schannel promises\<close>

text \<open>
  Of the context: the plaintext it has encrypted, the ciphertext made of it, the ciphertext it has
  taken from the received bytes and the plaintext that was in it. Decrypting takes a record from
  the front and says how much is left; the handshake and an incomplete record say so too.
\<close>

record sc_view =
  c_sealed :: bytes
  c_made :: bytes
  c_eaten :: bytes
  c_opened :: bytes

locale sc_package = winsock k out inp fds patience
  for k :: "'w kernel" and out inp fds patience +
  fixes p :: "'w package"
    and view :: "'w \<Rightarrow> sc_view"
  assumes send_view: "k_send k fd d w = (m, w') \<Longrightarrow> view w' = view w"
    and recv_view: "k_recv k fd sz w = (q, w') \<Longrightarrow> view w' = view w"
    and poll_view: "k_poll k fd b ms w = (r, w') \<Longrightarrow> view w' = view w"
    and clock_view: "k_clock k w = (c, w') \<Longrightarrow> view w' = view w \<and> same_kernel out inp fds w w'"
    and acquire_kernel: "p_acquire p w = (ok, w') \<Longrightarrow> same_kernel out inp fds w w'"
    and init_kernel: "p_init p target first enc w = (ini, w') \<Longrightarrow> same_kernel out inp fds w w'"
    and delete_kernel: "same_kernel out inp fds w (p_delete p a b w)"
    and encrypt_kernel: "p_encrypt p d w = (res, w') \<Longrightarrow> same_kernel out inp fds w w'"
    and encrypt_view: "p_encrypt p d w = (res, w') \<Longrightarrow> view w' =
      (case res of None \<Rightarrow> view w
       | Some rec \<Rightarrow> (view w)\<lparr>c_sealed := c_sealed (view w) @ d, c_made := c_made (view w) @ rec\<rparr>)"
    and decrypt_kernel: "p_decrypt p enc w = (ds, w') \<Longrightarrow> same_kernel out inp fds w w'"
    and decrypt_view: "p_decrypt p enc w = (ds, w') \<Longrightarrow>
      (case ds of
         Decrypted d extra \<Rightarrow> extra < length enc \<and>
           view w' = (view w)\<lparr>c_eaten := c_eaten (view w) @ take (length enc - extra) enc,
                             c_opened := c_opened (view w) @ d\<rparr>
       | _ \<Rightarrow> view w' = view w)"
begin

lemma win_send_view:
  assumes "win_send k fd d w = Some (r, w')"
  shows "view w' = view w"
proof -
  have "view (snd y) = view w" if "win_send k fd d w = Some y" for y
    by (rule win_send.raw_induct [where P = "\<lambda>k' fd' d w y. k' = k \<longrightarrow> fd' = fd \<longrightarrow> view (snd y) = view w",
          rule_format, OF _ that refl refl])
      (auto simp: Let_def dest!: send_view split: prod.splits if_splits)
  from this [OF assms] show ?thesis by simp
qed

lemma win_recv_view: "win_recv k fd n ms w = (r, w') \<Longrightarrow> view w' = view w"
  by (auto simp: win_recv_def Let_def dest!: poll_view recv_view split: prod.splits if_splits option.splits)

lemma sc_clock_keeps:
  "os_monotonic_ms k w = (now, w') \<Longrightarrow> view w' = view w \<and> same_kernel out inp fds w w'"
  using clock_view by (auto simp: os_monotonic_ms_def split: prod.splits)

text \<open>Sending returns, and hands over whole records in order.\<close>

lemma sc_send_loop_delivers:
  assumes "0 < maxmsg"
  shows "\<exists>r w' n c. sc_send_loop k p fd maxmsg d w = Some (r, w') \<and> n \<le> length d \<and>
     c_sealed (view w') = c_sealed (view w) @ take n d \<and> c_made (view w') = c_made (view w) @ c \<and>
     inp fd w' = inp fd w \<and> fds w' = fds w \<and> prefix (out fd w') (out fd w @ c) \<and>
     (r = Inr () \<longrightarrow> n = length d \<and> out fd w' = out fd w @ c)"
proof (induction d arbitrary: w rule: length_induct)
  case (1 d)
  show ?case
  proof (cases "d = []")
    case True
    have "sc_send_loop k p fd maxmsg d w = Some (Inr (), w)" by (subst sc_send_loop.simps) (simp add: True)
    then show ?thesis using True by (auto intro!: exI [of _ "[]"])
  next
    case ne: False
    define ch where "ch = min (length d) maxmsg"
    obtain res v where e: "p_encrypt p (take ch d) w = (res, v)" by (cases "p_encrypt p (take ch d) w")
    have kv: "out fd v = out fd w" "inp fd v = inp fd w" "fds v = fds w"
      using encrypt_kernel [OF e] by (auto simp: same_kernel_def)
    note ev = encrypt_view [OF e]
    show ?thesis
    proof (cases res)
      case None
      have "sc_send_loop k p fd maxmsg d w = Some (Err Tls, v)"
        by (subst sc_send_loop.simps) (simp add: ne ch_def [symmetric] e None Let_def)
      then show ?thesis using None ev kv
        by (intro exI [of _ "Err Tls"] exI [of _ v] exI [of _ 0] exI [of _ "[]"]) simp
    next
      case (Some c)
      obtain r u n where s: "win_send k fd c v = Some (r, u)" "n \<le> length c" "out fd u = out fd v @ take n c"
        "inp fd u = inp fd v" "fds u = fds v" "r = Inr () \<longrightarrow> n = length c"
        using win_send_prefix [of fd c v] by blast
      have vu: "view u = view v" by (rule win_send_view [OF s(1)])
      show ?thesis
      proof (cases r)
        case (Inl x)
        have "sc_send_loop k p fd maxmsg d w = Some (Err Io, u)"
          by (subst sc_send_loop.simps) (simp add: ne ch_def [symmetric] e Some s(1) Inl Let_def)
        then show ?thesis using Some ev kv s vu Inl
          by (intro exI [of _ "Err Io"] exI [of _ u] exI [of _ ch] exI [of _ c])
            (simp add: ch_def take_is_prefix same_prefix_prefix)
      next
        case (Inr x)
        have st: "sc_send_loop k p fd maxmsg d w = sc_send_loop k p fd maxmsg (drop ch d) u"
          by (subst sc_send_loop.simps) (simp add: ne ch_def [symmetric] e Some s(1) Inr Let_def)
        have "length (drop ch d) < length d" using ne assms by (simp add: ch_def)
        then obtain r' w' m c' where i: "sc_send_loop k p fd maxmsg (drop ch d) u = Some (r', w')"
          "m \<le> length (drop ch d)" "c_sealed (view w') = c_sealed (view u) @ take m (drop ch d)"
          "c_made (view w') = c_made (view u) @ c'" "inp fd w' = inp fd u" "fds w' = fds u"
          "prefix (out fd w') (out fd u @ c')"
          "r' = Inr () \<longrightarrow> m = length (drop ch d) \<and> out fd w' = out fd u @ c'" using 1 by blast
        have dd: "take ch d @ take m (drop ch d) = take (ch + m) d" by (simp add: take_add)
        have "ch + m \<le> length d" using i(2) by (simp add: ch_def)
        then show ?thesis using Some ev kv s vu Inr i dd unfolding st
          by (intro exI [of _ r'] exI [of _ w'] exI [of _ "ch + m"] exI [of _ "c @ c'"]) auto
      qed
    qed
  qed
qed

text \<open>
  What a receive moves: \<open>bs\<close> of the plaintext to the caller, and bytes from the socket to the
  buffer, from the buffer to the package and from the package to the buffer of plaintext.
\<close>

definition moved :: "bytes \<Rightarrow> schannel \<Rightarrow> 'w \<Rightarrow> schannel \<Rightarrow> 'w \<Rightarrow> bool" where
  "moved bs im w im' w' \<longleftrightarrow>
     si_fd im' = si_fd im \<and> out (si_fd im) w' = out (si_fd im) w \<and> fds w' = fds w \<and>
     (\<exists>x. inp (si_fd im) w = x @ inp (si_fd im) w' \<and>
        c_eaten (view w) @ si_enc im @ x = c_eaten (view w') @ si_enc im') \<and>
     (\<exists>y. c_opened (view w') = c_opened (view w) @ y \<and> si_plain im @ y = bs @ si_plain im')"

lemma moved_trans:
  assumes "moved b im u im1 v" and "moved c im1 v im2 w"
  shows "moved (b @ c) im u im2 w"
proof -
  obtain x1 y1 where 1: "inp (si_fd im) u = x1 @ inp (si_fd im) v"
    "c_eaten (view u) @ si_enc im @ x1 = c_eaten (view v) @ si_enc im1"
    "c_opened (view v) = c_opened (view u) @ y1" "si_plain im @ y1 = b @ si_plain im1"
    using assms(1) by (auto simp: moved_def)
  obtain x2 y2 where 2: "inp (si_fd im1) v = x2 @ inp (si_fd im1) w"
    "c_eaten (view v) @ si_enc im1 @ x2 = c_eaten (view w) @ si_enc im2"
    "c_opened (view w) = c_opened (view v) @ y2" "si_plain im1 @ y2 = c @ si_plain im2"
    using assms(2) by (auto simp: moved_def)
  have fd: "si_fd im1 = si_fd im" using assms(1) by (simp add: moved_def)
  have "c_eaten (view u) @ si_enc im @ x1 @ x2 = c_eaten (view w) @ si_enc im2"
    using 1(2) 2(2) by (metis append.assoc)
  moreover have "si_plain im @ y1 @ y2 = (b @ c) @ si_plain im2" using 1(4) 2(4) by (metis append.assoc)
  ultimately show ?thesis
    using assms 1(1,3) 2(1,3) fd unfolding moved_def
    by (intro conjI exI [of _ "x1 @ x2"] exI [of _ "y1 @ y2"]) simp_all
qed

lemma moved_world: "same_kernel out inp fds w w' \<Longrightarrow> view w' = view w \<Longrightarrow> moved [] im w im w'"
  by (auto simp: moved_def same_kernel_def)

lemma recv_some_moved:
  "recv_some k ms im w = (r, im', w') \<Longrightarrow> moved [] im w im' w' \<and> (r = Inr 0 \<longrightarrow> im' = im)"
proof -
  assume a: "recv_some k ms im w = (r, im', w')"
  obtain q v where q: "win_recv k (si_fd im) 8192 ms w = (q, v)" by fastforce
  show ?thesis
    using a win_recv_bytes [OF q] win_recv_view [OF q]
    by (cases q) (auto simp: recv_some_def q moved_def)
qed

lemma serve_plain_moved: "serve_plain n im = (bs, im') \<Longrightarrow> moved bs im w im' w"
  by (auto simp: serve_plain_def moved_def consume_def Let_def)

lemma take_record_moved:
  assumes "take_record p n im w = ((served, again), im', w')"
  shows "moved (case served of Some (Inr bs) \<Rightarrow> bs | _ \<Rightarrow> []) im w im' w'"
proof -
  obtain ds v where d: "p_decrypt p (si_enc im) w = (ds, v)" by fastforce
  note laws = decrypt_kernel [OF d] decrypt_view [OF d]
  show ?thesis
  proof (cases ds)
    case (Decrypted bs extra)
    define im1 where "im1 = im\<lparr>si_plain := si_plain im @ bs,
      si_enc := (if extra > 0 then consume (si_enc im) (length (si_enc im) - extra) else [])\<rparr>"
    have "moved [] im w im1 v"
      using laws Decrypted by (auto simp: moved_def im1_def consume_def same_kernel_def)
    moreover have "moved (case served of Some (Inr bs) \<Rightarrow> bs | _ \<Rightarrow> []) im1 v im' w'"
    proof (cases "si_plain im1 = []")
      case True
      then show ?thesis using assms Decrypted d im1_def
        by (auto simp: take_record_def Let_def moved_def)
    next
      case False
      obtain cs im2 where sp: "serve_plain n im1 = (cs, im2)" by fastforce
      have t: "take_record p n im w = ((Some (Inr cs), False), im2, v)"
        unfolding take_record_def d Decrypted
        by (simp only: prod.case decrypt_status.case im1_def [symmetric] Let_def False not_False_eq_True if_True sp)
      have "served = Some (Inr cs)" "im' = im2" "w' = v"
        using assms unfolding t by simp_all
      then show ?thesis using serve_plain_moved [OF sp] by simp
    qed
    ultimately show ?thesis using moved_trans by fastforce
  qed (use assms laws d in \<open>auto simp: take_record_def moved_def same_kernel_def\<close>)
qed

lemma sc_recv_loop_moved:
  assumes "sc_recv_loop k p n ms dl im w = Some y"
  shows "moved (case fst y of Inl _ \<Rightarrow> [] | Inr bs \<Rightarrow> bs) im w (fst (snd y)) (snd (snd y))"
proof (rule sc_recv_loop.raw_induct [where P = "\<lambda>k' p' n ms dl im w y. k' = k \<longrightarrow> p' = p \<longrightarrow>
    moved (case fst y of Inl _ \<Rightarrow> [] | Inr bs \<Rightarrow> bs) im w (fst (snd y)) (snd (snd y))",
    rule_format, OF _ assms refl refl], goal_cases)
  case (1 loop k' p' n ms dl im w y)
  note IH = 1(1) [OF _ refl refl]
  obtain served again im1 v where t: "(if si_enc im \<noteq> [] then take_record p n im w else ((None, False), im, w)) =
      ((served, again), im1, v)" by (metis prod.collapse)
  have m1: "moved (case served of Some (Inr bs) \<Rightarrow> bs | _ \<Rightarrow> []) im w im1 v"
    using t take_record_moved [of n im w served again im1 v] by (auto simp: moved_def split: if_splits)
  show ?case
  proof (cases served)
    case (Some r)
    then have "y = (r, im1, v)" using 1(2) unfolding 1(3,4) t by simp
    then show ?thesis using m1 Some by (cases r) simp_all
  next
    case None
    have m1: "moved [] im w im1 v" using m1 None by simp
    show ?thesis
    proof (cases again)
      case True
      then have "loop k p n ms dl im1 v = Some y" using 1(2) None unfolding 1(3,4) t by simp
      from moved_trans [OF m1 IH [OF this]] show ?thesis by simp
    next
      case False
      obtain now u where cl: "os_monotonic_ms k v = (now, u)" by fastforce
      have m2: "moved [] im w im1 u"
        using moved_trans [OF m1 moved_world] sc_clock_keeps [OF cl] by simp
      define wait where "wait = (if ms < 0 then -1 else if now \<ge> dl then 0 else to_int32 (dl - now))"
      obtain q im2 x where r: "recv_some k (if wait < 0 then 60000 else wait) im1 u = (q, im2, x)"
        by (metis prod.collapse)
      have m3: "moved [] im w im2 x" using moved_trans [OF m2] recv_some_moved [OF r] by fastforce
      have closed: "moved [] im w (im2\<lparr>si_closed := True\<rparr>) x" using m3 by (simp add: moved_def)
      have loop: "loop k p n ms dl im2 x = Some y \<Longrightarrow> ?thesis" using moved_trans [OF m3 IH] by simp
      have body: "(if ms \<ge> 0 \<and> wait = 0 \<and> si_enc im1 = [] then Some (Err Timeout, im1, u)
          else (case (q, im2, x) of
             (Inl er, im, w) \<Rightarrow> if error_is er Timeout
               then (if ms < 0 then loop k p n ms dl im w else Some (Err Timeout, im, w)) else Some (Inl er, im, w)
           | (Inr n', im, w) \<Rightarrow> if n' = 0 then Some (Inr [], im\<lparr>si_closed := True\<rparr>, w)
               else loop k p n ms dl im w)) = Some y"
        using 1(2) None False unfolding 1(3,4) t
        by (simp only: prod.case option.case cl Let_def if_False wait_def [symmetric] r)
      then show ?thesis using m2 m3 closed loop by (auto split: if_splits sum.splits)
    qed
  qed
qed

lemma recv_some_progress:
  "recv_some k ms im w = (Inr m, im', w') \<Longrightarrow>
     si_fd im' = si_fd im \<and> length (inp (si_fd im) w') + m = length (inp (si_fd im) w) \<and>
     length (si_enc im') = length (si_enc im) + m"
  using win_recv_bytes by (fastforce simp: recv_some_def split: prod.splits sum.splits)

lemma take_record_again:
  assumes "take_record p n im w = ((None, again), im', w')"
  shows "si_fd im' = si_fd im \<and> inp (si_fd im) w' = inp (si_fd im) w \<and>
    (if again then length (si_enc im') < length (si_enc im) else im' = im)"
proof -
  obtain ds v where d: "p_decrypt p (si_enc im) w = (ds, v)" by fastforce
  note laws = decrypt_kernel [OF d] decrypt_view [OF d]
  show ?thesis
    using assms laws d
    by (cases ds) (auto simp: take_record_def Let_def same_kernel_def consume_def serve_plain_def split: if_splits)
qed

text \<open>With a time limit a receive returns: every turn takes bytes of the socket or of the ciphertext.\<close>

lemma sc_recv_loop_returns:
  assumes "0 \<le> ms"
  shows "sc_recv_loop k p n ms dl im w \<noteq> None"
proof (induction "2 * length (inp (si_fd im) w) + length (si_enc im)" arbitrary: im w rule: less_induct)
  case less
  obtain served again im1 v where t: "(if si_enc im \<noteq> [] then take_record p n im w else ((None, False), im, w)) =
      ((served, again), im1, v)" by (metis prod.collapse)
  note step = sc_recv_loop.simps [of k p n ms dl im w, unfolded t prod.case Let_def]
  show ?case
  proof (cases served)
    case (Some r)
    then show ?thesis unfolding step by simp
  next
    case None
    have tr: "si_fd im1 = si_fd im \<and> inp (si_fd im) v = inp (si_fd im) w \<and>
        (if again then length (si_enc im1) < length (si_enc im) else im1 = im)"
      using t None take_record_again [of n im w again im1 v] by (auto split: if_splits)
    show ?thesis
    proof (cases again)
      case True
      then show ?thesis using less [of im1 v] tr None unfolding step by simp
    next
      case False
      obtain now u where cl: "os_monotonic_ms k v = (now, u)" by fastforce
      have u: "inp (si_fd im) u = inp (si_fd im) w"
        using sc_clock_keeps [OF cl] tr by (simp add: same_kernel_def)
      define wait where "wait = (if ms < 0 then -1 else if now \<ge> dl then 0 else to_int32 (dl - now))"
      obtain q im2 x where r: "recv_some k (if wait < 0 then 60000 else wait) im1 u = (q, im2, x)"
        by (metis prod.collapse)
      have go: "sc_recv_loop k p n ms dl im2 x \<noteq> None" if "q = Inr m" "m \<noteq> 0" for m
      proof -
        have "recv_some k (if wait < 0 then 60000 else wait) im1 u = (Inr m, im2, x)" using r that by simp
        note pr = recv_some_progress [OF this]
        have "im1 = im" using tr False by simp
        then have "2 * length (inp (si_fd im2) x) + length (si_enc im2) <
            2 * length (inp (si_fd im) w) + length (si_enc im)"
          using pr u that(2) by simp
        from less [OF this] show ?thesis .
      qed
      show ?thesis
        using None False assms go unfolding step cl prod.case wait_def [symmetric] r
        by (cases q) auto
    qed
  qed
qed

text \<open>What the handshake leaves as it is.\<close>

definition held :: "schannel \<Rightarrow> 'w \<Rightarrow> schannel \<Rightarrow> 'w \<Rightarrow> bool" where
  "held im w im' w' \<longleftrightarrow> si_fd im' = si_fd im \<and> si_plain im' = si_plain im \<and> si_closed im' = si_closed im \<and>
     fds w' = fds w"

lemma held_trans: "held im u im1 v \<Longrightarrow> held im1 v im2 w \<Longrightarrow> held im u im2 w"
  by (simp add: held_def)

lemma recv_some_held: "recv_some k ms im w = (r, im', w') \<Longrightarrow> held im w im' w'"
  using win_recv_bytes by (fastforce simp: recv_some_def held_def split: prod.splits sum.splits)

lemma clock_held: "os_monotonic_ms k w = (now, w') \<Longrightarrow> held im w im w'"
  using sc_clock_keeps by (simp add: held_def same_kernel_def)

lemma await_bytes_held:
  assumes "await_bytes k dl im w = Some y"
  shows "held im w (fst (snd y)) (snd (snd y))"
proof (rule await_bytes.raw_induct [where P = "\<lambda>k' dl im w y. k' = k \<longrightarrow>
    held im w (fst (snd y)) (snd (snd y))", rule_format, OF _ assms refl], goal_cases)
  case (1 loop k' dl im w y)
  note IH = 1(1) [OF _ refl]
  show ?case
  proof (cases "si_enc im = []")
    case False
    then show ?thesis using 1(2) by (auto simp: held_def)
  next
    case True
    obtain now v where cl: "os_monotonic_ms k w = (now, v)" by fastforce
    note h = clock_held [OF cl, of im]
    obtain q im1 u where r: "recv_some k (to_int32 (dl - now)) im v = (q, im1, u)" by (metis prod.collapse)
    note h' = held_trans [OF h recv_some_held [OF r]]
    have "loop k dl im1 u = Some y \<Longrightarrow> ?thesis" using held_trans [OF h' IH] by simp
    then show ?thesis
      using 1(2) True h h' unfolding 1(3) by (cases q) (auto simp: cl r split: if_splits)
  qed
qed

lemma handshake_turn_held:
  assumes "handshake_turn k p target dl first im w = Some (r, im', w')"
  shows "held im w im' w'"
proof -
  obtain ss token extra v where i: "p_init p target first (if first then [] else si_enc im) w =
    ((ss, token, extra), v)" by (metis prod.collapse)
  define im0 where "im0 = im\<lparr>si_ctx := si_ctx im \<or> ss \<noteq> Init_other\<rparr>"
  have im0: "si_fd im0 = si_fd im" "si_plain im0 = si_plain im" "si_closed im0 = si_closed im"
    by (simp_all add: im0_def)
  obtain q u where s: "(if token \<noteq> [] then win_send k (si_fd im0) token v else Some (Inr (), v)) = Some (q, u)"
    using win_send_prefix [of "si_fd im0" token v] by (cases "token = []") auto
  have u: "fds u = fds w"
    using s win_send_prefix [of "si_fd im0" token v] init_kernel [OF i]
    by (auto simp: same_kernel_def split: if_splits)
  then have u: "held im w im0 u" using im0 by (simp add: held_def)
  obtain now x where cl: "os_monotonic_ms k u = (now, x)" by fastforce
  note x = held_trans [OF u clock_held [OF cl]]
  obtain b im1 z where z: "recv_some k (to_int32 (dl - now)) im0 x = (b, im1, z)" by (metis prod.collapse)
  note fz = held_trans [OF x recv_some_held [OF z]]
  have upd: "held im w (im0\<lparr>si_enc := e\<rparr>) u" "held im w (im0\<lparr>si_enc := e, si_max := m\<rparr>) u" for e m
    using u by (simp_all add: held_def)
  note a = assms [unfolded handshake_turn_def i prod.case Let_def im0_def [symmetric] s option.case cl z]
  show ?thesis
  proof (cases q)
    case (Inl er)
    then show ?thesis using a u by simp
  next
    case (Inr un)
    then show ?thesis using a u x fz upd
      by (cases b; cases ss) (auto split: if_splits)
  qed
qed

lemma sc_handshake_held:
  assumes "sc_handshake k p target dl first im w = Some y"
  shows "held im w (fst (snd y)) (snd (snd y))"
proof (rule sc_handshake.raw_induct [where P = "\<lambda>k' p' target dl first im w y. k' = k \<longrightarrow> p' = p \<longrightarrow>
    held im w (fst (snd y)) (snd (snd y))", rule_format, OF _ assms refl refl], goal_cases)
  case (1 loop k' p' target dl first im w y)
  note IH = 1(1) [OF _ refl refl]
  obtain r im1 v where a: "(if first then Some (Inr (), im, w) else await_bytes k dl im w) = Some (r, im1, v)"
    using 1(2) unfolding 1(3) by (auto split: option.splits)
  have h: "held im w im1 v"
    using a await_bytes_held [of dl im w "(r, im1, v)"] by (auto simp: held_def split: if_splits)
  note b = 1(2) [unfolded 1(3,4) a option.case prod.case]
  show ?case
  proof (cases r)
    case (Inl er)
    then show ?thesis using b h by auto
  next
    case (Inr un)
    then obtain t im2 u where t: "handshake_turn k p target dl first im1 v = Some (t, im2, u)"
      using b by (auto split: option.splits)
    note h' = held_trans [OF h handshake_turn_held [OF t]]
    have "loop k p target dl False im2 u = Some y \<Longrightarrow> ?thesis" using held_trans [OF h' IH] by simp
    then show ?thesis using b Inr h' by (cases t) (auto simp: t)
  qed
qed

lemma sc_drop_fds: "0 \<le> si_fd im \<Longrightarrow> fds (sc_drop k p im w) = fds w - {si_fd im}"
  using delete_kernel [of w "si_ctx im" "si_cred im"]
  by (simp add: sc_drop_def win_close_def close_fds same_kernel_def)

lemma sc_connect_fds:
  assumes "sc_connect k p fd host ms w = Some (r, w')" and "0 \<le> fd"
  shows "case r of Inl er \<Rightarrow> fds w' = fds w - {fd} \<and> code er = Tls
    | Inr im \<Rightarrow> fds w' = fds w \<and> si_fd im = fd \<and> si_plain im = [] \<and> \<not> si_closed im"
proof -
  obtain ok v where q: "p_acquire p w = (ok, v)" by fastforce
  have v: "fds v = fds w" using acquire_kernel [OF q] by (simp add: same_kernel_def)
  define im where "im = (new_schannel fd)\<lparr>si_cred := True\<rparr>"
  have im: "si_fd im = fd" "si_plain im = []" "\<not> si_closed im" by (simp_all add: im_def new_schannel_def)
  show ?thesis
  proof (cases ok)
    case False
    then show ?thesis using assms sc_drop_fds [of "new_schannel fd" v] v
      by (auto simp: sc_connect_def q new_schannel_def)
  next
    case True
    obtain now u where cl: "os_monotonic_ms k v = (now, u)" by fastforce
    note a = assms(1) [unfolded sc_connect_def q cl Let_def prod.case im_def [symmetric]]
    then obtain s im1 x where h: "sc_handshake k p (c_str host) (now + word_of_int ms) True im u = Some (s, im1, x)"
      using True by (auto split: option.splits)
    have m: "held im v im1 x" using held_trans [OF clock_held [OF cl] sc_handshake_held [OF h]] by simp
    show ?thesis using a True h m im v assms(2) sc_drop_fds [of im1 x]
      by (cases s) (auto simp: held_def)
  qed
qed

end

text \<open>
  A scripted package: a record of ciphertext is a byte with its length and the data moved up by one, a
  record of length 0 ends the stream, and the handshake follows a list of answers.
\<close>

record sc_world = kworld +
  cw_view :: sc_view
  cw_script :: "init_status list"
  cw_max :: nat

definition sp_init :: "string \<Rightarrow> bool \<Rightarrow> bytes \<Rightarrow> sc_world \<Rightarrow> (init_status \<times> bytes \<times> nat) \<times> sc_world" where
  "sp_init target first enc w =
     (case cw_script w of
        [] \<Rightarrow> ((Init_ok, [], 0), w)
      | s # rest \<Rightarrow> ((s, [22], 0), w\<lparr>cw_script := rest\<rparr>))"

definition sp_encrypt :: "bytes \<Rightarrow> sc_world \<Rightarrow> bytes option \<times> sc_world" where
  "sp_encrypt d w =
     (let rec = of_nat (length d) # map (\<lambda>b. b + 1) d
      in (Some rec, w\<lparr>cw_view := (cw_view w)\<lparr>c_sealed := c_sealed (cw_view w) @ d,
                                          c_made := c_made (cw_view w) @ rec\<rparr>\<rparr>))"

definition sp_decrypt :: "bytes \<Rightarrow> sc_world \<Rightarrow> decrypt_status \<times> sc_world" where
  "sp_decrypt enc w =
     (case enc of
        [] \<Rightarrow> (Incomplete, w)
      | n # rest \<Rightarrow>
          if n = 0 then (Expired, w)
          else if length rest < unat n then (Incomplete, w)
          else
            (let d = map (\<lambda>b. b - 1) (take (unat n) rest)
             in (Decrypted d (length rest - unat n),
                 w\<lparr>cw_view := (cw_view w)\<lparr>c_eaten := c_eaten (cw_view w) @ take (Suc (unat n)) enc,
                                        c_opened := c_opened (cw_view w) @ d\<rparr>\<rparr>)))"

definition scripted_package :: "sc_world package" where
  "scripted_package =
     \<lparr>p_acquire = Pair True, p_init = sp_init, p_max = cw_max, p_encrypt = sp_encrypt, p_decrypt = sp_decrypt,
      p_delete = (\<lambda>ctx cred w. w)\<rparr>"

lemma next_entry_view: "next_entry d w = (n, w') \<Longrightarrow> cw_view w' = cw_view w"
  by (auto simp: next_entry_def split: list.splits prod.splits)

interpretation channel: sc_package scripted_kernel "\<lambda>fd w. kw_out w fd" "\<lambda>fd w. kw_in w fd"
    "\<lambda>w. set (kw_fds w)" "\<lambda>w. length (kw_script w)" scripted_package cw_view
proof (unfold_locales, goal_cases)
  case (1 fd d w m w')
  then show ?case using next_entry_view [of "int (length d)" w]
    by (auto simp: scripted_kernel_def ks_send_def Let_def split: prod.splits if_splits)
next
  case (2 fd sz w q w')
  then show ?case using next_entry_view [of "int sz" w]
    by (auto simp: scripted_kernel_def ks_recv_def Let_def split: prod.splits if_splits)
next
  case (3 fd b ms w r w')
  then show ?case using next_entry_view [of 1 w]
    by (auto simp: scripted_kernel_def ks_poll_def Let_def split: prod.splits if_splits)
qed (auto simp: scripted_package_def scripted_kernel_def same_kernel_def sp_init_def sp_encrypt_def
  sp_decrypt_def Let_def split: list.splits if_splits)

subsection \<open>Properties\<close>

definition demo_channel :: "(int \<times> u32) list \<Rightarrow> init_status list \<Rightarrow> bytes \<Rightarrow> sc_world" where
  "demo_channel script inits input =
     kworld.extend (demo_kworld script [] \<lparr>kw_in := (\<lambda>_. input)\<rparr>)
       \<lparr>cw_view = \<lparr>c_sealed = [], c_made = [], c_eaten = [], c_opened = []\<rparr>, cw_script = inits, cw_max = 2\<rparr>"

lemma demo_channel_simps:
  "kw_out (demo_channel s is input) = (\<lambda>_. [])" "kw_in (demo_channel s is input) = (\<lambda>_. input)"
  "kw_fds (demo_channel s is input) = [0, 1, 2]" "cw_max (demo_channel s is input) = 2"
  "cw_view (demo_channel s is input) = \<lparr>c_sealed = [], c_made = [], c_eaten = [], c_opened = []\<rparr>"
  by (simp_all add: demo_channel_def demo_kworld_def kworld.defs)

text \<open>
  C33: sending over Schannel always returns once the handshake has told the size of a record. A prefix
  of the data is then sealed, all of it when the send succeeded; the socket was handed a prefix of the
  ciphertext made of it, in order, and on success all of it.
\<close>

theorem sc_send_delivers:
  assumes "sc_package k out inp fds patience p view" and "0 < si_max im" and "\<not> si_closed im"
  shows "\<exists>r w' n c. sc_send k p (Some im) d w = Some (r, w') \<and> n \<le> length d \<and>
    c_sealed (view w') = c_sealed (view w) @ take n d \<and> c_made (view w') = c_made (view w) @ c \<and>
    prefix (out (si_fd im) w') (out (si_fd im) w @ c) \<and> inp (si_fd im) w' = inp (si_fd im) w \<and>
    (r = Inr () \<longrightarrow> n = length d \<and> out (si_fd im) w' = out (si_fd im) w @ c)"
proof -
  from sc_package.sc_send_loop_delivers [OF assms(1,2), of "si_fd im" d w] obtain r w' n c where
    "sc_send_loop k p (si_fd im) (si_max im) d w = Some (r, w')" "n \<le> length d"
    "c_sealed (view w') = c_sealed (view w) @ take n d" "c_made (view w') = c_made (view w) @ c"
    "inp (si_fd im) w' = inp (si_fd im) w" "prefix (out (si_fd im) w') (out (si_fd im) w @ c)"
    "r = Inr () \<longrightarrow> n = length d \<and> out (si_fd im) w' = out (si_fd im) w @ c" by blast
  then show ?thesis using assms(3)
    by (intro exI [of _ r] exI [of _ w'] exI [of _ n] exI [of _ c]) (simp add: sc_send_def)
qed

lemma sc_send_delivers_witness:
  "\<exists>r w' n c. sc_send scripted_kernel scripted_package (Some ((new_schannel 3)\<lparr>si_max := 2\<rparr>)) [1, 2, 3]
      (demo_channel [(2, 0), (-1, 10054)] [] []) = Some (r, w') \<and>
    c_sealed (cw_view w') = take n [1, 2, 3] \<and> c_made (cw_view w') = c \<and> prefix (kw_out w' 3) c"
  using sc_send_delivers [OF channel.sc_package_axioms, where im = "(new_schannel 3)\<lparr>si_max := 2\<rparr>" and
      d = "[1, 2, 3]" and w = "demo_channel [(2, 0), (-1, 10054)] [] []"]
  by (auto simp: demo_channel_simps new_schannel_def)

text \<open>
  C34: receiving over Schannel loses and invents nothing. The bytes it takes of the socket go behind the
  ciphertext that waits, the ciphertext opened comes off its front, and the plaintext opened goes
  behind the plaintext that waits, whose front is what the caller gets: nothing on an error.
\<close>

theorem sc_recv_conserves:
  assumes "sc_package k out inp fds patience p view"
    and "sc_recv k p (Some im) n timeout_ms w = Some (r, t', w')"
  shows "\<exists>im' x y. t' = Some im' \<and> si_fd im' = si_fd im \<and> inp (si_fd im) w = x @ inp (si_fd im) w' \<and>
    c_eaten (view w) @ si_enc im @ x = c_eaten (view w') @ si_enc im' \<and>
    c_opened (view w') = c_opened (view w) @ y \<and>
    si_plain im @ y = (case r of Inl _ \<Rightarrow> [] | Inr bs \<Rightarrow> bs) @ si_plain im' \<and>
    out (si_fd im) w' = out (si_fd im) w"
proof -
  note pk = sc_package.moved_def [OF assms(1)]
  have "\<exists>im'. t' = Some im' \<and> sc_package.moved out inp fds view (case r of Inl _ \<Rightarrow> [] | Inr bs \<Rightarrow> bs) im w im' w'"
  proof (cases "si_plain im = []")
    case False
    then show ?thesis using assms(2) sc_package.serve_plain_moved [OF assms(1), of n im]
      by (auto simp: sc_recv_def split: prod.splits)
  next
    case plain: True
    show ?thesis
    proof (cases "si_closed im")
      case True
      then show ?thesis using assms(2) plain by (auto simp: sc_recv_def pk)
    next
      case False
      obtain now v where cl: "os_monotonic_ms k w = (now, v)" by fastforce
      obtain im' where l: "sc_recv_loop k p n timeout_ms
          (now + word_of_int (if timeout_ms < 0 then 0 else timeout_ms)) im v = Some (r, im', w')" "t' = Some im'"
        using assms(2) False plain by (auto simp: sc_recv_def cl Let_def split: option.splits)
      have "sc_package.moved out inp fds view [] im w im v"
        using sc_package.sc_clock_keeps [OF assms(1) cl] sc_package.moved_world [OF assms(1)] by blast
      from sc_package.moved_trans [OF assms(1) this sc_package.sc_recv_loop_moved [OF assms(1) l(1)]] l(2)
      show ?thesis by simp
    qed
  qed
  then show ?thesis by (auto simp: pk)
qed

lemma demo_channel_recv:
  "\<exists>t w'. sc_recv scripted_kernel scripted_package (Some (new_schannel 3)) 1 1000
     (demo_channel [(1, 0), (2, 0)] [] [2, 8, 9, 0]) = Some (Inr [7], t, w')"
proof -
  have i: "to_int32 1000 = 1000" by code_simp
  note ops = scripted_kernel_def scripted_package_def sp_decrypt_def ks_poll_def new_schannel_def
    ks_recv_def next_entry_def recv_some_def win_recv_def take_record_def serve_plain_def consume_def
    os_monotonic_ms_def Let_def demo_channel_def demo_kworld_def kworld.defs i
  show ?thesis
    by (simp add: sc_recv_def ops, subst sc_recv_loop.simps, simp add: ops, subst sc_recv_loop.simps,
        simp add: ops, (subst sc_recv_loop.simps, simp add: ops)?)
qed

lemma sc_recv_conserves_witness:
  "\<exists>t w' im' x y. sc_recv scripted_kernel scripted_package (Some (new_schannel 3)) 1 1000
     (demo_channel [(1, 0), (2, 0)] [] [2, 8, 9, 0]) = Some (Inr [7], t, w') \<and> t = Some im' \<and>
     [2, 8, 9, 0] = x @ kw_in w' 3 \<and> c_eaten (cw_view w') @ si_enc im' = x \<and>
     c_opened (cw_view w') = 7 # si_plain im'"
proof -
  obtain t w' where r: "sc_recv scripted_kernel scripted_package (Some (new_schannel 3)) 1 1000
     (demo_channel [(1, 0), (2, 0)] [] [2, 8, 9, 0]) = Some (Inr [7], t, w')" using demo_channel_recv by blast
  from sc_recv_conserves [OF channel.sc_package_axioms r] r show ?thesis
    by (auto simp: demo_channel_simps new_schannel_def)
qed

text \<open>
  Connecting takes over the socket as \<^verbatim>\<open>vc_tls.h\<close> says: when it fails the socket is closed, and the
  error is Tls whatever the reason was; when it succeeds the stream holds the socket.
\<close>

theorem sc_connect_owns_socket:
  assumes "sc_package k out inp fds patience p view" and "0 \<le> fd"
    and "sc_connect k p fd host timeout_ms w = Some (r, w')"
  shows "case r of Inl er \<Rightarrow> fds w' = fds w - {fd} \<and> code er = Tls
    | Inr im \<Rightarrow> fds w' = fds w \<and> si_fd im = fd \<and> si_plain im = [] \<and> \<not> si_closed im"
  by (rule sc_package.sc_connect_fds [OF assms(1,3,2)])

lemma demo_channel_connect:
  "\<exists>w'. sc_connect scripted_kernel scripted_package 2 ''relay'' 0 (demo_channel [] [Init_failed] []) =
     Some (Err Tls, w')"
proof -
  note ops = scripted_kernel_def scripted_package_def sp_init_def ks_send_def new_schannel_def
    next_entry_def handshake_turn_def consume_def win_send.simps
    os_monotonic_ms_def Let_def demo_channel_def demo_kworld_def kworld.defs
  show ?thesis
    by (simp add: sc_connect_def ops, subst sc_handshake.simps, simp add: ops)
qed

lemma sc_connect_owns_socket_witness:
  "\<exists>w'. sc_connect scripted_kernel scripted_package 2 ''relay'' 0 (demo_channel [] [Init_failed] []) =
     Some (Err Tls, w') \<and> set (kw_fds w') = {0, 1}"
proof -
  have three: "insert 0 (insert 1 (insert 2 {})) - {2} = {0, 1 :: int}" by auto
  obtain w' where r: "sc_connect scripted_kernel scripted_package 2 ''relay'' 0
     (demo_channel [] [Init_failed] []) = Some (Err Tls, w')" using demo_channel_connect by blast
  have "(0::int) \<le> 2" by simp
  note q = sc_connect_owns_socket [OF channel.sc_package_axioms this r]
  then have "set (kw_fds w') = set (kw_fds (demo_channel [] [Init_failed] [])) - {2}" by (simp only: sum.case)
  then have "set (kw_fds w') = {0, 1}" unfolding demo_channel_simps by (simp only: list.set three)
  with r show ?thesis by blast
qed

text \<open>Without a size for the records a send never ends: it makes empty ones for ever.\<close>

lemma sc_send_no_room:
  assumes "\<And>w. \<exists>rec w'. p_encrypt p [] w = (Some rec, w')"
    and "\<And>rec w. \<exists>w'. win_send k (si_fd im) rec w = Some (Inr (), w')"
    and "si_max im = 0" and "\<not> si_closed im" and "d \<noteq> []"
  shows "sc_send k p (Some im) d w = None"
proof -
  have "False" if "sc_send_loop k p (si_fd im) 0 d w = Some y" for y
  proof (rule sc_send_loop.raw_induct [where P = "\<lambda>k' p' fd m d' w' y. k' = k \<longrightarrow> p' = p \<longrightarrow> fd = si_fd im \<longrightarrow>
      m = 0 \<longrightarrow> d' = d \<longrightarrow> False", rule_format, OF _ that refl refl refl refl refl], goal_cases)
    case (1 loop k' p' fd m d' w' y)
    obtain rec u where e: "p_encrypt p [] w' = (Some rec, u)" using assms(1) by blast
    obtain v where "win_send k (si_fd im) rec u = Some (Inr (), v)" using assms(2) by blast
    with e 1(2-) assms(5) have "loop k p (si_fd im) 0 d v = Some y" by (simp add: Let_def)
    then show ?case by (rule 1(1)) simp_all
  qed
  then show ?thesis using assms(3,4) by (cases "sc_send_loop k p (si_fd im) 0 d w") (auto simp: sc_send_def)
qed

text \<open>
  While a message of the handshake is incomplete, that the peer has closed is not noticed: the same
  turn comes again until the deadline, and the error is then a time-out.
\<close>

lemma handshake_turn_misses_close:
  assumes "p_init p target False (si_enc im) w = ((Init_incomplete, [], extra), u)"
    and "os_monotonic_ms k u = (now, v)" and "now < deadline" and "si_ctx im"
    and "win_recv k (si_fd im) 8192 (to_int32 (deadline - now)) v = (Inr [], w')"
  shows "handshake_turn k p target deadline False im w = Some (None, im, w')"
proof -
  have "im\<lparr>si_ctx := si_ctx im \<or> Init_incomplete \<noteq> Init_other\<rparr> = im" using assms(4) by (cases im) simp
  then show ?thesis using assms by (simp add: handshake_turn_def recv_some_def Let_def)
qed



end
