(* ===== verification/Https.thy ===== *)
theory Https
  imports Tls_Stream Http Ws_Frame "HOL-Library.Code_Target_Numeral"
begin

text \<open>
  The clients over the platform they run on: \<^verbatim>\<open>http::request\<close> and \<^verbatim>\<open>ws_connect\<close> with the socket of
  \<^verbatim>\<open>vc_sock_posix.cpp\<close> and the TLS stream of \<^verbatim>\<open>vc_tls_openssl.cpp\<close> put in for the operations that
  \<^const>\<open>http_request\<close> and \<^const>\<open>ws_upgrade\<close> take as arguments. Here the destructors matter: what
  is opened is closed again on every path.
\<close>

text \<open>
  The world of a client is the one TLS object it has, and the world of the kernel. \<^const>\<open>None\<close> stands
  for a call that never returned.
\<close>

type_synonym 'w tls_obj = "(tls_impl option \<times> 'w) option"

definition tls_net :: "'w kernel \<Rightarrow> 'w engine \<Rightarrow> ('w tls_obj, unit) net" where
  "tls_net k e =
     \<lparr>tsend = (\<lambda>_ d s. case s of None \<Rightarrow> (Err Fail, None)
        | Some (t, w) \<Rightarrow> (case tls_send k e t d w of None \<Rightarrow> (Err Fail, None) | Some (r, w) \<Rightarrow> (r, Some (t, w)))),
      trecv = (\<lambda>_ n ms s. case s of None \<Rightarrow> (Err Fail, None)
        | Some (t, w) \<Rightarrow> (case tls_recv k e t n ms w of None \<Rightarrow> (Err Fail, None) | Some (r, t, w) \<Rightarrow> (r, Some (t, w)))),
      tclose = (\<lambda>_ s. case s of None \<Rightarrow> None | Some (t, w) \<Rightarrow> Some (tls_close k e t w)),
      tvalid = (\<lambda>_ s. case s of None \<Rightarrow> False | Some (t, w) \<Rightarrow> tls_valid t),
      monotonic_ms = (\<lambda>s. case s of None \<Rightarrow> (0, None)
        | Some (t, w) \<Rightarrow> (let (now, w) = os_monotonic_ms k w in (now, Some (t, w)))),
      random_bytes = (\<lambda>n s. case s of None \<Rightarrow> (Err Fail, None)
        | Some (t, w) \<Rightarrow> (let (r, w) = os_random_bytes k n w in (r, Some (t, w))))\<rparr>"

definition https_request ::
  "'w kernel \<Rightarrow> 'w engine \<Rightarrow> request \<Rightarrow> 'w \<Rightarrow> (response result \<times> 'w) option" where
  "https_request k e req w =
     (case sock_connect k (rq_host req) (rq_port req) (rq_timeout_ms req) w of
        None \<Rightarrow> None
      | Some (Inl _, w) \<Rightarrow> Some (Err Io, w)
      | Some (Inr fd, w) \<Rightarrow>
          (case tls_connect k e fd (rq_host req) (rq_timeout_ms req) w of
             None \<Rightarrow> None
           | Some (Inl _, w) \<Rightarrow> Some (Err Tls, w)
           | Some (Inr im, w) \<Rightarrow>
               (case http_exchange (tls_net k e) () req (Some (Some im, w)) of
                  Some (r, Some (t, w)) \<Rightarrow> Some (r, snd (tls_close k e t w))
                | _ \<Rightarrow> None)))"

text \<open>A WebSocket that is connected holds its TLS object.\<close>

definition wss_connect ::
  "'w kernel \<Rightarrow> 'w engine \<Rightarrow> string \<Rightarrow> int \<Rightarrow> string \<Rightarrow> string \<Rightarrow> int \<Rightarrow> 'w \<Rightarrow>
     ((unit ws \<times> tls_impl option) result \<times> 'w) option" where
  "wss_connect k e host port path_and_query extra_headers timeout_ms w =
     (case sock_connect k host port timeout_ms w of
        None \<Rightarrow> None
      | Some (Inl er, w) \<Rightarrow> Some (Inl er, w)
      | Some (Inr fd, w) \<Rightarrow>
          (case tls_connect k e fd host timeout_ms w of
             None \<Rightarrow> None
           | Some (Inl er, w) \<Rightarrow> Some (Inl er, w)
           | Some (Inr im, w) \<Rightarrow>
               (case ws_upgrade (tls_net k e) () host path_and_query extra_headers timeout_ms (Some (Some im, w)) of
                  Some (Inl er, Some (t, w)) \<Rightarrow> Some (Inl er, snd (tls_close k e t w))
                | Some (Inr ws, Some (t, w)) \<Rightarrow> Some (Inr (ws, t), w)
                | _ \<Rightarrow> None)))"

subsection \<open>What an exchange leaves alone\<close>

context net_frame
begin

lemma read_step_R:
  "read_step net t dl (i, w) = Inl (i', w') \<Longrightarrow> R w w'"
  "read_step net t dl (i, w) = Inr (r, w') \<Longrightarrow> R w w'"
  by (auto simp: read_step_def Let_def split: prod.splits sum.splits if_splits
      dest!: R_clock R_trecv intro: R_trans)

lemma read_loop_R:
  assumes "read_loop net t dl st = Some y"
  shows "R (snd st) (snd y)"
proof (rule read_loop.raw_induct [where P = "\<lambda>n t' d s y. n = net \<longrightarrow> R (snd s) (snd y)",
    rule_format, OF _ assms refl], goal_cases)
  case (1 loop n t' d s y)
  obtain i w where s: "s = (i, w)" by (cases s)
  show ?case
  proof (cases "read_step net t' d s")
    case (Inl s1)
    then have "R (snd s1) (snd y)" using 1 by simp
    moreover have "R w (snd s1)" using read_step_R(1) [of t' d i w "fst s1" "snd s1"] Inl s by simp
    ultimately show ?thesis using R_trans s by auto
  next
    case (Inr r)
    then show ?thesis using 1(2,3) read_step_R(2) [of t' d i w "fst r" "snd r"] s by auto
  qed
qed

lemma http_exchange_R: "http_exchange net t req w = Some (r, w') \<Longrightarrow> R w w'"
  by (auto simp: http_exchange_def Let_def split: prod.splits sum.splits option.splits if_splits
      dest!: R_clock R_tsend read_loop_R) (blast intro: R_trans)+

end

text \<open>The operations of the TLS stream keep the descriptors and the descriptor of the stream.\<close>

definition same_fds :: "('w \<Rightarrow> int set) \<Rightarrow> 'w tls_obj \<Rightarrow> 'w tls_obj \<Rightarrow> bool" where
  "same_fds fds s s' =
     (case s' of
        None \<Rightarrow> True
      | Some (t', w') \<Rightarrow>
          (case s of
             None \<Rightarrow> False
           | Some (t, w) \<Rightarrow> fds w' = fds w \<and> map_option ti_fd t' = map_option ti_fd t))"

context tls_engine
begin

lemma tls_send_fds:
  assumes "tls_send k e t d w = Some (r, w')"
  shows "fds w' = fds w"
proof (cases t)
  case (Some im)
  obtain r' w'' where "tls_send_loop k e (ti_fd im) (ti_ssl im) d w = Some (r', w'')" "fds w'' = fds w"
    using tls_send_loop_delivers [of "ti_fd im" "ti_ssl im" d w] by blast
  with assms Some show ?thesis by (auto simp: tls_send_def split: if_splits)
qed (use assms in \<open>simp add: tls_send_def\<close>)

lemma tls_recv_fds:
  assumes "tls_recv k e t n ms w = Some (r, t', w')"
  shows "fds w' = fds w \<and> map_option ti_fd t' = map_option ti_fd t"
proof (cases t)
  case (Some im)
  show ?thesis
  proof (cases "ti_closed im")
    case False
    obtain now v where cl: "os_monotonic_ms k w = (now, v)" by fastforce
    obtain gone where l: "tls_recv_loop k e (ti_fd im) (ti_ssl im) (int_of_size n) ms
        (now + word_of_int (if ms < 0 then 0 else ms)) v = Some (r, gone, w')" "t' = Some (im\<lparr>ti_closed := gone\<rparr>)"
      using assms False Some by (auto simp: tls_recv_def cl Let_def split: option.splits)
    from tls_recv_loop_stream [OF l(1)] os_clock_keeps [OF cl] l(2) Some show ?thesis
      by (simp add: pumped_def same_kernel_def)
  qed (use assms Some in \<open>simp add: tls_recv_def\<close>)
qed (use assms in \<open>simp add: tls_recv_def\<close>)

end

sublocale tls_engine < stream: net_frame "tls_net k e" "same_fds fds"
proof (unfold_locales, goal_cases)
  case (3 t d s r s')
  then show ?case
    by (auto simp: tls_net_def same_fds_def split: option.splits dest!: tls_send_fds)
next
  case (4 t n ms s q s')
  then show ?case
    by (auto simp: tls_net_def same_fds_def split: option.splits dest!: tls_recv_fds)
next
  case (5 s now s')
  then show ?case
    by (auto simp: tls_net_def same_fds_def same_kernel_def split: option.splits prod.splits dest!: os_clock_keeps)
next
  case (6 n s q s')
  then show ?case
    by (auto simp: tls_net_def same_fds_def split: option.splits prod.splits dest!: os_random_bytes_fds)
qed (auto simp: same_fds_def split: option.splits)

context tls_engine
begin

lemma tls_close_fds: "0 \<le> ti_fd im \<Longrightarrow> fds (snd (tls_close k e (Some im) w)) = fds w - {ti_fd im}"
  by (simp add: tls_close_def tls_drop_fds)

text \<open>Connecting a socket and a stream over it: a descriptor of its own when it succeeds.\<close>

lemma tls_dial_fds:
  assumes "sock_connect k h p ms w = Some (Inr fd, v)" and "tls_connect k e fd h ms v = Some (q, u)"
  shows "case q of Inl _ \<Rightarrow> fds u = fds w
    | Inr im \<Rightarrow> ti_fd im = fd \<and> 0 \<le> fd \<and> fd \<notin> fds w \<and> fds u = insert fd (fds w)"
proof -
  have s: "0 \<le> fd" "fd \<notin> fds w" "fds v = insert fd (fds w)"
    using sock_connect_fds [of h p ms w] assms(1) by auto
  from tls_connect_fds [OF assms(2) s(1)] show ?thesis
    using s by (auto split: sum.splits)
qed

lemma sock_connect_failed: "sock_connect k h p ms w = Some (Inl er, v) \<Longrightarrow> fds v = fds w"
  using sock_connect_fds [of h p ms w] by auto

lemma https_exchange_fds:
  "http_exchange (tls_net k e) t req s = Some (r, s') \<Longrightarrow> same_fds fds s s'"
  by (rule stream.http_exchange_R)

lemma wss_upgrade_fds:
  "ws_upgrade (tls_net k e) t host pq hdrs ms s = Some (r, s') \<Longrightarrow> same_fds fds s s'"
  by (rule stream.ws_upgrade_R)

text \<open>What a client does with the stream, and the end of the stream.\<close>

lemma stream_used:
  assumes "same_fds fds (Some (Some im, u)) (Some (t, x))" and "0 \<le> ti_fd im" and "ti_fd im \<notin> F"
    and "fds u = insert (ti_fd im) F"
  shows "fds x = insert (ti_fd im) F \<and> fds (snd (tls_close k e t x)) = F"
proof -
  have x: "fds x = insert (ti_fd im) F" "map_option ti_fd t = Some (ti_fd im)"
    using assms(1,4) by (simp_all add: same_fds_def)
  then obtain im' where t: "t = Some im'" "ti_fd im' = ti_fd im" by auto
  have "fds (snd (tls_close k e t x)) = insert (ti_fd im) F - {ti_fd im}"
    using tls_close_fds [of im' x] assms(2) unfolding t by (simp only: t x(1))
  then show ?thesis using x(1) assms(3) by simp
qed

end

subsection \<open>Properties\<close>

declare poll_again.simps [code] try_addresses.simps [code] sock_send.simps [code] recv_again.simps [code]
  tls_flush.simps [code] tls_handshake.simps [code] tls_send_loop.simps [code] tls_recv_loop.simps [code]
  read_loop.simps [code]

text \<open>A kernel that knows one address, and a peer that closes at once or fails the handshake.\<close>

definition demo_https :: "ssl_error list \<Rightarrow> tls_world" where
  "demo_https errs = (demo_tls [] errs [])\<lparr>kw_addresses := [7]\<rparr>"

lemma demo_https_fds: "set (kw_fds (demo_https errs)) = {0, 1, 2}"
  by (simp add: demo_https_def demo_tls_def demo_kworld_def kworld.defs)

lemma demo_https_runs:
  "case https_request scripted_kernel scripted_engine demo_request (demo_https []) of
     Some (Inl er, w') \<Rightarrow> code er = Protocol | _ \<Rightarrow> False"
  "case wss_connect scripted_kernel scripted_engine ''h'' 443 ''/'' [] 1000 (demo_https [Ssl_other]) of
     Some (Inl er, w') \<Rightarrow> code er = Tls | _ \<Rightarrow> False"
  by code_simp+

text \<open>
  C36: a request over TLS gives back every descriptor: whether the connect, the handshake or the
  exchange fails, or the response arrives, the same descriptors are open afterwards as before.
\<close>

theorem https_request_closes:
  assumes "tls_engine k out inp fds patience e view" and "https_request k e req w = Some (r, w')"
  shows "fds w' = fds w"
proof -
  obtain q v where s: "sock_connect k (rq_host req) (rq_port req) (rq_timeout_ms req) w = Some (q, v)"
    using assms(2) by (auto simp: https_request_def split: option.splits)
  show ?thesis
  proof (cases q)
    case (Inl er)
    then show ?thesis
      using assms(2) s tls_engine.sock_connect_failed [OF assms(1)] by (fastforce simp: https_request_def)
  next
    case (Inr fd)
    then obtain c u where c: "tls_connect k e fd (rq_host req) (rq_timeout_ms req) v = Some (c, u)"
      using assms(2) s by (auto simp: https_request_def split: option.splits)
    note d = tls_engine.tls_dial_fds [OF assms(1) s [unfolded Inr] c]
    show ?thesis
    proof (cases c)
      case (Inl er)
      then show ?thesis using assms(2) s c d Inr by (simp add: https_request_def)
    next
      case im: (Inr im)
      then obtain t x where x: "http_exchange (tls_net k e) () req (Some (Some im, u)) = Some (r, Some (t, x))"
        "w' = snd (tls_close k e t x)"
        using assms(2) s c Inr by (auto simp: https_request_def split: option.splits)
      have R: "same_fds fds (Some (Some im, u)) (Some (t, x))"
        by (rule tls_engine.https_exchange_fds [OF assms(1) x(1)])
      show ?thesis
        using tls_engine.stream_used [OF assms(1) R] d im x(2) by simp
    qed
  qed
qed

lemma https_request_closes_witness:
  "\<exists>er w'. https_request scripted_kernel scripted_engine demo_request (demo_https []) = Some (Inl er, w') \<and>
     code er = Protocol \<and> set (kw_fds w') = {0, 1, 2}"
proof -
  obtain er w' where r: "https_request scripted_kernel scripted_engine demo_request (demo_https []) =
      Some (Inl er, w')" "code er = Protocol"
    using demo_https_runs(1) by (auto split: option.splits sum.splits)
  from https_request_closes [OF session.tls_engine_axioms r(1)] r show ?thesis
    unfolding demo_https_fds by blast
qed

text \<open>
  C37: a WebSocket that does not connect gives back every descriptor; one that does has one more, its
  own, until its stream is closed.
\<close>

theorem wss_connect_owns:
  assumes "tls_engine k out inp fds patience e view"
    and "wss_connect k e host port pq hdrs ms w = Some (r, w')"
  shows "case r of Inl _ \<Rightarrow> fds w' = fds w
    | Inr (ws, t) \<Rightarrow> \<exists>fd. fd \<notin> fds w \<and> fds w' = insert fd (fds w) \<and> fds (snd (tls_close k e t w')) = fds w"
proof -
  obtain q v where s: "sock_connect k host port ms w = Some (q, v)"
    using assms(2) by (auto simp: wss_connect_def split: option.splits)
  show ?thesis
  proof (cases q)
    case (Inl er)
    then show ?thesis
      using assms(2) s tls_engine.sock_connect_failed [OF assms(1)] by (fastforce simp: wss_connect_def)
  next
    case (Inr fd)
    then obtain c u where c: "tls_connect k e fd host ms v = Some (c, u)"
      using assms(2) s by (auto simp: wss_connect_def split: option.splits)
    note d = tls_engine.tls_dial_fds [OF assms(1) s [unfolded Inr] c]
    show ?thesis
    proof (cases c)
      case (Inl er)
      then show ?thesis using assms(2) s c d Inr by (auto simp: wss_connect_def)
    next
      case im: (Inr im)
      then obtain b t x where x: "ws_upgrade (tls_net k e) () host pq hdrs ms (Some (Some im, u)) = Some (b, Some (t, x))"
        using assms(2) s c Inr by (auto simp: wss_connect_def split: option.splits sum.splits)
      have R: "same_fds fds (Some (Some im, u)) (Some (t, x))"
        by (rule tls_engine.wss_upgrade_fds [OF assms(1) x])
      note use = tls_engine.stream_used [OF assms(1) R, of "fds w"]
      show ?thesis
        using use d im assms(2) s c Inr x by (cases b) (auto simp: wss_connect_def)
    qed
  qed
qed

lemma wss_connect_owns_witness:
  "\<exists>er w'. wss_connect scripted_kernel scripted_engine ''h'' 443 ''/'' [] 1000 (demo_https [Ssl_other]) =
     Some (Inl er, w') \<and> code er = Tls \<and> set (kw_fds w') = {0, 1, 2}"
proof -
  obtain er w' where r: "wss_connect scripted_kernel scripted_engine ''h'' 443 ''/'' [] 1000
      (demo_https [Ssl_other]) = Some (Inl er, w')" "code er = Tls"
    using demo_https_runs(2) by (auto split: option.splits sum.splits)
  from wss_connect_owns [OF session.tls_engine_axioms r(1)] r show ?thesis
    unfolding demo_https_fds by auto
qed

end
