(* ===== verification/Self_Test.thy ===== *)
theory Self_Test
  imports Sas Json Url Common "HOL-Library.Code_Target_Numeral"
begin

text \<open>
  \<^verbatim>\<open>apps/selftest/src/main.cpp\<close>: the checks of the repository on the parts that compute, carried out
  on the model. A test is the list of its checks, each a name and whether it holds; where the code
  returns early the list ends. \<open>run_tests\<close> is \<^verbatim>\<open>main\<close>: what it prints and its exit code.
\<close>

type_synonym checks = "(string \<times> bool) list"

definition check :: "string \<times> bool \<Rightarrow> string" where
  "check c = (if snd c then ''  ok   '' @ fst c else ''  FAIL '' @ fst c) @ [CHR 0x0A]"

definition failures :: "checks \<Rightarrow> nat" where
  "failures cs = length (filter (\<lambda>c. \<not> snd c) cs)"

definition run_tests :: "(string \<times> checks) list \<Rightarrow> string \<times> int" where
  "run_tests ts =
     (let failed = failures (concat (map snd ts));
          rule = replicate 26 CHR ''='' @ [CHR 0x0A]
      in (''VeriConnect core self-test'' @ [CHR 0x0A] @ rule @
          concat (map (\<lambda>(title, cs). title @ [CHR 0x0A] @ concat (map check cs)) ts) @ rule @
          (if failed > 0 then to_string failed @ '' check(s) FAILED'' else ''All checks passed.'') @ [CHR 0x0A],
          if failed > 0 then 1 else 0))"

lemma run_tests_passes: "snd (run_tests ts) = 0 \<longleftrightarrow> (\<forall>t \<in> set ts. list_all snd (snd t))"
  by (auto simp: run_tests_def failures_def Let_def list_all_iff filter_empty_conv)

text \<open>Evaluation shifts words as integers, not as products with a power of two.\<close>

lemma push_bit_word_int [code]: "push_bit n (w :: 'a::len word) = word_of_int (push_bit n (uint w))"
  by (rule bit_word_eqI) (auto simp: bit_push_bit_iff bit_word_of_int_iff bit_uint_iff)

lemma drop_bit_word_int [code]: "drop_bit n (w :: 'a::len word) = word_of_int (drop_bit n (uint w))"
  by (rule bit_word_eqI) (auto simp: bit_drop_bit_eq bit_word_of_int_iff bit_uint_iff dest: bit_imp_le_length)

text \<open>C++ literals: a backquote stands for the quotation mark, a tilde for the backslash.\<close>

definition lit :: "string \<Rightarrow> string" where
  "lit s = map (\<lambda>c. if c = CHR 0x60 then CHR 0x22 else if c = CHR ''~'' then CHR 0x5C else c) s"

definition is_ok :: "'a result \<Rightarrow> bool" where
  "is_ok r = (case r of Inl _ \<Rightarrow> False | Inr _ \<Rightarrow> True)"

definition failed_with :: "'a result \<Rightarrow> error_code \<Rightarrow> bool" where
  "failed_with r c = (case r of Inl e \<Rightarrow> error_is e c | Inr _ \<Rightarrow> False)"

definition ok_and :: "('a \<Rightarrow> bool) \<Rightarrow> 'a result \<Rightarrow> bool" where
  "ok_and p r = (case r of Inl _ \<Rightarrow> False | Inr v \<Rightarrow> p v)"

text \<open>Equality of doubles.\<close>

definition dbl_zero :: "dbl \<Rightarrow> bool" where
  "dbl_zero x = (case x of DFin s m e \<Rightarrow> m = 0 | _ \<Rightarrow> False)"

definition dbl_equal :: "dbl \<Rightarrow> dbl \<Rightarrow> bool" where
  "dbl_equal x y = (x \<noteq> DNaN \<and> (x = y \<or> dbl_zero x \<and> dbl_zero y))"

definition has :: "string \<Rightarrow> string \<Rightarrow> bool" where
  "has text needle = (find_sub needle text \<noteq> None)"

subsection \<open>The tests\<close>

definition hex :: "bytes \<Rightarrow> string" where
  "hex d = concat (map (\<lambda>b. [hex_lower ! unat (drop_bit 4 b), hex_lower ! unat (b AND 0xF)]) d)"

definition test_base64 :: checks where
  "test_base64 =
     [(''encode'', base64_encode (as_bytes ''foobar'') = ''Zm9vYmFy''),
      (''encode pad2'', base64_encode (as_bytes ''foob'') = ''Zm9vYg==''),
      (''decode'', case base64_decode ''Zm9vYmE='' of None \<Rightarrow> False
                   | Some d \<Rightarrow> length d = 5 \<and> as_view (take 5 d) = ''fooba''),
      (''decode invalid'', base64_decode ''!!!'' = None)]"

definition test_base64_strict :: checks where
  "test_base64_strict =
     [(''truncated single char rejected'', base64_decode ''A'' = None),
      (''valid round trip'', base64_decode ''aGk='' \<noteq> None),
      (''two chars decode to one byte'', case base64_decode ''aGk='' of None \<Rightarrow> False | Some d \<Rightarrow> length d = 2),
      (''data after padding rejected'', base64_decode ''aGk=a'' = None),
      (''bad alphabet rejected'', base64_decode ''aG!k'' = None),
      (''empty is valid'', case base64_decode [] of None \<Rightarrow> False | Some d \<Rightarrow> d = [])]"

definition json_text :: string where
  "json_text =
     lit (''{`Adapter`:`FileSystem`,`Command`:`CreateFile`,'' @
          ''`Parameters`:{`TargetFolder`:`C:~~tmp`,`FileName`:`x.txt`,'' @
          ''`OverwriteIfExists`:true,`Depth`:-2.5,'' @
          ''`Unicode`:`caf~u00e9 ~ud83d~ude00`,`Nothing`:null,'' @
          ''`List`:[1,2,3]}}'')"

definition test_json :: checks where
  "test_json =
     (case json_parse json_text of
        Inl _ \<Rightarrow> [(''parse'', False)]
      | Inr root \<Rightarrow>
          (let p = find_ci root ''parameters'';
               on_p = (\<lambda>f. case p of None \<Rightarrow> False | Some j \<Rightarrow> f j);
               out = dump root
           in [(''parse'', True),
               (''get str'', get_str root ''Command'' [] = ''CreateFile''),
               (''ci lookup'', p \<noteq> None),
               (''nested str'', on_p (\<lambda>j. get_str j ''TargetFolder'' [] = lit ''C:~tmp'')),
               (''bool'', on_p (\<lambda>j. get_bool j ''OverwriteIfExists'' False)),
               (''negative num'', on_p (\<lambda>j. dbl_equal (get_num j ''Depth'' (dbl_of_int 0)) (round_dbl True 5 2))),
               (''utf8 escape'', on_p (\<lambda>j. get_str j ''Unicode'' [] =
                  ''caf'' @ [CHR 0xC3, CHR 0xA9] @ '' '' @ [CHR 0xF0, CHR 0x9F, CHR 0x98, CHR 0x80])),
               (''array size'', on_p (\<lambda>j. case find_ci j ''List'' of None \<Rightarrow> False | Some l \<Rightarrow> json_size l = 3)),
               (''write'', out \<noteq> []),
               (''round trip'', is_ok (json_parse out)),
               (''reject junk'', \<not> is_ok (json_parse (lit ''{`a`:}''))),
               (''reject trailing'', \<not> is_ok (json_parse ''{} extra''))]))"

definition json_num :: "string \<Rightarrow> dbl option" where
  "json_num t =
     (case json_parse t of Inr (JNumber n) \<Rightarrow> Some n | _ \<Rightarrow> None)"

definition num_is :: "string \<Rightarrow> dbl \<Rightarrow> bool" where
  "num_is t x = (case json_num t of None \<Rightarrow> False | Some n \<Rightarrow> dbl_equal n x)"

definition test_json_numbers :: checks where
  "test_json_numbers =
     [(''integer'', num_is ''123'' (dbl_of_int 123)),
      (''negative'', num_is ''-7'' (dbl_of_int (-7))),
      (''fraction'', num_is ''1.5'' (round_dbl False 3 2)),
      (''exponent'', num_is ''2e3'' (dbl_of_int 2000)),
      (''negative exponent'', num_is ''5e-1'' (round_dbl False 1 2)),
      (''zero'', num_is ''0'' (dbl_of_int 0)),
      (''array of numbers'', ok_and (\<lambda>j. json_size j = 3) (json_parse ''[1,2,3]'')),
      (''number at object end'', ok_and (\<lambda>j. dbl_equal (get_num j ''a'' (dbl_of_int 0)) (dbl_of_int 42))
         (json_parse (lit ''{`a`:42}''))),
      (''unterminated buffer parsed'', ok_and (\<lambda>j. dbl_equal (as_number j (dbl_of_int 0)) (dbl_of_int 999))
         (json_parse ''999'')),
      (''truncated object rejected'', \<not> is_ok (json_parse (lit ''{`a`:1''))),
      (''truncated array rejected'', \<not> is_ok (json_parse ''[1,'')),
      (''lone minus rejected'', \<not> is_ok (json_parse ''-'')),
      (''trailing junk rejected'', \<not> is_ok (json_parse ''1 2'')),
      (''over-long number rejected'', \<not> is_ok (json_parse (CHR ''1'' # replicate 600 CHR ''0'')))]"

definition test_url :: checks where
  "test_url =
     (''encode'', url_encode ''http://ns/path with space&x=1'' =
        ''http%3A%2F%2Fns%2Fpath%20with%20space%26x%3D1'') #
     (case url_parse (''wss://g1-prod.servicebus.windows.net:443/$hc/x?sb-hc-action=accept&id=abc'') of
        Inl _ \<Rightarrow> [(''parse rc'', False)]
      | Inr u \<Rightarrow>
          [(''parse rc'', True),
           (''host'', host u = ''g1-prod.servicebus.windows.net''),
           (''port'', port u = 443),
           (''path'', path u = ''/$hc/x''),
           (''query'', query u = ''sb-hc-action=accept&id=abc'')])"

definition test_url_port :: checks where
  "test_url_port =
     [(''valid port parsed'', ok_and (\<lambda>u. port u = 8443) (url_parse ''wss://h.example:8443/p'')),
      (''default port for wss'', ok_and (\<lambda>u. port u = 443) (url_parse ''wss://h.example/p'')),
      (''port 0 rejected'', \<not> is_ok (url_parse ''wss://h.example:0/p'')),
      (''out-of-range port rejected'', \<not> is_ok (url_parse ''wss://h.example:99999/p'')),
      (''negative port rejected'', \<not> is_ok (url_parse ''wss://h.example:-5/p'')),
      (''junk port rejected'', \<not> is_ok (url_parse ''wss://h.example:80x/p''))]"

definition test_parse_uint :: checks where
  "test_parse_uint =
     [(''plain decimal'', parse_uint ''42'' 100 10 = Some 42),
      (''at the limit'', parse_uint ''100'' 100 10 = Some 100),
      (''over the limit rejected'', parse_uint ''101'' 100 10 = None),
      (''empty rejected'', parse_uint [] 100 10 = None),
      (''negative rejected'', parse_uint ''-1'' 100 10 = None),
      (''plus rejected'', parse_uint ''+1'' 100 10 = None),
      (''trailing junk rejected'', parse_uint ''12abc'' 100 10 = None),
      (''leading space rejected'', parse_uint '' 12'' 100 10 = None),
      (''not a number rejected'', parse_uint ''abc'' 100 10 = None),
      (''overflow rejected'', parse_uint ''99999999999999999999999'' 0xFFFFFFFF 10 = None),
      (''hex base'', parse_uint ''10'' 100 16 = Some 16),
      (''hex rejects decimal-only digits'', parse_uint ''1g'' 100 16 = None),
      (''zero accepted'', parse_uint ''0'' 100 10 = Some 0)]"

text \<open>
  The text of an OS error and the result of the connect to a port nobody listens on come from the
  system; the member \<open>==\<close> of \<^verbatim>\<open>Error\<close> with a category is \<^const>\<open>error_is\<close>.
\<close>

definition starts_with :: "string \<Rightarrow> string \<Rightarrow> bool" where
  "starts_with s p = (take (length p) s = p)"

definition test_error :: "(u32 \<Rightarrow> string) \<Rightarrow> int result \<Rightarrow> checks" where
  "test_error os_text connected =
     (let plain = mk_error Io; tagged = \<lparr>code = Io, os_code = 61\<rparr>;
          fail = (\<lambda>os. Inl \<lparr>code = Io, os_code = os\<rparr> :: int result);
          bare = (Err Io :: status);
          two = os_text 2;
          d = error_detail os_text \<lparr>code = Io, os_code = 2\<rparr>
      in [(''bare category has no OS code'', os_code plain = 0),
          (''bare category renders as the category'', error_detail os_text plain = error_str plain),
          (''tagged keeps the category'', code tagged = Io),
          (''tagged keeps the OS code'', os_code tagged = 61),
          (''category comparison ignores the OS code'', error_is tagged Io),
          (''category comparison still discriminates'', \<not> error_is tagged Timeout),
          (''same category and code are equal'', tagged = \<lparr>code = Io, os_code = 61\<rparr>),
          (''same category, different code differ'', tagged \<noteq> \<lparr>code = Io, os_code = 111\<rparr>),
          (''OS code survives Result'', case fail 42 of Inl e \<Rightarrow> os_code e = 42 | Inr _ \<Rightarrow> False),
          (''untagged spelling means no OS code'', case bare of Inl e \<Rightarrow> os_code e = 0 | Inr _ \<Rightarrow> False),
          (''zero renders empty'', os_text 0 = []),
          (''code rendered with its number'', starts_with two ''2: ''),
          (''code rendered with its text'', length two > 3),
          (''detail leads with the category'', starts_with d (error_str (mk_error Io))),
          (''detail appends the OS code'', find_sub ''(2: '' d \<noteq> None),
          (''connect failure carries an OS code'', case connected of Inl e \<Rightarrow> os_code e \<noteq> 0 | Inr _ \<Rightarrow> False)])"

text \<open>Those that need nothing of the system pass.\<close>

lemma test_base64_passes: "list_all snd test_base64"
  by code_simp

lemma test_base64_strict_passes: "list_all snd test_base64_strict"
  by code_simp

lemma test_json_passes: "list_all snd test_json"
  by code_simp

lemma test_json_numbers_passes: "list_all snd test_json_numbers"
  by code_simp

lemma test_url_passes: "list_all snd test_url"
  by code_simp

lemma test_url_port_passes: "list_all snd test_url_port"
  by code_simp

lemma test_parse_uint_passes: "list_all snd test_parse_uint"
  by code_simp

lemmas test_pure_passes = test_base64_passes test_base64_strict_passes test_json_passes
  test_json_numbers_passes test_url_passes test_url_port_passes test_parse_uint_passes

end
