(* ===== verification/Self_Test_Files.thy ===== *)
theory Self_Test_Files
  imports Self_Test Host Ini
begin

text \<open>
  The checks of \<^verbatim>\<open>apps/selftest/src/main.cpp\<close> that work on files: the INI store, the adapter behind its
  host, and the log. They run over a file system of the model, from the directory of the program.
\<close>

definition status_of :: "string \<Rightarrow> int" where
  "status_of res =
     (case json_parse res of
        Inl _ \<Rightarrow> 0
      | Inr j \<Rightarrow> the (dbl_to_int (get_num j ''StatusCode'' (dbl_of_int 0))))"

definition make_request :: "string \<Rightarrow> json \<Rightarrow> string" where
  "make_request cmd params =
     (let r = JObject [];
          r = json_set r ''Adapter'' (JString ''FileSystem'');
          r = json_set r ''Command'' (JString cmd)
      in dump (json_set r ''Parameters'' params))"

definition or_dot :: "string option \<Rightarrow> string" where
  "or_dot d = (case d of None \<Rightarrow> ''.'' | Some p \<Rightarrow> p)"

definition test_ini :: "string option \<Rightarrow> vfs \<Rightarrow> checks \<times> vfs" where
  "test_ini dir s =
     (let p = path_join (or_dot dir) ''selftest.ini'';
          i = ini_set [] (''Connection'', ''Namespace'') ''x.servicebus.windows.net'';
          i = ini_set_int i (''Logging'', ''MaxRotateFiles'') 7;
          (saved, s) = ini_save i p s;
          loaded = ini_load p s
      in ((''save'', is_ok saved) # (''load'', is_ok loaded) #
          (case loaded of
             Inl _ \<Rightarrow> []
           | Inr l \<Rightarrow>
               [(''get'', (case ini_get l (''Connection'', ''Namespace'') of None \<Rightarrow> [] | Some v \<Rightarrow> v) =
                   ''x.servicebus.windows.net''),
                (''get int'', ini_get_int l (''Logging'', ''MaxRotateFiles'') 0 = 7),
                (''default'', ini_get_int l (''Logging'', ''Missing'') 42 = 42)]),
          snd (remove_file p s)))"

subsection \<open>The adapter\<close>

definition json_members :: "(string \<times> json) list \<Rightarrow> json" where
  "json_members kvs = foldl (\<lambda>j (k, v). json_set j k v) (JObject []) kvs"

text \<open>Where the registry finds no adapter the test is skipped.\<close>

definition test_adapter_roundtrip ::
  "(string \<Rightarrow> host_world dynlib option) \<Rightarrow> string option \<Rightarrow> host_world \<Rightarrow> checks \<times> host_world" where
  "test_adapter_roundtrip libs dir w =
     (let h = posix_host libs;
          (loaded, ads, w) = registry_load h (or_dot dir) [] w
      in if \<not> is_ok loaded then ([], w)
         else
           (let tmp = path_join (or_dot dir) ''selftest-fs'';
                w = (snd (fs_mkdir tmp (fst w)), snd w);
                (r1, w) = dispatch h ads (make_request ''CreateFile'' (json_members
                   [(''TargetFolder'', JString tmp), (''FileName'', JString ''hello.txt''),
                    (''FileContent'', JString ''hello vericonnect''), (''OverwriteIfExists'', JBool True),
                    (''Encoding'', JString ''utf-8'')])) w;
                (r2, w) = dispatch h ads (make_request ''ListFolder'' (json_members
                   [(''TargetFolder'', JString tmp)])) w;
                (r3, w) = dispatch h ads (make_request ''ReadFile'' (json_members
                   [(''TargetFolder'', JString tmp), (''FileName'', JString ''hello.txt''),
                    (''OverwriteIfExists'', JBool True)])) w;
                copyfile = path_join (path_join tmp ''COPY'') ''hello.txt'';
                moved = file_exists (fst w) copyfile;
                w = (snd (remove_file copyfile (fst w)), snd w);
                (r4, w) = dispatch h ads (make_request ''Nope'' (JObject [])) w;
                (r5, w) = dispatch h ads (make_request ''CreateFile'' (json_members
                   [(''TargetFolder'', JString (lit ''C:~'')), (''FileName'', JString ''vc_imp_selftest.txt''),
                    (''UserCredentials'', json_members
                       [(''Domain'', JString []), (''Username'', JString ''vc_no_such_user_zzz''),
                        (''Password'', JString ''x'')])])) w
            in ([(''CreateFile 200'', status_of r1 = 200), (''ListFolder 200'', status_of r2 = 200)] @
                (case json_parse r3 of
                   Inl _ \<Rightarrow> [(''ReadFile 200'', False)]
                 | Inr j \<Rightarrow>
                     [(''ReadFile 200'', dbl_equal (get_num j ''StatusCode'' (dbl_of_int 0)) (dbl_of_int 200)),
                      (''ReadFile content'', case base64_decode (get_str j ''Data'' []) of
                         None \<Rightarrow> False
                       | Some raw \<Rightarrow> length raw = 17 \<and> as_view (take 17 raw) = ''hello vericonnect'')]) @
                [(''moved to COPY'', moved), (''unknown cmd 404'', status_of r4 = 404),
                 (''impersonation unsupported -> 501'', status_of r5 = 501)], w)))"

subsection \<open>Logging\<close>

definition log_once ::
  "local_time \<Rightarrow> string option \<Rightarrow> level \<Rightarrow> string \<Rightarrow> level \<Rightarrow> log_state \<times> vfs \<Rightarrow> string \<times> log_state \<times> vfs"
where
  "log_once now dir lvl msg threshold w =
     (let (g, s) = w;
          p = path_join (or_dot dir) ''selftest-log.txt'';
          s = snd (remove_file p s);
          c = default_log_config\<lparr>cfg_level := threshold, cfg_enabled := True, console := False, file_path := p,
                show_event_type := True\<rparr>;
          (r, g, s) = log_init c g s
      in if \<not> is_ok r then ([], g, s)
         else
           (let (g, s) = log_write now lvl msg g s;
                g = log_shutdown g;
                d = read_all p s;
                s = snd (remove_file p s)
            in (case d of Inl _ \<Rightarrow> [] | Inr b \<Rightarrow> as_view b, g, s)))"

text \<open>The checks on a long message need more than evaluation; they are apart.\<close>

definition test_logging :: "local_time \<Rightarrow> string option \<Rightarrow> log_state \<times> vfs \<Rightarrow> checks \<times> log_state \<times> vfs" where
  "test_logging now dir w =
     (let (out1, w) = log_once now dir Info (''first'' @ [CHR 0x0A] @ ''second'') Trace w;
          (out2, w) = log_once now dir Info (''a'' @ [CHR 0x09] @ ''b'' @ [CHR 0x01] @ ''c'') Trace w;
          (out3, w) = log_once now dir Info
             ''GET /$hc/x?sb-hc-action=listen&sb-hc-token=SharedAccessSig%2fabc&z=1'' Trace w;
          (out4, w) = log_once now dir Info (lit ''{`Username`:`u`,`Password`:`hunter2`,`x`:1}'') Trace w;
          (out5, w) = log_once now dir Info ''sig=abc123&next=2'' Trace w;
          (out6, w) = log_once now dir Debug ''quiet'' Error_level w;
          c = default_log_config\<lparr>cfg_level := Warn, cfg_enabled := True, console := False\<rparr>;
          (r, g, s) = log_init c (fst w) (snd w)
      in ([(''message written'', has out1 ''first''),
           (''newline escaped'', has out1 (lit ''first~nsecond'')),
           (''only one log line'', length (filter (\<lambda>ch. ch = CHR 0x0A) out1) = 1),
           (''tab escaped'', has out2 (lit ''a~tb'')),
           (''control byte escaped'', has out2 (lit ''~x01'')),
           (''token value masked'', \<not> has out3 ''SharedAccessSig%2fabc''),
           (''token key kept'', has out3 ''sb-hc-token=***''),
           (''other params intact'', has out3 ''sb-hc-action=listen''),
           (''json password masked'', \<not> has out4 ''hunter2''),
           (''json key kept'', has out4 (lit ''`Password`:`***`'')),
           (''json neighbours intact'', has out4 (lit ''`Username`:`u`'')),
           (''sig masked'', \<not> has out5 ''abc123''),
           (''field after sig intact'', has out5 ''next=2''),
           (''below-threshold message dropped'', \<not> has out6 ''quiet''),
           (''init with no file'', is_ok r),
           (''enabled() false below threshold'', \<not> log_enabled Info g),
           (''enabled() true at threshold'', log_enabled Warn g),
           (''enabled() true above threshold'', log_enabled Error_level g),
           (''Succ filtered as Info'', \<not> log_enabled Succ_level g)],
          log_shutdown g, s))"

subsection \<open>They pass\<close>

definition test_vfs :: vfs where
  "test_vfs =
     \<lparr>nodes = [([''opt''], Dir), ([''opt'', ''vc''], Dir), ([''opt'', ''vc'', ''vc-adapter-filesystem.so''], File [])],
      cwd = [], fails = (\<lambda>_ _. 0), stream_buf = 8192\<rparr>"

definition test_libs :: "(u32 \<Rightarrow> string) \<Rightarrow> string \<Rightarrow> host_world dynlib option" where
  "test_libs os_text p = (if p = ''/opt/vc/vc-adapter-filesystem.so'' then Some (fs_library os_text) else None)"

definition test_now :: local_time where
  "test_now = \<lparr>lt_year = 2026, lt_month = 3, lt_day = 1, lt_hour = 9, lt_minute = 5, lt_second = 0, lt_millisecond = 7\<rparr>"

text \<open>The three tests one after the other, as \<^verbatim>\<open>main\<close> calls them.\<close>

definition test_files ::
  "(string \<Rightarrow> host_world dynlib option) \<Rightarrow> local_time \<Rightarrow> string option \<Rightarrow> vfs \<Rightarrow> checks \<times> checks \<times> checks" where
  "test_files libs now dir s =
     (let (ini, s) = test_ini dir s;
          (ad, w) = test_adapter_roundtrip libs dir (s, []);
          (lg, _) = test_logging now dir (log_start, fst w)
      in (ini, ad, lg))"

lemma test_files_passes:
  "case test_files (test_libs os_text) test_now (Some ''/opt/vc'') test_vfs of
     (ini, ad, lg) \<Rightarrow> ad \<noteq> [] \<and> list_all snd (ini @ ad @ lg)"
  by code_simp

end
