(* ===== verification/Self_Test_Wire.thy ===== *)
theory Self_Test_Wire
  imports Self_Test Ws Http
begin

text \<open>
  The checks of \<^verbatim>\<open>apps/selftest/src/main.cpp\<close> that drive the WebSocket and the HTTP client over a scripted
  wire. The wire has the handle 0. A test that starts behind the upgrade gets what \<open>upgraded\<close> returned.
\<close>

declare header_loop.simps [code] recv_loop.simps [code] read_loop.simps [code]

text \<open>Searching characters is quicker than searching bytes.\<close>

lemma find_sub_bytes: "find_sub (as_bytes needle) hay = find_sub needle (as_view hay)"
proof -
  have "prefix (as_bytes s) b \<longleftrightarrow> prefix s (as_view b)" for s b
  proof
    assume "prefix (as_bytes s) b"
    then obtain r where "b = as_bytes s @ r" by (auto simp: prefix_def)
    then have "as_view b = s @ as_view r" by (simp add: as_view_def as_bytes_def comp_def)
    then show "prefix s (as_view b)" by (auto simp: prefix_def)
  next
    assume "prefix s (as_view b)"
    then obtain r where "as_view b = s @ r" by (auto simp: prefix_def)
    then have "b = as_bytes s @ as_bytes r" by (metis as_bytes_as_view as_bytes_def map_append)
    then show "prefix (as_bytes s) b" by (auto simp: prefix_def)
  qed
  note p = this
  show ?thesis
  proof (induction hay)
    case Nil
    then show ?case by (simp add: as_bytes_def as_view_def)
  next
    case (Cons x xs)
    have v: "as_view (x # xs) = chr x # as_view xs" by (simp add: as_view_def)
    show ?case using p [of needle "x # xs"] Cons unfolding v by (simp del: prefix_Cons)
  qed
qed

lemma ws_find_text [code]:
  "ws_find hay needle =
     (if needle = [] \<or> length hay < length needle then None else find_sub needle (as_view hay))"
  by (simp add: ws_find_def find_sub_bytes)

type_synonym wire_ws = "nat option ws \<times> scripted"

definition fresh_wire :: scripted where
  "fresh_wire = \<lparr>wires = [(0, new_wire)], clock = 0, tick = 0, rng_seed = 0, rng_ok = True\<rparr>"

definition the_wire :: "scripted \<Rightarrow> wire" where
  "the_wire w = the (wire_of (Some 0) w)"

definition on_wire :: "(wire \<Rightarrow> wire) \<Rightarrow> scripted \<Rightarrow> scripted" where
  "on_wire f w = put_wire 0 (f (the_wire w)) w"

text \<open>A frame from the server is never masked.\<close>

definition server_frame :: "u8 \<Rightarrow> bool \<Rightarrow> string \<Rightarrow> bytes" where
  "server_frame opcode fin payload =
     (let n = length payload
      in [(if fin then 0x80 else 0x00) OR opcode] @
         (if n < 126 then [word_of_nat n]
          else if n \<le> 0xFFFF then [126, word_of_nat (n div 256), word_of_nat n]
          else 127 # map (\<lambda>i. word_of_nat (n div 2 ^ (i * 8))) (rev [0..<8])) @
         as_bytes payload)"

record client_frame =
  cf_opcode :: u8
  cf_fin :: bool
  cf_masked :: bool
  cf_payload :: string
  cf_total :: nat

definition decode_client_frame :: "bytes \<Rightarrow> client_frame option" where
  "decode_client_frame b =
     (if length b < 2 then None
      else
        (let fin = (b ! 0 AND 0x80 \<noteq> 0); opcode = b ! 0 AND 0x0F; masked = (b ! 1 AND 0x80 \<noteq> 0)
         in case frame_len b of
              None \<Rightarrow> None
            | Some (len, pos) \<Rightarrow>
                if masked \<and> length b < pos + 4 then None
                else
                  (let mask = (if masked then take 4 (drop pos b) else [0, 0, 0, 0]);
                       pos = (if masked then pos + 4 else pos)
                   in if length b < pos + unat len then None
                      else Some \<lparr>cf_opcode = opcode, cf_fin = fin, cf_masked = masked,
                             cf_payload = as_view (mask_from mask 0 (take (unat len) (drop pos b))),
                             cf_total = pos + unat len\<rparr>)))"

definition upgraded :: "scripted \<Rightarrow> wire_ws option" where
  "upgraded w =
     (let w = on_wire (push_incoming_text (''HTTP/1.1 101 Switching Protocols'' @ crlf @
            ''Upgrade: websocket'' @ crlf @ ''Connection: Upgrade'' @ crlf @ crlf)) w
      in case ws_upgrade scripted_net (Some 0) ''example.test'' ''/path?x=1'' [] 5000 w of
           Some (Inr ws, w) \<Rightarrow> Some (ws, on_wire clear_outgoing w)
         | _ \<Rightarrow> None)"

definition with_ws :: "(wire_ws \<Rightarrow> checks) \<Rightarrow> checks" where
  "with_ws t = (case upgraded fresh_wire of None \<Rightarrow> [(''upgraded'', False)] | Some u \<Rightarrow> t u)"

definition rcv :: "int \<Rightarrow> wire_ws \<Rightarrow> message result \<times> wire_ws" where
  "rcv ms u = (case ws_recv scripted_net ms (fst u) (snd u) of None \<Rightarrow> (Err Fail, u) | Some (r, ws, w) \<Rightarrow> (r, ws, w))"

definition push :: "bytes \<Rightarrow> wire_ws \<Rightarrow> wire_ws" where
  "push d u = (fst u, on_wire (push_incoming d) (snd u))"

definition outgoing :: "scripted \<Rightarrow> bytes" where
  "outgoing w = w_out (the_wire w)"

definition got :: "message result \<Rightarrow> string \<Rightarrow> bool" where
  "got m s = ok_and (\<lambda>m. as_view (m_payload m) = s) m"

definition frame_ok :: "client_frame option \<Rightarrow> (client_frame \<Rightarrow> bool) \<Rightarrow> bool" where
  "frame_ok f p = (case f of None \<Rightarrow> False | Some c \<Rightarrow> p c)"

subsection \<open>The upgrade\<close>

definition try_upgrade ::
  "string \<Rightarrow> string \<Rightarrow> string \<Rightarrow> scripted \<Rightarrow> nat option ws result \<times> scripted" where
  "try_upgrade h p extra w =
     (case ws_upgrade scripted_net (Some 0) h p extra 5000 w of None \<Rightarrow> (Err Fail, w) | Some r \<Rightarrow> r)"

definition ends_with :: "string \<Rightarrow> string \<Rightarrow> bool" where
  "ends_with text e = (length e \<le> length text \<and> drop (length text - length e) text = e)"

definition request_key :: "string \<Rightarrow> string option" where
  "request_key req =
     (case find_sub ''Sec-WebSocket-Key: '' req of
        None \<Rightarrow> None
      | Some kp \<Rightarrow>
          (let r = drop (kp + 19) req
           in Some (case find_sub crlf r of None \<Rightarrow> r | Some eol \<Rightarrow> take eol r)))"

definition answer_101 :: string where
  "answer_101 = ''HTTP/1.1 101 Switching Protocols'' @ crlf @ crlf"

definition upgrade_request_checks :: "string \<Rightarrow> checks" where
  "upgrade_request_checks req =
     [(''request line'', starts_with req (''GET /path?x=1 HTTP/1.1'' @ crlf)),
      (''Host header'', has req (''Host: example.test'' @ crlf)),
      (''Upgrade header'', has req (''Upgrade: websocket'' @ crlf)),
      (''Connection header'', has req (''Connection: Upgrade'' @ crlf)),
      (''version 13'', has req (''Sec-WebSocket-Version: 13'' @ crlf)),
      (''extra header passed through'', has req (''X-Extra: 1'' @ crlf)),
      (''request terminated'', ends_with req (crlf @ crlf))] @
     (case request_key req of
        None \<Rightarrow> [(''key present'', False)]
      | Some key \<Rightarrow>
          [(''key present'', True), (''key is 24 base64 chars'', length key = 24 \<and> key ! 23 = CHR ''=''),
           (''key decodes to 16 bytes'', case base64_decode key of None \<Rightarrow> False | Some raw \<Rightarrow> length raw = 16)])"

definition upgrade_accepted :: checks where
  "upgrade_accepted =
     (let (r, w) = try_upgrade ''example.test'' ''/path?x=1'' (''X-Extra: 1'' @ crlf)
            (on_wire (push_incoming_text answer_101) fresh_wire)
      in (''101 accepted'', is_ok r) # upgrade_request_checks (outgoing_text (the_wire w)))"

definition upgrade_nonces :: checks where
  "upgrade_nonces =
     (let (_, w) = try_upgrade ''h'' ''/p'' [] (on_wire (push_incoming_text answer_101) fresh_wire);
          k0 = request_key (outgoing_text (the_wire w));
          (_, w) = try_upgrade ''h'' ''/p'' [] (put_wire 0 (push_incoming_text answer_101 new_wire) w);
          k1 = request_key (outgoing_text (the_wire w))
      in [(''nonce differs per handshake'', k0 \<noteq> k1)])"

definition upgrade_refused :: checks where
  "upgrade_refused =
     (let r1 = fst (try_upgrade ''h'' ''/p'' [] (on_wire (push_incoming_text (''HTTP/1.1 400 Bad Request'' @ crlf @ crlf)) fresh_wire));
          r2 = fst (try_upgrade ''h'' ''/p'' [] (on_wire (\<lambda>w. set_eof (push_incoming_text ''HTTP/1.1 101 Switching'' w)) fresh_wire));
          r3 = fst (try_upgrade ''h'' ''/p'' [] (on_wire fail_next_send fresh_wire))
      in [(''non-101 rejected'', failed_with r1 Protocol), (''truncated header rejected'', \<not> is_ok r2),
          (''failed handshake write rejected'', failed_with r3 Io)])"

definition test_ws_upgrade :: checks where
  "test_ws_upgrade = upgrade_accepted @ upgrade_nonces @ upgrade_refused"

subsection \<open>Receiving\<close>

definition recv_text :: "wire_ws \<Rightarrow> checks" where
  "recv_text u =
     (let (m, u) = rcv 1000 (push (server_frame 0x1 True ''hello'') u)
      in [(''upgraded'', True), (''text frame received'', is_ok m), (''text type'', ok_and (\<lambda>m. m_type m = Msg_Text) m),
          (''text payload'', got m ''hello'')])"

definition recv_fragments :: "wire_ws \<Rightarrow> checks" where
  "recv_fragments u =
     (let (m, u) = rcv 1000 (push (server_frame 0x0 True ''lo!'') (push (server_frame 0x1 False ''Hel'') u))
      in [(''fragments reassembled'', got m ''Hello!'')])"

definition recv_ping :: "wire_ws \<Rightarrow> checks" where
  "recv_ping u =
     (let (m, u) = rcv 1000 (push (server_frame 0x1 True ''after'') (push (server_frame 0x9 True ''pp'') u));
          pong = decode_client_frame (outgoing (snd u))
      in [(''ping hidden from caller'', got m ''after''), (''pong sent'', frame_ok pong (\<lambda>f. cf_opcode f = 0xA)),
          (''pong echoes payload'', frame_ok pong (\<lambda>f. cf_payload f = ''pp'')),
          (''pong is masked'', frame_ok pong cf_masked)])"

definition recv_close :: "wire_ws \<Rightarrow> checks" where
  "recv_close u =
     (let (m, u) = rcv 1000 (push (server_frame 0x8 True [CHR 0x03, CHR 0xE8]) u);
          echo = decode_client_frame (outgoing (snd u));
          (again, u) = rcv 1000 u
      in [(''close surfaces as Close'', ok_and (\<lambda>m. m_type m = Msg_Close) m),
          (''close echoed'', frame_ok echo (\<lambda>f. cf_opcode f = 0x8)),
          (''recv after close fails'', failed_with again Closed)])"

definition recv_orphan :: "wire_ws \<Rightarrow> checks" where
  "recv_orphan u =
     [(''orphan continuation rejected'', failed_with (fst (rcv 1000 (push (server_frame 0x0 True ''orphan'') u))) Protocol),
      (''empty recv times out'', failed_with (fst (rcv 0 u)) Timeout)]"

definition recv_split :: "wire_ws \<Rightarrow> checks" where
  "recv_split u =
     (let f = server_frame 0x1 True ''split-me'';
          (partial, u) = rcv 0 (push (take 4 f) u);
          (m, u) = rcv 1000 (push (drop 4 f) u)
      in [(''incomplete frame does not yield a message'', \<not> is_ok partial),
          (''partial frame reassembled'', got m ''split-me'')])"

definition recv_eof :: "wire_ws \<Rightarrow> checks" where
  "recv_eof u =
     (let u = push (server_frame 0x1 False ''Hel'') u;
          (m, u) = rcv 1000 (fst u, on_wire set_eof (snd u))
      in [(''eof mid-message is an error'', \<not> is_ok m)])"

definition test_ws_recv :: checks where
  "test_ws_recv = concat (map with_ws
     [recv_text, recv_fragments, recv_ping, recv_close, recv_orphan, recv_split, recv_eof])"

subsection \<open>Sending\<close>

definition snd_msg :: "msg_type \<Rightarrow> string \<Rightarrow> wire_ws \<Rightarrow> status \<times> wire_ws" where
  "snd_msg ty s u = (let (r, w) = ws_send scripted_net ty (as_bytes s) (fst u) (snd u) in (r, fst u, w))"

definition send_small :: "wire_ws \<Rightarrow> checks" where
  "send_small u =
     (let (r, u) = snd_msg Msg_Text ''hi'' u; f = decode_client_frame (outgoing (snd u))
      in [(''send small ok'', is_ok r), (''one frame written'', f \<noteq> None),
          (''opcode text'', frame_ok f (\<lambda>f. cf_opcode f = 0x1)), (''fin set'', frame_ok f cf_fin),
          (''client frame masked'', frame_ok f cf_masked), (''payload round-trips'', frame_ok f (\<lambda>f. cf_payload f = ''hi'')),
          (''no trailing bytes'', frame_ok f (\<lambda>f. cf_total f = length (outgoing (snd u))))])"

definition send_twice :: "wire_ws \<Rightarrow> checks" where
  "send_twice u =
     (let (r1, u) = snd_msg Msg_Text ''same'' u; one = outgoing (snd u);
          (r2, u) = snd_msg Msg_Text ''same'' (fst u, on_wire clear_outgoing (snd u)); two = outgoing (snd u)
      in [(''first send'', is_ok r1), (''second send'', is_ok r2), (''mask varies per frame'', one \<noteq> two)])"

definition send_control :: "wire_ws \<Rightarrow> checks" where
  "send_control u =
     (let (r1, w1) = send_ping scripted_net (fst u) (snd u); f1 = decode_client_frame (outgoing w1);
          (r2, w2) = send_close scripted_net 1000 (fst u) (snd u); f2 = decode_client_frame (outgoing w2)
      in [(''ping ok'', is_ok r1), (''ping opcode'', frame_ok f1 (\<lambda>f. cf_opcode f = 0x9)),
          (''ping empty'', frame_ok f1 (\<lambda>f. cf_payload f = [])),
          (''close ok'', is_ok r2), (''close opcode'', frame_ok f2 (\<lambda>f. cf_opcode f = 0x8)),
          (''close carries code 1000'', frame_ok f2 (\<lambda>f. cf_payload f = [CHR 0x03, CHR 0xE8]))])"

definition send_mid :: "wire_ws \<Rightarrow> checks" where
  "send_mid u =
     (let mid = replicate 200 CHR ''m''; (r, u) = snd_msg Msg_Binary mid u; out = outgoing (snd u)
      in [(''mid send ok'', is_ok r), (''16-bit length used'', length out > 1 \<and> out ! 1 AND 0x7F = 126),
          (''mid payload round-trips'', frame_ok (decode_client_frame out) (\<lambda>f. cf_payload f = mid))])"

definition send_refused :: "wire_ws \<Rightarrow> checks" where
  "send_refused u =
     (let (r1, u1) = snd_msg Msg_Text ''nope'' (fst u, on_wire fail_next_send (snd u));
          u2 = ws_close scripted_net (fst u) (snd u);
          (r2, u3) = snd_msg Msg_Text ''x'' u2
      in [(''send failure propagates'', failed_with r1 Io),
          (''valid() false after close'', \<not> ws_valid scripted_net (fst u2) (snd u2)),
          (''send after close refused'', failed_with r2 Closed)])"

definition test_ws_send :: checks where
  "test_ws_send = concat (map with_ws [send_small, send_twice, send_control, send_mid, send_refused])"

subsection \<open>HTTP\<close>

definition basic_request :: "string \<Rightarrow> request" where
  "basic_request m =
     \<lparr>rq_method = m, rq_host = ''api.example.test'', rq_port = 443, rq_path_and_query = ''/v1/thing?a=b'',
      rq_extra_headers = [], rq_body = [], rq_content_type = [], rq_timeout_ms = 1000\<rparr>"

text \<open>An exchange with a wire that was prepared: the outcome and what was sent.\<close>

definition exchanged :: "(wire \<Rightarrow> wire) \<Rightarrow> request \<Rightarrow> response result \<times> string" where
  "exchanged prepare req =
     (case http_exchange scripted_net (Some 0) req (on_wire prepare fresh_wire) of
        None \<Rightarrow> (Err Fail, [])
      | Some (r, w) \<Rightarrow> (r, outgoing_text (the_wire w)))"

definition lines :: "string list \<Rightarrow> string" where
  "lines ls = concat (map (\<lambda>l. l @ crlf) ls)"

definition body_is :: "response result \<Rightarrow> string \<Rightarrow> bool" where
  "body_is r s = ok_and (\<lambda>p. as_view (body p) = s) r"

definition http_shape :: checks where
  "http_shape =
     (let (r, sent) = exchanged (push_incoming_text (lines [''HTTP/1.1 200 OK'', ''Content-Length: 2'', []] @ ''hi''))
            (basic_request ''GET'')
      in [(''200 parsed'', is_ok r), (''status code'', ok_and (\<lambda>p. status p = 200) r),
          (''status text'', ok_and (\<lambda>p. status_text p = ''OK'') r), (''body'', body_is r ''hi''),
          (''request line'', starts_with sent (''GET /v1/thing?a=b HTTP/1.1'' @ crlf)),
          (''host header'', has sent (''Host: api.example.test'' @ crlf)),
          (''connection close'', has sent (''Connection: close'' @ crlf)),
          (''no content-length without a body'', \<not> has sent ''Content-Length:'')])"

definition http_body :: checks where
  "http_body =
     (let payload = lit ''{`k`:1}'';
          (r, sent) = exchanged (push_incoming_text (lines [''HTTP/1.1 201 Created'', ''Content-Length: 0'', []]))
            ((basic_request ''POST'')\<lparr>rq_body := as_bytes payload\<rparr>)
      in [(''201 parsed'', ok_and (\<lambda>p. status p = 201) r), (''content-length set'', has sent (''Content-Length: 7'' @ crlf)),
          (''default content-type json'', has sent (''Content-Type: application/json'' @ crlf)),
          (''body written'', ends_with sent payload)])"

definition http_content_type :: checks where
  "http_content_type =
     (let (r, sent) = exchanged (push_incoming_text (lines [''HTTP/1.1 200 OK'', ''Content-Length: 0'', []]))
            ((basic_request ''POST'')\<lparr>rq_body := as_bytes ''x'', rq_content_type := ''text/plain'',
               rq_extra_headers := ''X-Trace: abc'' @ crlf\<rparr>)
      in [(''explicit exchange ok'', is_ok r), (''content-type honoured'', has sent (''Content-Type: text/plain'' @ crlf)),
          (''extra header passed'', has sent (''X-Trace: abc'' @ crlf))])"

definition http_chunked :: checks where
  "http_chunked =
     (let (r, _) = exchanged (\<lambda>w. set_eof (push_incoming_text (lines [''HTTP/1.1 200 OK'',
            ''Transfer-Encoding: chunked'', [], ''5'', ''Hello'', ''2'', '', '', ''6'', ''world!'', ''0'', []]) w))
            (basic_request ''GET'')
      in [(''chunked parsed'', is_ok r), (''chunked body reassembled'', body_is r ''Hello, world!'')])"

definition http_hex_chunk :: checks where
  "http_hex_chunk =
     (let sixteen = ''0123456789abcdef'';
          (r, _) = exchanged (\<lambda>w. set_eof (push_incoming_text (lines [''HTTP/1.1 200 OK'',
            ''Transfer-Encoding: chunked'', [], ''10'', sixteen, ''0'', []]) w)) (basic_request ''GET'')
      in [(''hex chunk size honoured'', body_is r sixteen)])"

definition http_dribbles :: checks where
  "http_dribbles =
     (let (r, _) = exchanged (\<lambda>w. push_incoming_text (crlf @ ''abc'') (push_incoming_text
            (lines [''Found'', ''Content-Length: 3'']) (push_incoming_text ''HTTP/1.1 404 Not '' w))) (basic_request ''GET'')
      in [(''split response parsed'', ok_and (\<lambda>p. status p = 404) r),
          (''split status text'', ok_and (\<lambda>p. status_text p = ''Not Found'') r), (''split body'', body_is r ''abc'')])"

definition http_refused :: checks where
  "http_refused =
     (let (r1, _) = exchanged (\<lambda>w. set_eof (push_incoming_text (lines [''HTTP/1.1 200 OK'', ''Content-Length: 5'']) w))
            (basic_request ''GET'');
          (r2, _) = exchanged (\<lambda>w. set_eof (push_incoming_text (lines [''GARBAGE'', []] @ ''body'') w)) (basic_request ''GET'');
          (r3, _) = exchanged fail_next_send (basic_request ''GET'')
      in [(''unterminated headers rejected'', failed_with r1 Protocol), (''non-HTTP rejected'', failed_with r2 Protocol),
          (''write failure propagates'', failed_with r3 Io)])"

definition http_headers :: checks where
  "http_headers =
     (let (r, _) = exchanged (push_incoming_text (lines [''HTTP/1.1 200 OK'', ''X-Thing: v'', ''Content-Length: 0'', []]))
            (basic_request ''GET'')
      in [(''headers exposed'', ok_and (\<lambda>p. has (headers p) ''X-Thing: v'') r),
          (''headers exclude the blank line'', ok_and (\<lambda>p. \<not> has (headers p) (crlf @ crlf)) r)])"

definition test_http :: checks where
  "test_http = http_shape @ http_body @ http_content_type @ http_chunked @ http_hex_chunk @ http_dribbles @
     http_refused @ http_headers"

subsection \<open>They pass\<close>

definition upgrade_answer :: string where
  "upgrade_answer = ''HTTP/1.1 101 Switching Protocols'' @ crlf @ ''Upgrade: websocket'' @ crlf @
     ''Connection: Upgrade'' @ crlf @ crlf"

definition upgraded_ws :: wire_ws where
  "upgraded_ws =
     (\<lparr>ws_transport = Some 0, ws_in = [], ws_closed = False\<rparr>,
      \<lparr>wires = [(0, \<lparr>w_in = as_bytes upgrade_answer, w_out = [], read_pos = length upgrade_answer, w_closed = False,
                     w_eof = False, fail_send = False\<rparr>)],
       clock = 0, tick = 0, rng_seed = 16, rng_ok = True\<rparr>)"

lemma upgraded_fresh: "upgraded fresh_wire = Some upgraded_ws"
  by code_simp

lemma upgrade_accepted_passes: "list_all snd upgrade_accepted"
  by code_simp

lemma upgrade_nonces_passes: "list_all snd upgrade_nonces"
  by code_simp

lemma upgrade_refused_passes: "list_all snd upgrade_refused"
  by code_simp

lemma recv_text_passes: "list_all snd (recv_text upgraded_ws)"
  by code_simp

lemma recv_fragments_passes: "list_all snd (recv_fragments upgraded_ws)"
  by code_simp

lemma recv_ping_passes: "list_all snd (recv_ping upgraded_ws)"
  by code_simp

lemma recv_close_passes: "list_all snd (recv_close upgraded_ws)"
  by code_simp

lemma recv_orphan_passes: "list_all snd (recv_orphan upgraded_ws)"
  by code_simp

lemma recv_split_passes: "list_all snd (recv_split upgraded_ws)"
  by code_simp

lemma recv_eof_passes: "list_all snd (recv_eof upgraded_ws)"
  by code_simp

lemma send_small_passes: "list_all snd (send_small upgraded_ws)"
  by code_simp

lemma send_twice_passes: "list_all snd (send_twice upgraded_ws)"
  by code_simp

lemma send_control_passes: "list_all snd (send_control upgraded_ws)"
  by code_simp

lemma send_mid_passes: "list_all snd (send_mid upgraded_ws)"
  by code_simp

lemma send_refused_passes: "list_all snd (send_refused upgraded_ws)"
  by code_simp

lemma http_shape_passes: "list_all snd http_shape"
  by code_simp

lemma http_body_passes: "list_all snd http_body"
  by code_simp

lemma http_content_type_passes: "list_all snd http_content_type"
  by code_simp

lemma http_chunked_passes: "list_all snd http_chunked"
  by code_simp

lemma http_hex_chunk_passes: "list_all snd http_hex_chunk"
  by code_simp

lemma http_dribbles_passes: "list_all snd http_dribbles"
  by code_simp

lemma http_refused_passes: "list_all snd http_refused"
  by code_simp

lemma http_headers_passes: "list_all snd http_headers"
  by code_simp

lemmas wire_passes = upgrade_accepted_passes upgrade_nonces_passes upgrade_refused_passes
  recv_text_passes recv_fragments_passes recv_ping_passes recv_close_passes recv_orphan_passes recv_split_passes recv_eof_passes
  send_small_passes send_twice_passes send_control_passes send_mid_passes send_refused_passes
  http_shape_passes http_body_passes http_content_type_passes http_chunked_passes http_hex_chunk_passes http_dribbles_passes http_refused_passes http_headers_passes

lemma with_ws_upgraded: "with_ws t = t upgraded_ws"
  by (simp add: with_ws_def upgraded_fresh)

lemma test_wire_passes:
  "list_all snd (test_ws_upgrade @ test_ws_recv @ test_ws_send @ test_http)"
  by (simp add: test_ws_upgrade_def test_ws_recv_def test_ws_send_def test_http_def with_ws_upgraded wire_passes)

end
