(* ===== verification/Self_Test_Main.thy ===== *)
theory Self_Test_Main
  imports Self_Test_Files Self_Test_Wire Posix
begin





end
